(* ===== verification/Prelude.thy ===== *)
theory Prelude
  imports Main "HOL-Library.Word" "HOL-Library.AList" "HOL-Library.Multiset"
begin

text \<open>
  Shared vocabulary of the development: Go byte slices, crashes as values, the result
  monad with its loop combinator, big-endian integers as in Go's \<open>encoding/binary\<close>,
  and generic lemmas on lists and maps.

  A Go \<open>[]byte\<close> is \<open>byte list option\<close>: \<open>None\<close> is the nil slice, which has length 0
  and equals the empty slice for \<open>bytes.Equal\<close>, yet differs from it under \<open>== nil\<close>.
\<close>

unbundle bit_operations_syntax

named_theorems res_simps \<open>evaluation of the result monad\<close>
named_theorems byte_simps \<open>lengths and contents of byte slices\<close>

section \<open>Byte slices\<close>

type_synonym byte = "8 word"
type_synonym bytes = "byte list option"

definition raw :: "bytes \<Rightarrow> byte list" where
  "raw b = (case b of None \<Rightarrow> [] | Some xs \<Rightarrow> xs)"

lemma raw_simps [simp]: "raw None = []" "raw (Some xs) = xs"
  by (simp_all add: raw_def)

text \<open>\<open>bytes.Equal\<close> compares contents: nil and empty are equal.\<close>

definition bytes_Equal :: "bytes \<Rightarrow> bytes \<Rightarrow> bool" where
  "bytes_Equal a b \<longleftrightarrow> raw a = raw b"

lemma bytes_Equal_refl [simp]: "bytes_Equal a a"
  by (simp add: bytes_Equal_def)

section \<open>Crashes as values\<close>

text \<open>
  \<open>Fatal\<close> is \<open>log.Fatal\<close> (the process exits), \<open>Panic\<close> a Go run-time panic (slice bounds,
  assignment to an entry of a nil map, nil pointer).
\<close>

datatype crash = Fatal | Panic

type_synonym 'a res = "crash + 'a"

definition bind_res :: "'a res \<Rightarrow> ('a \<Rightarrow> 'b res) \<Rightarrow> 'b res" where
  "bind_res r f = (case r of Inl e \<Rightarrow> Inl e | Inr x \<Rightarrow> f x)"

lemma bind_res_simps [simp, res_simps]:
  "bind_res (Inl e) f = Inl e"
  "bind_res (Inr x) f = f x"
  by (simp_all add: bind_res_def)

lemma bind_res_Inr_iff:
  "bind_res r f = Inr y \<longleftrightarrow> (\<exists>x. r = Inr x \<and> f x = Inr y)"
  by (cases r) simp_all

lemma bind_res_InrE [elim!]:
  assumes "bind_res r f = Inr y"
  obtains x where "r = Inr x" "f x = Inr y"
  using assms by (auto simp: bind_res_Inr_iff)

lemma bind_res_cong [fundef_cong]:
  "r = r' \<Longrightarrow> (\<And>x. r' = Inr x \<Longrightarrow> f x = g x) \<Longrightarrow> bind_res r f = bind_res r' g"
  by (cases r') simp_all

text \<open>A \<open>for\<close> loop over a list whose body may crash.\<close>

fun fold_res :: "('a \<Rightarrow> 's \<Rightarrow> 's res) \<Rightarrow> 'a list \<Rightarrow> 's \<Rightarrow> 's res" where
  "fold_res f [] s = Inr s"
| "fold_res f (x # xs) s = bind_res (f x s) (fold_res f xs)"

lemma bind_fold_res_Nil [simp]: "bind_res r (fold_res f []) = r"
  by (cases r) simp_all

lemma fold_res_append: "fold_res f (xs @ ys) s = bind_res (fold_res f xs s) (fold_res f ys)"
  by (induction xs arbitrary: s) (auto simp: bind_res_def split: sum.splits)

lemma fold_res_invariant:
  assumes "fold_res f xs s = Inr t" and "P s"
    and "\<And>x s s'. x \<in> set xs \<Longrightarrow> P s \<Longrightarrow> f x s = Inr s' \<Longrightarrow> P s'"
  shows "P t"
  using assms by (induction xs arbitrary: s) auto

lemma fold_res_total:
  assumes "I s" and "\<And>x s. x \<in> set xs \<Longrightarrow> I s \<Longrightarrow> \<exists>s'. f x s = Inr s' \<and> I s'"
  shows "\<exists>t. fold_res f xs s = Inr t \<and> I t"
  using assms
proof (induction xs arbitrary: s)
  case Nil
  then show ?case by simp
next
  case (Cons x xs)
  then obtain s' where "f x s = Inr s'" "I s'"
    by (meson list.set_intros(1))
  with Cons show ?case by simp
qed

section \<open>Slices of a byte string\<close>

text \<open>\<open>xs[lo:hi]\<close>: Go panics unless \<open>lo \<le> hi \<le> len\<close>.\<close>

definition subslice :: "nat \<Rightarrow> nat \<Rightarrow> 'a list \<Rightarrow> 'a list res" where
  "subslice lo hi xs =
     (if lo \<le> hi \<and> hi \<le> length xs then Inr (take (hi - lo) (drop lo xs)) else Inl Panic)"

lemma subslice_append [simp]:
  "lo = length xs \<Longrightarrow> hi = length xs + length ys \<Longrightarrow> subslice lo hi (xs @ ys @ zs) = Inr ys"
  by (simp add: subslice_def)

lemma subslice_prefix [simp]:
  "hi = length xs \<Longrightarrow> subslice 0 hi (xs @ ys) = Inr xs"
  by (simp add: subslice_def)

lemma subslice_InrD:
  "subslice lo hi xs = Inr ys \<Longrightarrow> lo \<le> hi \<and> hi \<le> length xs \<and> length ys = hi - lo"
  by (auto simp: subslice_def split: if_splits)

section \<open>Big-endian integers\<close>

text \<open>\<open>binary.BigEndian.PutUint32/PutUint64\<close> and \<open>Uint32/Uint64\<close>, for any width.\<close>

definition put_be :: "nat \<Rightarrow> 'a::len word \<Rightarrow> byte list" where
  "put_be n x = map (\<lambda>i. ucast (drop_bit (8 * i) x)) (rev [0..<n])"

definition get_be :: "byte list \<Rightarrow> 'a::len word" where
  "get_be bs = foldl (\<lambda>a b. push_bit 8 a OR ucast b) 0 bs"

lemma length_put_be [simp, byte_simps]: "length (put_be n x) = n"
  by (simp add: put_be_def)

lemma put_be_Suc: "put_be (Suc n) x = ucast (drop_bit (8 * n) x) # put_be n x"
  by (simp add: put_be_def)

lemma put_be_0 [simp]: "put_be 0 x = []"
  by (simp add: put_be_def)

lemma get_put_be_acc:
  fixes a x :: "'a::len word"
  shows "foldl (\<lambda>a b. push_bit 8 a OR ucast b) a (put_be n x) =
    push_bit (8 * n) a OR take_bit (8 * n) x"
proof (induction n arbitrary: a)
  case 0
  show ?case by simp
next
  case (Suc n)
  have "push_bit (8 * n) (push_bit 8 a OR ucast (ucast (drop_bit (8 * n) x) :: byte))
      OR take_bit (8 * n) x = push_bit (8 * Suc n) a OR take_bit (8 * Suc n) x"
    by (rule bit_eqI) (auto simp: bit_simps ac_simps)
  with Suc show ?case by (simp add: put_be_Suc)
qed

lemma get_put_be:
  fixes x :: "'a::len word"
  assumes "LENGTH('a) \<le> 8 * n"
  shows "get_be (put_be n x) = x"
proof -
  have "take_bit (8 * n) x = x"
    by (rule bit_eqI) (use assms in \<open>auto simp: bit_simps dest: bit_imp_le_length\<close>)
  then show ?thesis by (simp add: get_be_def get_put_be_acc)
qed

lemma put_be_snoc: "put_be (Suc n) x = put_be n (drop_bit 8 x) @ [ucast x]"
proof (induction n)
  case 0
  show ?case by (simp add: put_be_Suc)
next
  case (Suc n)
  have "put_be (Suc (Suc n)) x = ucast (drop_bit (8 * Suc n) x) # put_be (Suc n) x"
    by (rule put_be_Suc)
  also have "\<dots> = (ucast (drop_bit (8 * n) (drop_bit 8 x)) # put_be n (drop_bit 8 x)) @ [ucast x]"
    by (simp add: Suc ac_simps)
  also have "\<dots> = put_be (Suc n) (drop_bit 8 x) @ [ucast x]"
    by (simp only: put_be_Suc)
  finally show ?case .
qed

lemma get_be_snoc: "get_be (bs @ [b]) = push_bit 8 (get_be bs) OR ucast b"
  by (simp add: get_be_def)

lemma get_be_bit_bound:
  "bit (get_be bs :: 'a::len word) i \<Longrightarrow> i < 8 * length bs"
proof (induction bs arbitrary: i rule: rev_induct)
  case Nil
  then show ?case by (simp add: get_be_def)
next
  case (snoc b bs)
  then show ?case
    by (fastforce simp: get_be_snoc bit_simps dest: bit_imp_le_length)
qed

lemma put_get_be:
  assumes "8 * length bs \<le> LENGTH('a::len)"
  shows "put_be (length bs) (get_be bs :: 'a word) = bs"
  using assms
proof (induction bs rule: rev_induct)
  case Nil
  show ?case by simp
next
  case (snoc b bs)
  have "drop_bit 8 (get_be (bs @ [b]) :: 'a word) = get_be bs"
    by (rule bit_eqI)
      (use snoc.prems in \<open>auto simp: get_be_snoc bit_simps dest: bit_imp_le_length get_be_bit_bound\<close>)
  moreover have "ucast (get_be (bs @ [b]) :: 'a word) = b"
    by (rule bit_eqI)
      (use snoc.prems in \<open>auto simp: get_be_snoc bit_simps dest: bit_imp_le_length\<close>)
  ultimately show ?case
    using snoc by (simp add: put_be_snoc)
qed

section \<open>Go maps as association lists\<close>

text \<open>Reading a missing key gives the zero value.\<close>

definition get_or :: "'v \<Rightarrow> ('k \<times> 'v) list \<Rightarrow> 'k \<Rightarrow> 'v" where
  "get_or z m k = (case map_of m k of None \<Rightarrow> z | Some v \<Rightarrow> v)"

lemma get_or_update [simp]:
  "get_or z (AList.update k v m) k' = (if k' = k then v else get_or z m k')"
  by (simp add: get_or_def AList.update_conv')

lemma update_new: "k \<notin> fst ` set m \<Longrightarrow> AList.update k v m = m @ [(k, v)]"
  by (induction m) auto

lemma set_update_subset: "set (AList.update k v m) \<subseteq> insert (k, v) (set m)"
  by (induction m) auto

lemma distinct_keys_filter:
  "distinct (map fst m) \<Longrightarrow> distinct (map fst (filter P m))"
  by (rule distinct_map_filter)

lemma set_delete_subset: "set (AList.delete k m) \<subseteq> set m"
  by (auto simp: AList.delete_eq)

lemma get_or_Nil [simp]: "get_or z [] k = z"
  by (simp add: get_or_def)

section \<open>Iteration over Go maps\<close>

text \<open>
  \<open>range\<close> over a map visits the entries in an unspecified order. An order is a function
  that gives, for every size, the sequence of positions visited; \<open>valid_order\<close> says that
  every position is visited once.
\<close>

type_synonym order = "nat \<Rightarrow> nat list"

definition valid_order :: "order \<Rightarrow> bool" where
  "valid_order ord \<longleftrightarrow> (\<forall>n. mset (ord n) = mset [0..<n])"

definition go_range :: "order \<Rightarrow> 'a list \<Rightarrow> 'a list" where
  "go_range ord xs = map (\<lambda>i. xs ! i) (ord (length xs))"

lemma mset_go_range:
  assumes "valid_order ord"
  shows "mset (go_range ord xs) = mset xs"
proof -
  have "mset (go_range ord xs) = image_mset (\<lambda>i. xs ! i) (mset (ord (length xs)))"
    by (simp add: go_range_def)
  also have "\<dots> = image_mset (\<lambda>i. xs ! i) (mset [0..<length xs])"
    using assms by (simp add: valid_order_def)
  also have "\<dots> = mset (map (\<lambda>i. xs ! i) [0..<length xs])"
    by (simp only: mset_map)
  finally show ?thesis by (simp only: map_nth)
qed

lemma set_go_range: "valid_order ord \<Longrightarrow> set (go_range ord xs) = set xs"
  by (metis mset_go_range mset_eq_setD)

lemma length_go_range: "valid_order ord \<Longrightarrow> length (go_range ord xs) = length xs"
  by (metis mset_go_range mset_eq_length)

text \<open>The order in which entries were inserted.\<close>

definition in_order :: order where
  "in_order n = [0..<n]"

lemma valid_in_order [simp]: "valid_order in_order"
  by (simp add: valid_order_def in_order_def)

lemma go_range_in_order [simp]: "go_range in_order xs = xs"
  by (simp add: go_range_def in_order_def map_nth)

end
