(* ===== verification/Codec.thy ===== *)
theory Codec
  imports Prelude
begin

text \<open>
  \<open>src/dbnode/coordinator.go\<close>: the encoding of a Lamport timestamp and a value as one
  stored byte string, the timestamp in the first eight bytes, big-endian.
\<close>

definition encodeTimestampVal :: "64 word \<Rightarrow> bytes \<Rightarrow> bytes" where
  "encodeTimestampVal ts v = Some (put_be 8 ts @ raw v)"

definition decodeTimestampVal :: "bytes \<Rightarrow> (64 word \<times> bytes) res" where
  "decodeTimestampVal encoded =
     (if length (raw encoded) = 0 then Inr (0, None)
      else if length (raw encoded) < 8 then Inl Fatal
      else Inr (get_be (take 8 (raw encoded)), Some (drop 8 (raw encoded))))"

lemma encode_raw [byte_simps]: "raw (encodeTimestampVal ts v) = put_be 8 ts @ raw v"
  by (simp add: encodeTimestampVal_def)

lemma encode_length [byte_simps]: "length (raw (encodeTimestampVal ts v)) = 8 + length (raw v)"
  by (simp add: encode_raw)

lemma decode_raw_cong:
  "raw a = raw b \<Longrightarrow> decodeTimestampVal a = decodeTimestampVal b"
  by (simp add: decodeTimestampVal_def)

lemma decode_None [simp]: "decodeTimestampVal None = Inr (0, None)"
  by (simp add: decodeTimestampVal_def)

lemma decode_encode [simp]:
  "decodeTimestampVal (encodeTimestampVal ts v) = Inr (ts, Some (raw v))"
  by (simp add: decodeTimestampVal_def encodeTimestampVal_def get_put_be)

lemma decode_of_raw_encode:
  "raw x = raw (encodeTimestampVal ts v) \<Longrightarrow> decodeTimestampVal x = Inr (ts, Some (raw v))"
  using decode_encode decode_raw_cong by metis

lemma encode_decode:
  assumes "decodeTimestampVal x = Inr (ts, v)" and "raw x \<noteq> []"
  shows "raw (encodeTimestampVal ts v) = raw x"
proof -
  have len: "8 \<le> length (raw x)" and ts: "ts = get_be (take 8 (raw x))"
    and v: "v = Some (drop 8 (raw x))"
    using assms by (auto simp: decodeTimestampVal_def split: if_splits)
  have "put_be (length (take 8 (raw x))) (get_be (take 8 (raw x)) :: 64 word) = take 8 (raw x)"
    by (rule put_get_be) (use len in simp)
  with len show ?thesis by (simp add: ts v encode_raw)
qed

text \<open>A byte string the decoder accepts: empty, or with a full timestamp.\<close>

definition decodable :: "bytes \<Rightarrow> bool" where
  "decodable x \<longleftrightarrow> raw x = [] \<or> 8 \<le> length (raw x)"

lemma decodable_iff: "decodable x \<longleftrightarrow> (\<exists>ts v. decodeTimestampVal x = Inr (ts, v))"
  by (auto simp: decodable_def decodeTimestampVal_def)

lemma decodable_encode [simp]: "decodable (encodeTimestampVal ts v)"
  by (simp add: decodable_def encode_length)

lemma decodable_None [simp]: "decodable None"
  by (simp add: decodable_def)

lemma not_decodable_fatal: "\<not> decodable x \<Longrightarrow> decodeTimestampVal x = Inl Fatal"
  by (simp add: decodable_def decodeTimestampVal_def)

end
