(* ===== verification/Store_Spec.thy ===== *)
theory Store_Spec
  imports Prelude
begin

text \<open>
  \<open>src/datastore/store.go\<close>: what a \<open>Store\<close> promises, as a contract over an abstraction
  \<open>content\<close>, the committed byte string of every key (empty where there is none: callers of
  \<open>Get\<close> only look at its length and bytes). \<open>Put\<close> stages a write under a non-zero id,
  \<open>Commit\<close> makes it visible, \<open>Rollback\<close> drops it; only \<open>Commit\<close> changes \<open>content\<close>.
  \<open>fits\<close> is what a provider asks of the sizes of a key and a value.
\<close>

locale kv_store =
  fixes Get :: "'s \<Rightarrow> bytes \<Rightarrow> (bytes \<times> bool) res"
    and Put :: "'s \<Rightarrow> bytes \<Rightarrow> bytes \<Rightarrow> ('s \<times> 64 word) res"
    and Commit :: "'s \<Rightarrow> bytes \<Rightarrow> 64 word \<Rightarrow> 's \<times> bool"
    and Rollback :: "'s \<Rightarrow> 64 word \<Rightarrow> 's"
    and content :: "'s \<Rightarrow> byte list \<Rightarrow> byte list"
    and invar :: "'s \<Rightarrow> bool"
    and fits :: "bytes \<Rightarrow> bytes \<Rightarrow> bool"
  assumes Get_content: "invar s \<Longrightarrow> \<exists>v. Get s k = Inr (v, False) \<and> raw v = content s (raw k)"
    and Put_total: "invar s \<Longrightarrow> fits k v \<Longrightarrow> \<exists>s' i. Put s k v = Inr (s', i)"
    and Put_id: "invar s \<Longrightarrow> fits k v \<Longrightarrow> Put s k v = Inr (s', i) \<Longrightarrow> i \<noteq> 0"
    and Put_content: "invar s \<Longrightarrow> Put s k v = Inr (s', i) \<Longrightarrow> invar s' \<and> content s' = content s"
    and Put_Commit: "invar s \<Longrightarrow> fits k v \<Longrightarrow> Put s k v = Inr (s', i) \<Longrightarrow>
       \<exists>s''. Commit s' k i = (s'', True) \<and> invar s'' \<and>
         content s'' = (content s)(raw k := raw v)"
    and Rollback_content: "invar s \<Longrightarrow> invar (Rollback s i) \<and> content (Rollback s i) = content s"
begin

text \<open>A put that is committed at once, as every unlocked write of the program does.\<close>

lemma write_content:
  assumes "invar s" "fits k v" "Put s k v = Inr (s', i)" "Commit s' k i = (s'', ok)"
  shows "ok" and "invar s''" and "content s'' = (content s)(raw k := raw v)"
  using Put_Commit [OF assms(1-3)] assms(4) by auto

lemma Get_after_write:
  assumes "invar s" "fits k v" "Put s k v = Inr (s', i)" "Commit s' k i = (s'', ok)"
  shows "\<exists>x. Get s'' k' = Inr (x, False) \<and>
    raw x = (if raw k' = raw k then raw v else content s (raw k'))"
proof -
  obtain x where "Get s'' k' = Inr (x, False)" "raw x = content s'' (raw k')"
    using Get_content [OF write_content(2) [OF assms]] by blast
  then show ?thesis
    using write_content(3) [OF assms] by auto
qed

lemma Get_staged:
  assumes "invar s" "fits k v" "Put s k v = Inr (s', i)"
  shows "\<exists>x. Get s' k' = Inr (x, False) \<and> raw x = content s (raw k')"
  using Put_content [OF assms(1,3)] Get_content [of s' k'] by auto

lemma Get_rolled_back:
  assumes "invar s" "fits k v" "Put s k v = Inr (s', i)"
  shows "\<exists>x. Get (Rollback s' i) k' = Inr (x, False) \<and> raw x = content s (raw k')"
  using Put_content [OF assms(1,3)] Rollback_content [of s' i] Get_content [of "Rollback s' i" k']
  by auto

end

text \<open>
  A store that also keeps staged writes apart from each other: a transaction stays staged
  whatever other ids do, so a vote to commit it can be honoured later.
\<close>

locale staged_store = kv_store +
  fixes staged :: "'s \<Rightarrow> 64 word \<Rightarrow> (bytes \<times> bytes) option"
  assumes Put_staged: "invar s \<Longrightarrow> Put s k v = Inr (s', i) \<Longrightarrow> staged s' = (staged s)(i \<mapsto> (k, v))"
    and Commit_staged: "invar s \<Longrightarrow> staged s i = Some (k, v) \<Longrightarrow>
       \<exists>s'. Commit s k i = (s', True) \<and> invar s' \<and> content s' = (content s)(raw k := raw v) \<and>
         staged s' = (staged s)(i := None)"
    and Rollback_staged: "invar s \<Longrightarrow> staged (Rollback s i) = (staged s)(i := None)"
begin

lemma staged_survives_write:
  assumes "invar s" "fits k' v'" "staged s i = Some (k, v)"
    and "Put s k' v' = Inr (s', j)" "j \<noteq> i" "Commit s' k' j = (s'', ok)"
  shows "invar s'' \<and> staged s'' i = Some (k, v)"
proof -
  have s': "invar s'" "staged s' = (staged s)(j \<mapsto> (k', v'))"
    using Put_content [OF assms(1,4)] Put_staged [OF assms(1,4)] by auto
  then obtain s3 where "Commit s' k' j = (s3, True)" "invar s3" "staged s3 = (staged s')(j := None)"
    using Commit_staged [of s' j k' v'] by auto
  with assms(3,5,6) s' show ?thesis by auto
qed

text \<open>
  The staged write, once committed, replaces whatever was written to its key in between.
\<close>

lemma late_commit_overwrites:
  assumes "invar s" "fits k v'" "staged s i = Some (k, v)"
    and "Put s k v' = Inr (s', j)" "j \<noteq> i" "Commit s' k j = (s'', ok)"
  shows "\<exists>t. Commit s'' k i = (t, True) \<and> content t (raw k) = raw v"
proof -
  have "invar s''" "staged s'' i = Some (k, v)"
    using staged_survives_write [OF assms] by auto
  then show ?thesis using Commit_staged by fastforce
qed

end

end
