(* ===== verification/Strconv.thy ===== *)
theory Strconv
  imports Prelude
begin

text \<open>
  The parts of Go's \<open>strconv\<close> the program uses: \<open>Itoa\<close> (ids inside the election token,
  lock owners, names of transaction files) and \<open>Atoi\<close>. Strings are byte lists.
\<close>

section \<open>Printing\<close>

fun nat_digits :: "nat \<Rightarrow> byte list" where
  "nat_digits n = (if n < 10 then [48 + of_nat n]
     else nat_digits (n div 10) @ [48 + of_nat (n mod 10)])"

declare nat_digits.simps [simp del]

definition itoa :: "int \<Rightarrow> byte list" where
  "itoa x = (if x < 0 then 45 # nat_digits (nat (- x)) else nat_digits (nat x))"

section \<open>Parsing\<close>

definition is_digit :: "byte \<Rightarrow> bool" where
  "is_digit c \<longleftrightarrow> 48 \<le> c \<and> c \<le> 57"

definition digits_val :: "byte list \<Rightarrow> nat" where
  "digits_val ds = foldl (\<lambda>a d. 10 * a + (unat d - 48)) 0 ds"

text \<open>
  \<open>Atoi\<close> returns a value and whether there was no error: 0 on a syntax error, the nearest
  64-bit integer on a range error.
\<close>

definition in_int64 :: "int \<Rightarrow> bool" where
  "in_int64 x \<longleftrightarrow> - (2 ^ 63) \<le> x \<and> x < 2 ^ 63"

definition int64_result :: "int \<Rightarrow> int \<times> bool" where
  "int64_result v =
     (if in_int64 v then (v, True) else if v < 0 then (- (2 ^ 63), False) else (2 ^ 63 - 1, False))"

definition unsigned_atoi :: "bool \<Rightarrow> byte list \<Rightarrow> int \<times> bool" where
  "unsigned_atoi neg ds =
     (if ds = [] \<or> \<not> list_all is_digit ds then (0, False)
      else int64_result (if neg then - int (digits_val ds) else int (digits_val ds)))"

definition atoi :: "byte list \<Rightarrow> int \<times> bool" where
  "atoi bs =
     (case bs of
        [] \<Rightarrow> (0, False)
      | c # cs \<Rightarrow> if c = 45 then unsigned_atoi True cs
          else if c = 43 then unsigned_atoi False cs
          else unsigned_atoi False bs)"

section \<open>Round trip\<close>

lemma digit_byte:
  assumes "k < 10"
  shows "unat (48 + of_nat k :: byte) = 48 + k" and "is_digit (48 + of_nat k)"
proof -
  have u: "unat (of_nat k :: byte) = k"
    using assms by (simp add: unat_of_nat)
  show "unat (48 + of_nat k :: byte) = 48 + k"
    using assms u by (subst unat_add_lem [THEN iffD1]) auto
  then show "is_digit (48 + of_nat k)"
    using assms by (simp add: is_digit_def word_le_nat_alt)
qed

lemma nat_digits_nonempty [simp]: "nat_digits n \<noteq> []"
  by (subst nat_digits.simps) simp

lemma nat_digits_all: "list_all is_digit (nat_digits n)"
proof (induction n rule: nat_digits.induct)
  case (1 n)
  then show ?case
    by (subst nat_digits.simps) (auto simp: digit_byte)
qed

lemma digits_val_snoc: "digits_val (ds @ [d]) = 10 * digits_val ds + (unat d - 48)"
  by (simp add: digits_val_def)

lemma digits_val_nat_digits: "digits_val (nat_digits n) = n"
proof (induction n rule: nat_digits.induct)
  case (1 n)
  show ?case
  proof (cases "n < 10")
    case True
    then show ?thesis
      by (subst nat_digits.simps) (simp add: digits_val_def digit_byte)
  next
    case False
    then have "digits_val (nat_digits n) = 10 * (n div 10) + n mod 10"
      using 1 by (subst nat_digits.simps) (simp add: digits_val_snoc digit_byte)
    then show ?thesis by simp
  qed
qed

lemma atoi_unsigned:
  assumes "list_all is_digit ds" and "ds \<noteq> []"
  shows "atoi ds = int64_result (int (digits_val ds))"
proof -
  obtain c cs where ds: "ds = c # cs" using assms(2) by (cases ds) auto
  with assms(1) have "c \<noteq> 45" "c \<noteq> 43" by (auto simp: is_digit_def)
  with assms show ?thesis by (simp add: atoi_def ds unsigned_atoi_def)
qed

lemma atoi_negative:
  assumes "list_all is_digit ds" and "ds \<noteq> []"
  shows "atoi (45 # ds) = int64_result (- int (digits_val ds))"
  using assms by (simp add: atoi_def unsigned_atoi_def)

lemma atoi_itoa:
  assumes "in_int64 x"
  shows "atoi (itoa x) = (x, True)"
proof (cases "x < 0")
  case True
  with assms show ?thesis
    using atoi_negative [of "nat_digits (nat (- x))"]
    by (simp add: itoa_def int64_result_def nat_digits_all digits_val_nat_digits)
next
  case False
  with assms show ?thesis
    using atoi_unsigned [of "nat_digits (nat x)"]
    by (simp add: itoa_def int64_result_def nat_digits_all digits_val_nat_digits)
qed

lemma itoa_inj:
  assumes "itoa x = itoa y" and "in_int64 x" and "in_int64 y"
  shows "x = y"
  by (metis assms atoi_itoa fst_conv)

end
