(* ===== verification/Memstore.thy ===== *)
theory Memstore
  imports Store_Spec
begin

text \<open>
  \<open>src/datastore/memory.go\<close>: the in-memory store, a trie over the bytes of the key with a
  table of uncommitted pairs at its root. A Go \<open>memstore\<close> serves as root and as inner node;
  inner nodes use only \<open>value\<close> and \<open>children\<close>, so they are \<open>trie\<close> and the root is the
  record. The timers that simulate disk latency are not modelled.
\<close>

section \<open>State\<close>

datatype trie = Node (tvalue: bytes) (children: "byte \<Rightarrow> trie option")

record pair =
  pkey :: bytes
  pvalue :: bytes

record memstore =
  root :: trie
  uncommitted :: "64 word \<Rightarrow> pair option"
  txid :: "64 word"

text \<open>The in-memory branch of \<open>datastore.New\<close>.\<close>

definition empty_trie :: trie where
  "empty_trie = Node None (\<lambda>_. None)"

definition new_memstore :: memstore where
  "new_memstore = \<lparr>root = empty_trie, uncommitted = (\<lambda>_. None), txid = 0\<rparr>"

section \<open>Operations\<close>

fun trie_get :: "trie \<Rightarrow> byte list \<Rightarrow> bytes" where
  "trie_get (Node v ch) [] = v"
| "trie_get (Node v ch) (b # bs) = (case ch b of Some t \<Rightarrow> trie_get t bs | None \<Rightarrow> None)"

definition memstore_Get :: "memstore \<Rightarrow> bytes \<Rightarrow> bytes \<times> bool" where
  "memstore_Get s key = (trie_get (root s) (raw key), False)"

text \<open>\<open>store.txid++\<close> on a 64-bit integer, skipping 0.\<close>

definition next_txid :: "64 word \<Rightarrow> 64 word" where
  "next_txid t = (if t + 1 = 0 then t + 1 + 1 else t + 1)"

definition memstore_Put :: "memstore \<Rightarrow> bytes \<Rightarrow> bytes \<Rightarrow> memstore \<times> 64 word" where
  "memstore_Put s key val =
     (let t = next_txid (txid s)
      in (s\<lparr>txid := t, uncommitted := (uncommitted s)(t \<mapsto> \<lparr>pkey = key, pvalue = val\<rparr>)\<rparr>, t))"

fun trie_insert :: "byte list \<Rightarrow> bytes \<Rightarrow> trie \<Rightarrow> trie" where
  "trie_insert [] val (Node v ch) = Node val ch"
| "trie_insert (b # bs) val (Node v ch) =
     (let child = (case ch b of None \<Rightarrow> empty_trie | Some t \<Rightarrow> t)
      in Node v (ch(b \<mapsto> trie_insert bs val child)))"

text \<open>Reading a missing entry of \<open>uncommitted\<close> gives the zero pair, with a nil key.\<close>

definition memstore_Commit :: "memstore \<Rightarrow> bytes \<Rightarrow> 64 word \<Rightarrow> memstore \<times> bool" where
  "memstore_Commit s key i =
     (let p = (case uncommitted s i of None \<Rightarrow> \<lparr>pkey = None, pvalue = None\<rparr> | Some p \<Rightarrow> p)
      in if \<not> bytes_Equal (pkey p) key then (s, False)
         else (s\<lparr>root := trie_insert (raw key) (pvalue p) (root s),
                 uncommitted := (uncommitted s)(i := None)\<rparr>, True))"

definition memstore_Rollback :: "memstore \<Rightarrow> 64 word \<Rightarrow> memstore" where
  "memstore_Rollback s i = s\<lparr>uncommitted := (uncommitted s)(i := None)\<rparr>"

section \<open>The trie is a map\<close>

lemma trie_get_empty [simp]: "trie_get empty_trie k = None"
  by (cases k) (simp_all add: empty_trie_def)

lemma trie_get_insert:
  "trie_get (trie_insert k val t) k' = (if k' = k then val else trie_get t k')"
proof (induction k val t arbitrary: k' rule: trie_insert.induct)
  case (1 val v ch)
  then show ?case by (cases k') simp_all
next
  case (2 b bs val v ch)
  then show ?case
    by (cases k') (auto simp: Let_def split: option.splits)
qed

definition mem_content :: "memstore \<Rightarrow> byte list \<Rightarrow> byte list" where
  "mem_content s k = raw (trie_get (root s) k)"

definition mem_staged :: "memstore \<Rightarrow> 64 word \<Rightarrow> (bytes \<times> bytes) option" where
  "mem_staged s i = map_option (\<lambda>p. (pkey p, pvalue p)) (uncommitted s i)"

lemma next_txid_nonzero [simp]: "next_txid t \<noteq> 0"
  by (simp add: next_txid_def)

lemma mem_content_insert:
  "mem_content (s\<lparr>root := trie_insert k v (root s)\<rparr>) = (mem_content s)(k := raw v)"
  by (auto simp: mem_content_def trie_get_insert)

lemma mem_content_frame [simp]:
  "mem_content (s\<lparr>uncommitted := u\<rparr>) = mem_content s"
  "mem_content (s\<lparr>txid := t\<rparr>) = mem_content s"
  "mem_content (s\<lparr>txid := t, uncommitted := u\<rparr>) = mem_content s"
  by (auto simp: mem_content_def)

lemma mem_content_new [simp]: "mem_content new_memstore = (\<lambda>_. [])"
  by (simp add: mem_content_def new_memstore_def fun_eq_iff)

lemma memstore_Get_content: "raw (fst (memstore_Get s k)) = mem_content s (raw k)"
  by (simp add: memstore_Get_def mem_content_def)

lemma memstore_Commit_staged:
  assumes "mem_staged s i = Some (k, v)"
  shows "memstore_Commit s k i =
    (s\<lparr>root := trie_insert (raw k) v (root s), uncommitted := (uncommitted s)(i := None)\<rparr>, True)"
  using assms by (auto simp: mem_staged_def memstore_Commit_def)

lemma memstore_Put_staged: "mem_staged (fst (memstore_Put s k v)) = (mem_staged s)(next_txid (txid s) \<mapsto> (k, v))"
  by (auto simp: mem_staged_def memstore_Put_def Let_def)

section \<open>The contract\<close>

interpretation mem: staged_store
  "\<lambda>s k. Inr (memstore_Get s k)" "\<lambda>s k v. Inr (memstore_Put s k v)"
  memstore_Commit memstore_Rollback mem_content "\<lambda>_. True" "\<lambda>_ _. True" mem_staged
proof unfold_locales
  fix s k v s' i
  assume p: "(Inr (memstore_Put s k v) :: (memstore \<times> 64 word) res) = Inr (s', i)"
  then show "i \<noteq> 0" by (auto simp: memstore_Put_def Let_def)
  from p show "True \<and> mem_content s' = mem_content s"
    by (auto simp: memstore_Put_def Let_def)
  from p show "mem_staged s' = (mem_staged s)(i \<mapsto> (k, v))"
    using memstore_Put_staged [of s k v] by (auto simp: memstore_Put_def Let_def)
  from p have "mem_staged s' i = Some (k, v)" "mem_content s' = mem_content s"
    using memstore_Put_staged [of s k v] by (auto simp: memstore_Put_def Let_def)
  then show "\<exists>s''. memstore_Commit s' k i = (s'', True) \<and> True \<and>
      mem_content s'' = (mem_content s)(raw k := raw v)"
    by (auto simp: memstore_Commit_staged mem_content_insert)
next
  fix s i k v
  assume "mem_staged s i = Some (k, v)"
  then show "\<exists>s'. memstore_Commit s k i = (s', True) \<and> True \<and>
      mem_content s' = (mem_content s)(raw k := raw v) \<and> mem_staged s' = (mem_staged s)(i := None)"
    by (auto simp: memstore_Commit_staged mem_content_insert) (auto simp: mem_staged_def)
qed (auto simp: memstore_Get_def mem_content_def memstore_Rollback_def mem_staged_def)

end
