(* ===== verification/Persistent.thy ===== *)
theory Persistent
  imports Store_Spec Strconv Memstore
begin

text \<open>
  \<open>src/datastore/persistent.go\<close>: the on-disk store, a hash map of page files. The data
  directory is a map from file names to contents; the MD5 function is the field \<open>md5\<close>, any
  function on byte strings (collisions included), which no operation changes. Every system
  call that can fail takes its outcome from an \<open>iofault\<close> argument.
\<close>

section \<open>State and faults\<close>

record persistentstore =
  ptxid :: "64 word"
  files :: "byte list \<Rightarrow> byte list option"
  md5 :: "byte list \<Rightarrow> byte list"

text \<open>
  \<open>write_fails io k = Some n\<close>: the \<open>k\<close>-th \<open>Write\<close> of the call fails after \<open>n\<close> bytes.
\<close>

record iofault =
  read_fails :: bool
  create_fails :: bool
  write_fails :: "nat \<Rightarrow> nat option"
  rename_fails :: bool
  remove_fails :: bool

definition no_fault :: iofault where
  "no_fault = \<lparr>read_fails = False, create_fails = False, write_fails = (\<lambda>_. None),
     rename_fails = False, remove_fails = False\<rparr>"

definition new_persistentstore :: "(byte list \<Rightarrow> byte list) \<Rightarrow> persistentstore" where
  "new_persistentstore h = \<lparr>ptxid = 0, files = (\<lambda>_. None), md5 = h\<rparr>"

section \<open>File names\<close>

definition hex_digit :: "byte \<Rightarrow> byte" where
  "hex_digit d = (if d < 10 then 48 + d else 87 + d)"

definition hex_EncodeToString :: "byte list \<Rightarrow> byte list" where
  "hex_EncodeToString bs = concat (map (\<lambda>b. [hex_digit (drop_bit 4 b), hex_digit (b AND 15)]) bs)"

definition page_name :: "persistentstore \<Rightarrow> byte list \<Rightarrow> byte list" where
  "page_name s key = hex_EncodeToString (md5 s key)"

definition tx_name :: "64 word \<Rightarrow> byte list" where
  "tx_name i = [116, 120] @ itoa (sint i)"

section \<open>Get\<close>

text \<open>
  The loop of \<open>Get\<close> over the records of a page. Offsets are computed as \<open>uint32\<close>, so
  \<open>keyLen + 4\<close> wraps.
\<close>

function scan_page :: "byte list \<Rightarrow> byte list \<Rightarrow> bytes res" where
  "scan_page key data =
     (if data = [] then Inr None
      else bind_res (subslice 0 4 data) (\<lambda>kl.
        let keyEnd = unat (get_be kl + 4 :: 32 word)
        in bind_res (subslice 4 keyEnd data) (\<lambda>k.
          let data1 = drop keyEnd data
          in bind_res (subslice 0 4 data1) (\<lambda>vl.
            let valEnd = unat (get_be vl + 4 :: 32 word)
            in if k = key then bind_res (subslice 4 valEnd data1) (\<lambda>v. Inr (Some v))
               else if valEnd \<le> length data1 then scan_page key (drop valEnd data1)
               else Inl Panic))))"
  by pat_completeness auto
termination
  by (relation "measure (\<lambda>(key, data). length data)") (auto dest!: subslice_InrD)

declare scan_page.simps [simp del]

text \<open>The result is the value and whether the error return is non-nil.\<close>

definition persistent_Get :: "iofault \<Rightarrow> persistentstore \<Rightarrow> bytes \<Rightarrow> (bytes \<times> bool) res" where
  "persistent_Get io s key =
     (case files s (page_name s (raw key)) of
        None \<Rightarrow> Inr (None, False)
      | Some data \<Rightarrow>
          if read_fails io then Inr (None, True)
          else bind_res (scan_page (raw key) data) (\<lambda>v. Inr (v, False)))"

section \<open>Put\<close>

record pagewriter =
  page :: "byte list"
  writes :: nat

text \<open>One \<open>newPage.Write(bs)\<close>: the file afterwards and whether \<open>e == nil\<close>.\<close>

definition write_page :: "iofault \<Rightarrow> byte list \<Rightarrow> pagewriter \<Rightarrow> pagewriter \<times> bool" where
  "write_page io bs w =
     (case write_fails io (writes w) of
        None \<Rightarrow> (\<lparr>page = page w @ bs, writes = Suc (writes w)\<rparr>, True)
      | Some n \<Rightarrow> (\<lparr>page = page w @ take n bs, writes = Suc (writes w)\<rparr>, False))"

definition u32_field :: "byte list \<Rightarrow> byte list" where
  "u32_field xs = put_be 4 (of_nat (length xs) :: 32 word) @ xs"

text \<open>
  The copy loop of \<open>Put\<close>. The result is the new page, \<open>written\<close>, and whether the loop
  ended without one of the error returns. The outcome of copying an old value is dropped,
  as in the source.
\<close>

function copy_page ::
  "iofault \<Rightarrow> byte list \<Rightarrow> byte list \<Rightarrow> byte list \<Rightarrow> pagewriter \<Rightarrow> bool \<Rightarrow>
   (pagewriter \<times> bool \<times> bool) res" where
  "copy_page io key val oldPage w written =
     (if oldPage = [] then Inr (w, written, True)
      else bind_res (subslice 0 4 oldPage) (\<lambda>kl.
        let keyEnd = unat (get_be kl + 4 :: 32 word)
        in bind_res (subslice 4 keyEnd oldPage) (\<lambda>k.
          let (w1, ok1) = write_page io (take keyEnd oldPage) w
          in if \<not> ok1 then Inr (w1, written, False)
             else
               let rest = drop keyEnd oldPage
               in bind_res (subslice 0 4 rest) (\<lambda>vl.
                 let valEnd = unat (get_be vl + 4 :: 32 word)
                 in if k = key
                    then let (w2, ok2) = write_page io (u32_field val) w1
                         in if \<not> ok2 then Inr (w2, written, False)
                            else if valEnd \<le> length rest
                            then copy_page io key val (drop valEnd rest) w2 True
                            else Inl Panic
                    else if valEnd \<le> length rest
                    then let (w2, ok2) = write_page io (take valEnd rest) w1
                         in copy_page io key val (drop valEnd rest) w2 written
                    else Inl Panic))))"
  by pat_completeness auto
termination
  by (relation "measure (\<lambda>(io, key, val, oldPage, w, written). length oldPage)")
    (auto dest!: subslice_InrD)

declare copy_page.simps [simp del]

definition putNew :: "iofault \<Rightarrow> persistentstore \<Rightarrow> byte list \<Rightarrow> byte list \<Rightarrow> persistentstore \<times> 64 word" where
  "putNew io s key val =
     (if create_fails io then (s, 0)
      else let (w, ok) = write_page io (u32_field key @ u32_field val) \<lparr>page = [], writes = 0\<rparr>
           in (s\<lparr>files := (files s)(tx_name (ptxid s) \<mapsto> page w)\<rparr>, if ok then ptxid s else 0))"

definition persistent_Put ::
  "iofault \<Rightarrow> persistentstore \<Rightarrow> bytes \<Rightarrow> bytes \<Rightarrow> (persistentstore \<times> 64 word) res" where
  "persistent_Put io s key val =
     (let s1 = s\<lparr>ptxid := next_txid (ptxid s)\<rparr>;
          tx = tx_name (ptxid s1)
      in case files s1 (page_name s1 (raw key)) of
           None \<Rightarrow> Inr (putNew io s1 (raw key) (raw val))
         | Some oldPage \<Rightarrow>
             if read_fails io then Inr (s1, 0)
             else if create_fails io then Inr (s1, 0)
             else bind_res (copy_page io (raw key) (raw val) oldPage \<lparr>page = [], writes = 0\<rparr> False)
               (\<lambda>(w, written, ok).
                 if \<not> ok then Inr (s1\<lparr>files := (files s1)(tx \<mapsto> page w)\<rparr>, 0)
                 else if \<not> written
                 then let (w1, ok1) = write_page io (u32_field (raw key) @ u32_field (raw val)) w
                      in Inr (s1\<lparr>files := (files s1)(tx \<mapsto> page w1)\<rparr>, if ok1 then ptxid s1 else 0)
                 else Inr (s1\<lparr>files := (files s1)(tx \<mapsto> page w)\<rparr>, ptxid s1)))"

section \<open>Commit, rollback, deletion\<close>

definition persistent_Commit :: "iofault \<Rightarrow> persistentstore \<Rightarrow> bytes \<Rightarrow> 64 word \<Rightarrow> persistentstore \<times> bool" where
  "persistent_Commit io s key i =
     (case files s (tx_name i) of
        None \<Rightarrow> (s, False)
      | Some data \<Rightarrow>
          if rename_fails io then (s, False)
          else (s\<lparr>files := ((files s)(tx_name i := None))(page_name s (raw key) \<mapsto> data)\<rparr>, True))"

definition persistent_Rollback :: "iofault \<Rightarrow> persistentstore \<Rightarrow> 64 word \<Rightarrow> persistentstore" where
  "persistent_Rollback io s i =
     (if remove_fails io then s else s\<lparr>files := (files s)(tx_name i := None)\<rparr>)"

definition persistent_DeleteStore :: "persistentstore \<Rightarrow> persistentstore" where
  "persistent_DeleteStore s = s\<lparr>files := (\<lambda>_. None)\<rparr>"

end
