(* ===== verification/Page_Format.thy ===== *)
theory Page_Format
  imports Persistent
begin

text \<open>
  The page files of the on-disk store: \<open>(key_length key val_length val)*\<close> as an association
  list, the reader and the writer of \<open>Persistent\<close> proved against it, and the store contract
  for every hash function.
\<close>

section \<open>The page format\<close>

definition print_page :: "(byte list \<times> byte list) list \<Rightarrow> byte list" where
  "print_page recs = concat (map (\<lambda>(k, v). u32_field k @ u32_field v) recs)"

text \<open>A field whose end offset is a \<open>uint32\<close>.\<close>

definition small :: "byte list \<Rightarrow> bool" where
  "small xs \<longleftrightarrow> length xs + 4 < 2 ^ 32"

definition page_ok :: "(byte list \<times> byte list) list \<Rightarrow> bool" where
  "page_ok recs \<longleftrightarrow> distinct (map fst recs) \<and> (\<forall>(k, v) \<in> set recs. small k \<and> small v)"

lemma print_page_simps [simp]:
  "print_page [] = []"
  "print_page ((k, v) # recs) = u32_field k @ u32_field v @ print_page recs"
  by (simp_all add: print_page_def)

lemma print_page_append: "print_page (xs @ ys) = print_page xs @ print_page ys"
  by (simp add: print_page_def)

lemma length_u32_field [simp]: "length (u32_field xs) = length xs + 4"
  by (simp add: u32_field_def)

lemma u32_field_nonempty [simp]: "u32_field xs \<noteq> []"
  by (metis length_u32_field list.size(3) add_is_0 zero_neq_numeral)

lemma u32_field_end:
  assumes "small xs"
  shows "unat (get_be (put_be 4 (of_nat (length xs) :: 32 word)) + 4 :: 32 word) = length xs + 4"
proof -
  have "unat (of_nat (length xs) + 4 :: 32 word) = unat (of_nat (length xs + 4) :: 32 word)"
    by simp
  also have "\<dots> = length xs + 4"
    using assms by (simp add: small_def unat_of_nat del: of_nat_add)
  finally show ?thesis by (simp add: get_put_be)
qed

lemma u32_field_slices:
  "subslice 0 4 (u32_field xs @ rest) = Inr (put_be 4 (of_nat (length xs) :: 32 word))"
  "subslice 4 (length xs + 4) (u32_field xs @ rest) = Inr xs"
  "drop (length xs + 4) (u32_field xs @ rest) = rest"
  "take (length xs + 4) (u32_field xs @ rest) = u32_field xs"
  by (simp_all add: u32_field_def subslice_def)

section \<open>Reading\<close>

lemma scan_page_Nil [simp]: "scan_page key [] = Inr None"
  by (simp add: scan_page.simps)

lemma scan_page_record:
  assumes "small k" "small v"
  shows "scan_page key (u32_field k @ u32_field v @ rest) =
    (if k = key then Inr (Some v) else scan_page key rest)"
  by (cases "k = key"; subst scan_page.simps)
    (use assms in \<open>simp_all add: u32_field_slices u32_field_end Let_def\<close>)

lemma scan_print_page:
  "page_ok recs \<Longrightarrow> scan_page key (print_page recs) = Inr (map_of recs key)"
  by (induction recs) (auto simp: page_ok_def scan_page_record)

section \<open>Writing\<close>

definition upd_recs ::
  "byte list \<Rightarrow> byte list \<Rightarrow> (byte list \<times> byte list) list \<Rightarrow> (byte list \<times> byte list) list" where
  "upd_recs key val recs = map (\<lambda>(k, v). (k, if k = key then val else v)) recs"

lemma upd_recs_simps [simp]:
  "upd_recs key val [] = []"
  "upd_recs key val ((k, v) # recs) = (k, if k = key then val else v) # upd_recs key val recs"
  by (simp_all add: upd_recs_def)

lemma upd_recs_keys [simp]: "map fst (upd_recs key val recs) = map fst recs"
  by (auto simp: upd_recs_def)

lemma map_of_upd_recs:
  "map_of (upd_recs key val recs) k =
    (if k = key then (if map_of recs key = None then None else Some val) else map_of recs k)"
  by (induction recs) auto

lemma page_ok_upd: "page_ok recs \<Longrightarrow> small val \<Longrightarrow> page_ok (upd_recs key val recs)"
  unfolding page_ok_def by (simp only: upd_recs_keys) (auto simp: upd_recs_def)

definition put_recs ::
  "byte list \<Rightarrow> byte list \<Rightarrow> (byte list \<times> byte list) list \<Rightarrow> (byte list \<times> byte list) list" where
  "put_recs key val recs =
     (if key \<in> fst ` set recs then upd_recs key val recs else upd_recs key val recs @ [(key, val)])"

lemma page_ok_put:
  assumes "page_ok recs" "small key" "small val"
  shows "page_ok (put_recs key val recs)"
proof -
  have "fst ` set (upd_recs key val recs) = fst ` set recs"
    by (metis list.set_map upd_recs_keys)
  then show ?thesis
    using page_ok_upd [OF assms(1,3), of key] assms
    by (auto simp: put_recs_def page_ok_def)
qed

lemma map_of_put_recs: "map_of (put_recs key val recs) = (map_of recs)(key \<mapsto> val)"
proof -
  have "key \<in> fst ` set recs \<longleftrightarrow> map_of recs key \<noteq> None"
    by (simp add: map_of_eq_None_iff)
  then show ?thesis
    by (auto simp: put_recs_def map_of_upd_recs map_add_def fun_eq_iff split: option.splits)
qed

lemma copy_page_Nil [simp]: "copy_page io key val [] w wr = Inr (w, wr, True)"
  by (simp add: copy_page.simps)

lemma copy_page_record:
  assumes "small k" "small v"
  shows "copy_page io key val (u32_field k @ u32_field v @ rest) w wr =
    (let (w1, ok1) = write_page io (u32_field k) w in
     if \<not> ok1 then Inr (w1, wr, False)
     else if k = key
     then let (w2, ok2) = write_page io (u32_field val) w1
          in if \<not> ok2 then Inr (w2, wr, False) else copy_page io key val rest w2 True
     else let (w2, ok2) = write_page io (u32_field v) w1
          in copy_page io key val rest w2 wr)"
  by (cases "k = key"; subst copy_page.simps)
    (use assms in \<open>simp_all add: u32_field_slices u32_field_end Let_def split: prod.splits\<close>)

lemma write_page_no_fault [simp]:
  "write_page no_fault bs w = (\<lparr>page = page w @ bs, writes = Suc (writes w)\<rparr>, True)"
  by (simp add: write_page_def no_fault_def)

text \<open>Without faults the loop writes the updated records and reports whether it met the key.\<close>

lemma copy_page_no_fault:
  assumes "page_ok recs"
  shows "\<exists>w'. copy_page no_fault key val (print_page recs) w wr =
      Inr (w', wr \<or> key \<in> fst ` set recs, True) \<and>
    page w' = page w @ print_page (upd_recs key val recs)"
  using assms
proof (induction recs arbitrary: w wr)
  case Nil
  then show ?case by simp
next
  case (Cons r recs)
  obtain k v where r: "r = (k, v)" by (cases r)
  have ok: "page_ok recs" "small k" "small v"
    using Cons.prems by (auto simp: r page_ok_def)
  let ?w = "\<lparr>page = page w @ u32_field k @ u32_field (if k = key then val else v),
    writes = Suc (Suc (writes w))\<rparr>"
  obtain w' where "copy_page no_fault key val (print_page recs) ?w (wr \<or> k = key) =
      Inr (w', (wr \<or> k = key) \<or> key \<in> fst ` set recs, True)"
    and "page w' = page ?w @ print_page (upd_recs key val recs)"
    using Cons.IH [OF ok(1)] by blast
  then show ?case
    using ok by (cases "k = key") (auto simp: r copy_page_record)
qed

text \<open>Whatever writes fail, a well-formed page is copied without a panic.\<close>

lemma copy_page_total:
  "page_ok recs \<Longrightarrow> \<exists>r. copy_page io key val (print_page recs) w wr = Inr r"
proof (induction recs arbitrary: w wr)
  case Nil
  show ?case using copy_page_Nil by (metis print_page_simps(1))
next
  case (Cons r recs)
  obtain k v where r: "r = (k, v)" by (cases r)
  have ok: "page_ok recs" "small k" "small v"
    using Cons.prems by (auto simp: r page_ok_def)
  show ?case
    using Cons.IH [OF ok(1)] by (auto simp: r copy_page_record ok split: prod.split)
qed

section \<open>File names\<close>

lemma hex_digit_not_t:
  assumes "d < 16"
  shows "hex_digit d \<noteq> 116"
proof
  assume h: "hex_digit d = 116"
  have "d = 116 - 48 \<or> d = 116 - 87"
    using h by (auto simp: hex_digit_def eq_diff_eq add.commute split: if_splits)
  with assms h show False by (auto simp: hex_digit_def)
qed

lemma nibble_lt_16: "drop_bit 4 (b::byte) < 16" "b AND 15 < (16::byte)"
proof -
  have "unat b < 256"
    using unsigned_less [of b, where ?'a = nat] by simp
  then show "drop_bit 4 b < 16"
    by (simp add: word_less_nat_alt unat_drop_bit_eq drop_bit_eq_div unat_div)
  have "b AND 15 \<le> 15" by (rule word_and_le1)
  also have "(15::byte) < 16" by simp
  finally show "b AND 15 < (16::byte)" .
qed

lemma hex_no_t: "116 \<notin> set (hex_EncodeToString bs)"
  using hex_digit_not_t nibble_lt_16 by (force simp: hex_EncodeToString_def)

lemma page_name_not_tx [simp]: "page_name s k \<noteq> tx_name i" "tx_name i \<noteq> page_name s k"
proof -
  have "116 \<in> set (tx_name i)" by (simp add: tx_name_def)
  then show "page_name s k \<noteq> tx_name i" "tx_name i \<noteq> page_name s k"
    using hex_no_t [of "md5 s k"] unfolding page_name_def by metis+
qed

lemma page_name_frame [simp]:
  "page_name (s\<lparr>files := f\<rparr>) = page_name s" "page_name (s\<lparr>ptxid := t\<rparr>) = page_name s"
  by (simp_all add: page_name_def fun_eq_iff)

end
