(* ===== verification/Disk_Contract.thy ===== *)
theory Disk_Contract
  imports Page_Format
begin

text \<open>
  The on-disk store satisfies the store contract when no system call fails, for every hash
  function, and is shadow-paged: whatever calls fail, nothing but a successful \<open>Commit\<close>
  changes the pages that \<open>Get\<close> reads.
\<close>

definition disk_content :: "persistentstore \<Rightarrow> byte list \<Rightarrow> byte list" where
  "disk_content s k =
     (case files s (page_name s k) of
        None \<Rightarrow> []
      | Some pg \<Rightarrow> (case scan_page k pg of Inr (Some v) \<Rightarrow> v | _ \<Rightarrow> []))"

definition disk_invar :: "persistentstore \<Rightarrow> bool" where
  "disk_invar s \<longleftrightarrow>
     (\<forall>k pg. files s (page_name s k) = Some pg \<longrightarrow> (\<exists>recs. page_ok recs \<and> pg = print_page recs))"

definition disk_fits :: "bytes \<Rightarrow> bytes \<Rightarrow> bool" where
  "disk_fits k v \<longleftrightarrow> small (raw k) \<and> small (raw v)"

lemma disk_invar_page:
  assumes "disk_invar s"
  obtains "files s (page_name s k) = None" "disk_content s k = []"
  | recs where "files s (page_name s k) = Some (print_page recs)" "page_ok recs"
      "\<And>k'. page_name s k' = page_name s k \<Longrightarrow>
        disk_content s k' = (case map_of recs k' of None \<Rightarrow> [] | Some v \<Rightarrow> v)"
proof (cases "files s (page_name s k)")
  case None
  then show ?thesis using that(1) by (simp add: disk_content_def)
next
  case (Some pg)
  with assms obtain recs where "page_ok recs" "pg = print_page recs"
    by (auto simp: disk_invar_def)
  with Some show ?thesis
    using that(2) by (simp add: disk_content_def scan_print_page split: option.split)
qed

text \<open>Only files named like pages matter to the content and to the invariant.\<close>

lemma disk_tx_frame [simp]:
  "disk_content (s\<lparr>files := (files s)(tx_name i := pg)\<rparr>) = disk_content s"
  "disk_invar (s\<lparr>files := (files s)(tx_name i := pg)\<rparr>) = disk_invar s"
  "disk_content (s\<lparr>ptxid := t, files := (files s)(tx_name i := pg)\<rparr>) = disk_content s"
  "disk_invar (s\<lparr>ptxid := t, files := (files s)(tx_name i := pg)\<rparr>) = disk_invar s"
  "disk_content (s\<lparr>ptxid := t\<rparr>) = disk_content s"
  "disk_invar (s\<lparr>ptxid := t\<rparr>) = disk_invar s"
  by (simp_all add: disk_content_def disk_invar_def page_name_def fun_eq_iff)
    (simp_all add: page_name_def [symmetric])

section \<open>Put under any faults\<close>

text \<open>What a \<open>Put\<close> may do to the store: take an id and write the file of that id.\<close>

definition only_tx :: "persistentstore \<Rightarrow> persistentstore \<Rightarrow> bool" where
  "only_tx s s' \<longleftrightarrow> (\<exists>pg. s' = s\<lparr>ptxid := next_txid (ptxid s),
     files := (files s)(tx_name (next_txid (ptxid s)) := pg)\<rparr>)"

lemma only_txI:
  "only_tx s (s\<lparr>ptxid := next_txid (ptxid s)\<rparr>)"
  "only_tx s (s\<lparr>ptxid := next_txid (ptxid s),
     files := (files s)(tx_name (next_txid (ptxid s)) := pg)\<rparr>)"
proof -
  let ?t = "next_txid (ptxid s)"
  have "s\<lparr>ptxid := ?t\<rparr> = s\<lparr>ptxid := ?t, files := (files s)(tx_name ?t := files s (tx_name ?t))\<rparr>"
    by simp
  then show "only_tx s (s\<lparr>ptxid := ?t\<rparr>)" unfolding only_tx_def by blast
qed (auto simp: only_tx_def)

lemma Put_any_fault:
  assumes "persistent_Put io s k v = Inr (s', i)"
  shows "only_tx s s' \<and> i \<in> {0, next_txid (ptxid s)}"
proof (cases "files s (page_name s (raw k))")
  case None
  with assms show ?thesis
    by (auto simp: persistent_Put_def putNew_def Let_def only_txI split: if_splits prod.splits)
next
  case (Some old)
  show ?thesis
  proof (cases "read_fails io \<or> create_fails io")
    case True
    with assms Some have "s' = s\<lparr>ptxid := next_txid (ptxid s)\<rparr> \<and> i = 0"
      by (cases "read_fails io") (simp_all add: persistent_Put_def Let_def)
    then show ?thesis by (simp add: only_txI)
  next
    case False
    with assms Some obtain w written ok where
      "copy_page io (raw k) (raw v) old \<lparr>page = [], writes = 0\<rparr> False = Inr (w, written, ok)"
      by (auto simp: persistent_Put_def Let_def)
    with assms Some False show ?thesis
      by (cases ok; cases written)
        (auto simp: persistent_Put_def Let_def only_txI split: prod.splits)
  qed
qed

lemma only_tx_frame:
  "only_tx s s' \<Longrightarrow> disk_content s' = disk_content s \<and> disk_invar s' = disk_invar s"
  by (auto simp: only_tx_def)

lemma Put_total_any_fault:
  assumes "disk_invar s"
  shows "\<exists>s' i. persistent_Put io s k v = Inr (s', i)"
proof (cases rule: disk_invar_page [OF assms, of "raw k"])
  case 1
  then show ?thesis by (simp add: persistent_Put_def Let_def)
next
  case (2 recs)
  then obtain w written ok where
    "copy_page io (raw k) (raw v) (print_page recs) \<lparr>page = [], writes = 0\<rparr> False =
      Inr (w, written, ok)"
    using copy_page_total by (metis prod_cases3)
  with 2 show ?thesis by (simp add: persistent_Put_def Let_def split: prod.split)
qed

section \<open>The contract without faults\<close>

lemma Put_no_fault:
  assumes "disk_invar s"
  obtains recs where
    "persistent_Put no_fault s k v =
       Inr (s\<lparr>ptxid := next_txid (ptxid s),
              files := (files s)(tx_name (next_txid (ptxid s)) \<mapsto> print_page (put_recs (raw k) (raw v) recs))\<rparr>,
            next_txid (ptxid s))"
    "page_ok recs"
    "\<And>k'. page_name s k' = page_name s (raw k) \<Longrightarrow>
       disk_content s k' = (case map_of recs k' of None \<Rightarrow> [] | Some v \<Rightarrow> v)"
proof (cases rule: disk_invar_page [OF assms, of "raw k"])
  case 1
  then show ?thesis
    by (intro that [of "[]"])
      (simp_all add: persistent_Put_def putNew_def Let_def put_recs_def page_ok_def no_fault_def
        disk_content_def write_page_def print_page_def)
next
  case (2 recs)
  obtain w where w:
    "copy_page no_fault (raw k) (raw v) (print_page recs) \<lparr>page = [], writes = 0\<rparr> False =
      Inr (w, raw k \<in> fst ` set recs, True)"
    "page w = print_page (upd_recs (raw k) (raw v) recs)"
    using copy_page_no_fault [OF 2(2), of "raw k" "raw v" "\<lparr>page = [], writes = 0\<rparr>" False] by auto
  have nf: "\<not> read_fails no_fault" "\<not> create_fails no_fault" by (simp_all add: no_fault_def)
  show ?thesis
    by (rule that [OF _ 2(2,3)])
      (simp_all add: persistent_Put_def Let_def 2(1) nf w put_recs_def print_page_append)
qed

lemma Put_no_faultE:
  assumes inv: "disk_invar s" and p: "persistent_Put no_fault s k v = Inr (s', i)"
  obtains recs where
    "s' = s\<lparr>ptxid := next_txid (ptxid s), files := (files s)
       (tx_name (next_txid (ptxid s)) \<mapsto> print_page (put_recs (raw k) (raw v) recs))\<rparr>"
    "i = next_txid (ptxid s)" "page_ok recs"
    "\<And>k'. page_name s k' = page_name s (raw k) \<Longrightarrow>
       disk_content s k' = (case map_of recs k' of None \<Rightarrow> [] | Some v \<Rightarrow> v)"
proof (rule Put_no_fault [OF inv, of k v])
  fix recs
  assume e: "persistent_Put no_fault s k v =
      Inr (s\<lparr>ptxid := next_txid (ptxid s), files := (files s)
        (tx_name (next_txid (ptxid s)) \<mapsto> print_page (put_recs (raw k) (raw v) recs))\<rparr>,
        next_txid (ptxid s))"
    and r: "page_ok recs"
      "\<And>k'. page_name s k' = page_name s (raw k) \<Longrightarrow>
         disk_content s k' = (case map_of recs k' of None \<Rightarrow> [] | Some v \<Rightarrow> v)"
  note eq = trans [OF p [symmetric] e]
  show thesis by (rule that [OF _ _ r]) (use eq in simp_all)
qed

lemma Commit_tx:
  assumes "disk_invar s" "page_ok recs"
    and "\<And>k'. page_name s k' = page_name s (raw k) \<Longrightarrow>
       disk_content s k' = (case map_of recs k' of None \<Rightarrow> [] | Some v \<Rightarrow> v)"
    and "files s (tx_name i) = Some (print_page (put_recs (raw k) v recs))"
    and "small (raw k)" "small v"
  shows "\<exists>s'. persistent_Commit no_fault s k i = (s', True) \<and> disk_invar s' \<and>
    disk_content s' = (disk_content s)(raw k := v)"
proof -
  define s' where "s' = s\<lparr>files := ((files s)(tx_name i := None))
    (page_name s (raw k) \<mapsto> print_page (put_recs (raw k) v recs))\<rparr>"
  have ok: "page_ok (put_recs (raw k) v recs)"
    using assms(2,5,6) by (rule page_ok_put)
  have pn: "page_name s' = page_name s" by (simp add: s'_def)
  have fs: "files s' (page_name s k') = (if page_name s k' = page_name s (raw k)
      then Some (print_page (put_recs (raw k) v recs)) else files s (page_name s k'))" for k'
    by (simp add: s'_def)
  have "persistent_Commit no_fault s k i = (s', True)"
    using assms(4) by (simp add: persistent_Commit_def s'_def no_fault_def)
  moreover have "disk_invar s'"
    using assms(1) ok unfolding disk_invar_def pn fs by auto
  moreover have "disk_content s' k' = ((disk_content s)(raw k := v)) k'" for k'
  proof (cases "page_name s k' = page_name s (raw k)")
    case True
    then show ?thesis
      using assms(3) [of k'] ok
      by (auto simp: disk_content_def pn fs scan_print_page map_of_put_recs split: option.splits)
  next
    case False
    then show ?thesis by (auto simp: disk_content_def pn fs)
  qed
  ultimately show ?thesis by blast
qed

lemma Put_Commit_no_fault:
  assumes "disk_invar s" "disk_fits k v" "persistent_Put no_fault s k v = Inr (s', i)"
  shows "\<exists>s''. persistent_Commit no_fault s' k i = (s'', True) \<and> disk_invar s'' \<and>
    disk_content s'' = (disk_content s)(raw k := raw v)"
proof -
  obtain recs where r:
    "s' = s\<lparr>ptxid := next_txid (ptxid s), files := (files s)
       (tx_name (next_txid (ptxid s)) \<mapsto> print_page (put_recs (raw k) (raw v) recs))\<rparr>"
    "i = next_txid (ptxid s)" "page_ok recs"
    "\<And>k'. page_name s k' = page_name s (raw k) \<Longrightarrow>
       disk_content s k' = (case map_of recs k' of None \<Rightarrow> [] | Some v \<Rightarrow> v)"
    by (rule Put_no_faultE [OF assms(1,3)]) (rule that; assumption)
  have "page_name s' = page_name s" by (simp add: r(1))
  then show ?thesis
    using Commit_tx [of s' recs k i "raw v"] r assms(1,2) by (simp add: disk_fits_def)
qed

lemma disk_Get_content:
  assumes "disk_invar s"
  shows "\<exists>v. persistent_Get no_fault s k = Inr (v, False) \<and> raw v = disk_content s (raw k)"
proof (cases rule: disk_invar_page [OF assms, of "raw k"])
  case 1
  then show ?thesis by (simp add: persistent_Get_def)
next
  case (2 recs)
  have "scan_page (raw k) (print_page recs) = Inr (map_of recs (raw k))"
    using 2(2) by (rule scan_print_page)
  with 2(1) 2(3) [OF refl] show ?thesis
    by (simp add: persistent_Get_def no_fault_def split: option.split)
qed

interpretation disk: kv_store
  "persistent_Get no_fault" "persistent_Put no_fault" "persistent_Commit no_fault"
  "persistent_Rollback no_fault" disk_content disk_invar disk_fits
proof unfold_locales
  fix s k v s' i
  assume inv: "disk_invar s"
  show "\<exists>s' i. persistent_Put no_fault s k v = Inr (s', i)"
    using inv by (rule Put_total_any_fault)
  assume p: "persistent_Put no_fault s k v = Inr (s', i)"
  then show "disk_invar s' \<and> disk_content s' = disk_content s"
    using Put_any_fault [OF p] only_tx_frame inv by auto
  from p show "i \<noteq> 0"
    by (auto elim: Put_no_faultE [OF inv])
qed (auto intro: disk_Get_content Put_Commit_no_fault simp: persistent_Rollback_def)

end
