(* ===== verification/Datastore.thy ===== *)
theory Datastore
  imports Disk_Contract
begin

text \<open>
  \<open>src/datastore/store.go\<close>: the \<open>Store\<close> interface value a node holds, with its dispatch to
  the two implementations, and the contract for it.
\<close>

datatype Store = Mem memstore | Disk persistentstore

text \<open>
  \<open>New\<close>: the empty path selects the in-memory store. \<open>os.Mkdir\<close> on a fresh directory
  gives an empty one.
\<close>

definition new_Store :: "(byte list \<Rightarrow> byte list) \<Rightarrow> byte list \<Rightarrow> Store" where
  "new_Store h path = (if path = [] then Mem new_memstore else Disk (new_persistentstore h))"

fun Store_Get :: "iofault \<Rightarrow> Store \<Rightarrow> bytes \<Rightarrow> (bytes \<times> bool) res" where
  "Store_Get io (Mem s) key = Inr (memstore_Get s key)"
| "Store_Get io (Disk s) key = persistent_Get io s key"

fun Store_Put :: "iofault \<Rightarrow> Store \<Rightarrow> bytes \<Rightarrow> bytes \<Rightarrow> (Store \<times> 64 word) res" where
  "Store_Put io (Mem s) key val = Inr (map_prod Mem id (memstore_Put s key val))"
| "Store_Put io (Disk s) key val =
     bind_res (persistent_Put io s key val) (\<lambda>r. Inr (map_prod Disk id r))"

fun Store_Commit :: "iofault \<Rightarrow> Store \<Rightarrow> bytes \<Rightarrow> 64 word \<Rightarrow> Store \<times> bool" where
  "Store_Commit io (Mem s) key i = map_prod Mem id (memstore_Commit s key i)"
| "Store_Commit io (Disk s) key i = map_prod Disk id (persistent_Commit io s key i)"

fun Store_Rollback :: "iofault \<Rightarrow> Store \<Rightarrow> 64 word \<Rightarrow> Store" where
  "Store_Rollback io (Mem s) i = Mem (memstore_Rollback s i)"
| "Store_Rollback io (Disk s) i = Disk (persistent_Rollback io s i)"

section \<open>The contract of the interface\<close>

fun store_content :: "Store \<Rightarrow> byte list \<Rightarrow> byte list" where
  "store_content (Mem s) = mem_content s"
| "store_content (Disk s) = disk_content s"

fun store_invar :: "Store \<Rightarrow> bool" where
  "store_invar (Mem s) = True"
| "store_invar (Disk s) = disk_invar s"

lemma disk_new:
  "disk_invar (new_persistentstore h)" "disk_content (new_persistentstore h) = (\<lambda>_. [])"
  by (simp_all add: disk_invar_def disk_content_def new_persistentstore_def fun_eq_iff)

lemma new_Store_ok [simp]:
  "store_invar (new_Store h p)" "store_content (new_Store h p) = (\<lambda>_. [])"
  by (simp_all add: new_Store_def disk_new)

interpretation store: kv_store
  "Store_Get no_fault" "Store_Put no_fault" "Store_Commit no_fault" "Store_Rollback no_fault"
  store_content store_invar disk_fits
proof unfold_locales
  fix s k v s' i
  assume inv: "store_invar s"
  show "\<exists>v. Store_Get no_fault s k = Inr (v, False) \<and> raw v = store_content s (raw k)"
    using inv mem.Get_content [of _ k] disk.Get_content [of _ k] by (cases s) auto
  show "store_invar (Store_Rollback no_fault s i) \<and>
      store_content (Store_Rollback no_fault s i) = store_content s"
    using inv mem.Rollback_content disk.Rollback_content by (cases s) auto
  assume p: "Store_Put no_fault s k v = Inr (s', i)"
  show "store_invar s' \<and> store_content s' = store_content s"
    using inv p mem.Put_content disk.Put_content by (cases s) (auto simp: map_prod_def split: prod.splits)
  assume fits: "disk_fits k v"
  show "i \<noteq> 0"
    using inv p fits mem.Put_id disk.Put_id by (cases s) (fastforce simp: map_prod_def split: prod.splits)+
  show "\<exists>s''. Store_Commit no_fault s' k i = (s'', True) \<and> store_invar s'' \<and>
      store_content s'' = (store_content s)(raw k := raw v)"
  proof (cases s)
    case (Mem m)
    with p obtain m' where m': "memstore_Put m k v = (m', i)" "s' = Mem m'"
      by (auto simp: map_prod_def split: prod.splits)
    with Mem show ?thesis using mem.Put_Commit [of m k v m' i] by auto
  next
    case (Disk d)
    with p obtain d' where d': "persistent_Put no_fault d k v = Inr (d', i)" "s' = Disk d'"
      by (auto simp: map_prod_def split: prod.splits)
    with Disk inv fits show ?thesis using disk.Put_Commit [of d k v d' i] by auto
  qed
next
  fix s k v
  assume inv: "store_invar s" "disk_fits k v"
  show "\<exists>s' i. Store_Put no_fault s k v = Inr (s', i)"
  proof (cases s)
    case (Mem m)
    then show ?thesis by (cases "memstore_Put m k v") simp
  next
    case (Disk d)
    with inv obtain d' i where "persistent_Put no_fault d k v = Inr (d', i)"
      using disk.Put_total by fastforce
    with Disk show ?thesis by simp
  qed
qed

text \<open>
  Under any faults, too, only a successful \<open>Commit\<close> changes what a node reads, and a
  well-formed store never crashes a \<open>Put\<close>.
\<close>

lemma Store_Put_any_fault:
  assumes "Store_Put io s k v = Inr (s', i)"
  shows "store_content s' = store_content s" and "store_invar s \<Longrightarrow> store_invar s'"
proof -
  have "store_content s' = store_content s \<and> (store_invar s \<longrightarrow> store_invar s')"
  proof (cases s)
    case (Mem m)
    with assms show ?thesis using mem.Put_content [of m k v "fst (memstore_Put m k v)"]
      by (auto simp: map_prod_def split: prod.splits)
  next
    case (Disk d)
    with assms obtain d' where "persistent_Put io d k v = Inr (d', i)" "s' = Disk d'"
      by (auto simp: map_prod_def split: prod.splits)
    with Disk show ?thesis using Put_any_fault only_tx_frame by fastforce
  qed
  then show "store_content s' = store_content s" and "store_invar s \<Longrightarrow> store_invar s'"
    by simp_all
qed

lemma Store_Rollback_any_fault [simp]:
  "store_content (Store_Rollback io s i) = store_content s"
  "store_invar (Store_Rollback io s i) = store_invar s"
  by (cases s; simp add: memstore_Rollback_def persistent_Rollback_def)+

end
