(* ===== verification/Packet.thy ===== *)
theory Packet
  imports Prelude
begin

text \<open>
  \<open>src/net/packet/message.go\<close>: the message types, the message struct and its
  comparison. The blank first constant of the Go enumeration, which is what the type of a
  zero \<open>Message\<close> is, is \<open>NoMessagetype\<close>; the order of the constructors is the \<open>iota\<close> order.
\<close>

section \<open>Message types\<close>

datatype Messagetype =
    NoMessagetype
  | ClientReadRequest
  | ClientWriteRequest
  | ClientStrongWriteRequest
  | ClientReadResponse
  | ClientWriteResponse
  | NodeLockRequest
  | NodeLockRequestNoTimeout
  | NodeLockResponse
  | NodeUnlockRequest
  | NodeUnlockAck
  | NodeGetRequest
  | NodeGetResponse
  | NodePutRequest
  | NodePutResponse
  | NodeTimestampRequest
  | NodeBackgroundWriteRequest
  | NodeBackgroundWriteResponse
  | InternalTimerSignal
  | InternalHeartbeat
  | InternalLeaderQuery
  | ElectionElect
  | ElectionCoordinator
  | ElectionAck
  | ControlFail
  | ControlRecover

text \<open>The numeric values the Go constants have; \<open>Messagetype\<close> is ordered by them.\<close>

fun mt_code :: "Messagetype \<Rightarrow> nat" where
  "mt_code NoMessagetype = 0"
| "mt_code ClientReadRequest = 1"
| "mt_code ClientWriteRequest = 2"
| "mt_code ClientStrongWriteRequest = 3"
| "mt_code ClientReadResponse = 4"
| "mt_code ClientWriteResponse = 5"
| "mt_code NodeLockRequest = 6"
| "mt_code NodeLockRequestNoTimeout = 7"
| "mt_code NodeLockResponse = 8"
| "mt_code NodeUnlockRequest = 9"
| "mt_code NodeUnlockAck = 10"
| "mt_code NodeGetRequest = 11"
| "mt_code NodeGetResponse = 12"
| "mt_code NodePutRequest = 13"
| "mt_code NodePutResponse = 14"
| "mt_code NodeTimestampRequest = 15"
| "mt_code NodeBackgroundWriteRequest = 16"
| "mt_code NodeBackgroundWriteResponse = 17"
| "mt_code InternalTimerSignal = 18"
| "mt_code InternalHeartbeat = 19"
| "mt_code InternalLeaderQuery = 20"
| "mt_code ElectionElect = 21"
| "mt_code ElectionCoordinator = 22"
| "mt_code ElectionAck = 23"
| "mt_code ControlFail = 24"
| "mt_code ControlRecover = 25"

definition messagetypes :: "Messagetype list" where
  "messagetypes =
     [NoMessagetype, ClientReadRequest, ClientWriteRequest, ClientStrongWriteRequest,
      ClientReadResponse, ClientWriteResponse, NodeLockRequest, NodeLockRequestNoTimeout,
      NodeLockResponse, NodeUnlockRequest, NodeUnlockAck, NodeGetRequest, NodeGetResponse,
      NodePutRequest, NodePutResponse, NodeTimestampRequest, NodeBackgroundWriteRequest,
      NodeBackgroundWriteResponse, InternalTimerSignal, InternalHeartbeat,
      InternalLeaderQuery, ElectionElect, ElectionCoordinator, ElectionAck, ControlFail,
      ControlRecover]"

lemma messagetypes_nth_code: "messagetypes ! mt_code t = t"
  by (cases t) (simp_all add: messagetypes_def)

lemma mt_code_inj: "mt_code a = mt_code b \<longleftrightarrow> a = b"
  by (metis messagetypes_nth_code)

instantiation Messagetype :: linorder
begin

definition less_eq_Messagetype :: "Messagetype \<Rightarrow> Messagetype \<Rightarrow> bool" where
  "less_eq_Messagetype a b \<longleftrightarrow> mt_code a \<le> mt_code b"

definition less_Messagetype :: "Messagetype \<Rightarrow> Messagetype \<Rightarrow> bool" where
  "less_Messagetype a b \<longleftrightarrow> mt_code a < mt_code b"

instance
  by standard (auto simp: less_eq_Messagetype_def less_Messagetype_def mt_code_inj)

end

fun Messagetype_String :: "Messagetype \<Rightarrow> string" where
  "Messagetype_String ClientReadRequest = ''clientReadRequest''"
| "Messagetype_String ClientWriteRequest = ''clientWriteRequest''"
| "Messagetype_String ClientStrongWriteRequest = ''clientStrongWriteRequest''"
| "Messagetype_String ClientReadResponse = ''clientReadResponse''"
| "Messagetype_String ClientWriteResponse = ''clientWriteResponse''"
| "Messagetype_String NodeLockRequest = ''nodeLockRequest''"
| "Messagetype_String NodeLockRequestNoTimeout = ''nodeLockRequestNoTimeout''"
| "Messagetype_String NodeLockResponse = ''nodeLockResponse''"
| "Messagetype_String NodeUnlockRequest = ''nodeUnlockRequest''"
| "Messagetype_String NodeUnlockAck = ''nodeUnlockAck''"
| "Messagetype_String NodeGetRequest = ''nodeGetRequest''"
| "Messagetype_String NodeGetResponse = ''nodeGetResponse''"
| "Messagetype_String NodePutRequest = ''nodePutRequest''"
| "Messagetype_String NodePutResponse = ''nodePutResponse''"
| "Messagetype_String NodeTimestampRequest = ''nodeTimestampRequest''"
| "Messagetype_String ElectionElect = ''electionElect''"
| "Messagetype_String ElectionCoordinator = ''electionCoordinator''"
| "Messagetype_String ElectionAck = ''electionAck''"
| "Messagetype_String InternalTimerSignal = ''internalTimerSignal''"
| "Messagetype_String InternalHeartbeat = ''internalHeartbeat''"
| "Messagetype_String _ = ''UNKNOWN_MESSAGE_TYPE''"

section \<open>Messages\<close>

text \<open>
  Node ids and transaction ids are Go \<open>int\<close>s that the program only compares, counts up by
  one or, for one clean-up threshold, lowers by 50: they are \<open>int\<close>s here. Timestamps are
  \<open>uint64\<close> and wrap. \<open>Id'\<close> is the Go field \<open>Id\<close>.
\<close>

record Message =
  Id' :: int
  Src :: int
  Dest :: int
  DemuxKey :: Messagetype
  Key :: bytes
  Value :: bytes
  Timestamp :: "64 word"
  Ok :: bool

text \<open>The zero value, which composite literals update and missing map entries read as.\<close>

definition zeroMessage :: Message where
  "zeroMessage = \<lparr>Id' = 0, Src = 0, Dest = 0, DemuxKey = NoMessagetype,
     Key = None, Value = None, Timestamp = 0, Ok = False\<rparr>"

lemma zeroMessage_simps [simp]:
  "Id' zeroMessage = 0" "Src zeroMessage = 0" "Dest zeroMessage = 0"
  "DemuxKey zeroMessage = NoMessagetype" "Key zeroMessage = None" "Value zeroMessage = None"
  "Timestamp zeroMessage = 0" "Ok zeroMessage = False"
  by (simp_all add: zeroMessage_def)

definition MessagesEqual :: "Message \<Rightarrow> Message \<Rightarrow> bool" where
  "MessagesEqual m1 m2 \<longleftrightarrow>
     Id' m1 = Id' m2 \<and> Src m1 = Src m2 \<and> Dest m1 = Dest m2 \<and> DemuxKey m1 = DemuxKey m2 \<and>
     bytes_Equal (Key m1) (Key m2) \<and> bytes_Equal (Value m1) (Value m2)"

end
