(* ===== verification/Lock_Queue.thy ===== *)
theory Lock_Queue
  imports Packet
begin

text \<open>
  \<open>src/dbnode/requestQueue.go\<close>: the queue of pending lock requests. It holds pointers and
  compares pointers, so messages live in an explicit heap: a list of cells, a pointer being
  an index. A new cell is what Go allocates for a variable whose address is taken.
\<close>

type_synonym ptr = nat
type_synonym heap = "Message list"

definition deref :: "heap \<Rightarrow> ptr \<Rightarrow> Message res" where
  "deref h p = (if p < length h then Inr (h ! p) else Inl Panic)"

definition alloc :: "Message \<Rightarrow> heap \<Rightarrow> ptr \<times> heap" where
  "alloc m h = (length h, h @ [m])"

record queue =
  qvalues :: "ptr list"

definition queue_contains :: "queue \<Rightarrow> ptr \<Rightarrow> bool" where
  "queue_contains q p \<longleftrightarrow> list_ex (\<lambda>m. m = p) (qvalues q)"

definition enqueue :: "queue \<Rightarrow> ptr \<Rightarrow> queue" where
  "enqueue q p = (if \<not> queue_contains q p then q\<lparr>qvalues := qvalues q @ [p]\<rparr> else q)"

definition dequeue :: "queue \<Rightarrow> (ptr \<times> queue) res" where
  "dequeue q = (case qvalues q of [] \<Rightarrow> Inl Panic | p # ps \<Rightarrow> Inr (p, q\<lparr>qvalues := ps\<rparr>))"

fun remove_first :: "ptr \<Rightarrow> ptr list \<Rightarrow> ptr list \<times> bool" where
  "remove_first p [] = ([], False)"
| "remove_first p (m # ms) =
     (if m = p then (ms, True) else let (ms', b) = remove_first p ms in (m # ms', b))"

definition queue_remove :: "queue \<Rightarrow> ptr \<Rightarrow> queue \<times> bool" where
  "queue_remove q p = (let (ps, b) = remove_first p (qvalues q) in (q\<lparr>qvalues := ps\<rparr>, b))"

definition queue_empty :: "queue \<Rightarrow> bool" where
  "queue_empty q \<longleftrightarrow> length (qvalues q) = 0"

definition queue_length :: "queue \<Rightarrow> nat" where
  "queue_length q = length (qvalues q)"

definition empty_queue :: queue where
  "empty_queue = \<lparr>qvalues = []\<rparr>"

section \<open>The queue as a list of distinct pointers\<close>

lemma remove_first_eq: "remove_first p ps = (remove1 p ps, p \<in> set ps)"
  by (induction ps) auto

text \<open>
  A waiting line over its list of members: entering twice has no effect, leaving is by
  position (front) or by name. \<open>fifo\<close> is what the node relies on.
\<close>

locale fifo =
  fixes enq :: "'q \<Rightarrow> 'a \<Rightarrow> 'q"
    and deq :: "'q \<Rightarrow> ('a \<times> 'q) res"
    and rem :: "'q \<Rightarrow> 'a \<Rightarrow> 'q \<times> bool"
    and isempty :: "'q \<Rightarrow> bool"
    and members :: "'q \<Rightarrow> 'a list"
  assumes members_enq: "members (enq q x) = (if x \<in> set (members q) then members q else members q @ [x])"
    and deq_members: "members q = x # xs \<Longrightarrow> \<exists>q'. deq q = Inr (x, q') \<and> members q' = xs"
    and deq_empty: "members q = [] \<Longrightarrow> deq q = Inl Panic"
    and members_rem: "members (fst (rem q x)) = remove1 x (members q)"
    and rem_found: "snd (rem q x) \<longleftrightarrow> x \<in> set (members q)"
    and isempty_members: "isempty q \<longleftrightarrow> members q = []"
begin

lemma enq_distinct: "distinct (members q) \<Longrightarrow> distinct (members (enq q x))"
  by (simp add: members_enq)

lemma rem_distinct: "distinct (members q) \<Longrightarrow> distinct (members (fst (rem q x)))"
  by (simp add: members_rem)

lemma deq_guarded: "\<not> isempty q \<Longrightarrow>
  \<exists>x q'. deq q = Inr (x, q') \<and> members q = x # members q'"
  using deq_members [of q] by (cases "members q") (fastforce simp: isempty_members)+

lemma deq_Inr: "deq q = Inr (x, q') \<Longrightarrow> members q = x # members q'"
  using deq_members deq_empty by (cases "members q") fastforce+

text \<open>A removed request is never served: it is nowhere in the line.\<close>

lemma rem_gone: "distinct (members q) \<Longrightarrow> x \<notin> set (members (fst (rem q x)))"
  by (simp add: members_rem)

lemma enq_empty_deq: "isempty q \<Longrightarrow> \<exists>q'. deq (enq q x) = Inr (x, q') \<and> isempty q'"
  using deq_members [of "enq q x" x "[]"] by (auto simp: members_enq isempty_members)

end

interpretation lq: fifo enqueue dequeue queue_remove queue_empty "qvalues"
  by unfold_locales
    (auto simp: enqueue_def queue_contains_def list_ex_iff dequeue_def queue_remove_def
      remove_first_eq queue_empty_def split: prod.splits)

end
