(* ===== verification/Repeater.thy ===== *)
theory Repeater
  imports Packet
begin

text \<open>
  \<open>src/dbnode/repeater/repeater.go\<close>: resending of requests until they are acknowledged.
  A \<open>Repeater\<close> is the mutex-protected state; every call of \<open>Send\<close> starts a goroutine, a
  \<open>sendtask\<close>, whose loop body (what runs under the mutex, between two sleeps) is one
  \<open>send_iter\<close>. Nested Go maps are nested maps; the innermost \<open>map[Messagetype]bool\<close> holds
  only \<open>true\<close> entries.
\<close>

section \<open>State\<close>

record sendtask =
  t_msg :: Message
  t_demuxKey :: Messagetype
  t_unlimited :: bool
  t_i :: int

record Repeater =
  numRetries :: int
  unackedReqs :: "int \<Rightarrow> (int \<Rightarrow> (Messagetype \<Rightarrow> bool) option) option"
  rdisabled :: bool
  tasks :: "sendtask list"

definition new_Repeater :: "int \<Rightarrow> int \<Rightarrow> Repeater" where
  "new_Repeater numNodes retries =
     \<lparr>numRetries = retries,
      unackedReqs = (\<lambda>i. if 0 \<le> i \<and> i < numNodes then Some (\<lambda>_. None) else None),
      rdisabled = False, tasks = []\<rparr>"

text \<open>\<open>r.unackedReqs[node][tx][k]\<close>: missing entries read as false at every level.\<close>

definition unacked :: "Repeater \<Rightarrow> int \<Rightarrow> int \<Rightarrow> Messagetype \<Rightarrow> bool" where
  "unacked r node tx k =
     (case unackedReqs r node of
        None \<Rightarrow> False
      | Some m \<Rightarrow> (case m tx of None \<Rightarrow> False | Some s \<Rightarrow> s k))"

section \<open>Operations\<close>

text \<open>The expected acknowledgement of each request type; other types are fatal in \<open>Send\<close>.\<close>

fun ack_type :: "Messagetype \<Rightarrow> Messagetype option" where
  "ack_type NodeLockRequest = Some NodeLockResponse"
| "ack_type NodeLockRequestNoTimeout = Some NodeLockResponse"
| "ack_type NodeUnlockRequest = Some NodeUnlockAck"
| "ack_type NodeGetRequest = Some NodeGetResponse"
| "ack_type NodePutRequest = Some NodePutResponse"
| "ack_type NodeTimestampRequest = Some NodeGetResponse"
| "ack_type _ = None"

definition Repeater_Send :: "Repeater \<Rightarrow> Message \<Rightarrow> bool \<Rightarrow> Repeater res" where
  "Repeater_Send r msg unlimitedRepeats =
     (case ack_type (DemuxKey msg) of
        None \<Rightarrow> Inl Fatal
      | Some k \<Rightarrow>
          (case unackedReqs r (Dest msg) of
             None \<Rightarrow> Inl Panic
           | Some m \<Rightarrow>
               let inner = (case m (Id' msg) of None \<Rightarrow> (\<lambda>_. False) | Some s \<Rightarrow> s)
               in Inr (r\<lparr>unackedReqs :=
                          (unackedReqs r)(Dest msg \<mapsto> m(Id' msg \<mapsto> inner(k := True))),
                        tasks := tasks r @
                          [\<lparr>t_msg = msg, t_demuxKey = k, t_unlimited = unlimitedRepeats, t_i = 0\<rparr>]\<rparr>)))"

text \<open>
  One iteration of \<open>send\<close>: the messages put on \<open>outgoing\<close>, and the goroutine as it goes
  on, or \<open>None\<close> when it returns. For unlimited repeats \<open>i--\<close> cancels the loop's \<open>i++\<close>.
\<close>

definition send_iter :: "Repeater \<Rightarrow> sendtask \<Rightarrow> Message list \<times> sendtask option" where
  "send_iter r t =
     (if \<not> t_i t < numRetries r then ([], None)
      else if \<not> rdisabled r \<and> \<not> unacked r (Dest (t_msg t)) (Id' (t_msg t)) (t_demuxKey t)
      then ([], None)
      else ((if rdisabled r then [] else [t_msg t]),
            Some (t\<lparr>t_i := (if t_unlimited t then t_i t - 1 else t_i t) + 1\<rparr>)))"

definition Repeater_Ack :: "Repeater \<Rightarrow> Message \<Rightarrow> Repeater" where
  "Repeater_Ack r msg =
     (if unacked r (Src msg) (Id' msg) (DemuxKey msg)
      then r\<lparr>unackedReqs := (unackedReqs r)(Src msg :=
               map_option (\<lambda>m. m(Id' msg := map_option (\<lambda>s. s(DemuxKey msg := False)) (m (Id' msg))))
                 (unackedReqs r (Src msg)))\<rparr>
      else r)"

definition Repeater_Fail :: "Repeater \<Rightarrow> Repeater" where
  "Repeater_Fail r = r\<lparr>rdisabled := True\<rparr>"

definition Repeater_Recover :: "Repeater \<Rightarrow> Repeater" where
  "Repeater_Recover r = r\<lparr>rdisabled := False\<rparr>"

text \<open>
  The goroutine along the states of the repeater it meets: one \<open>send_iter\<close> for each, until
  it returns.
\<close>

fun send_run :: "Repeater list \<Rightarrow> sendtask \<Rightarrow> Message list \<times> sendtask option" where
  "send_run [] t = ([], Some t)"
| "send_run (r # rs) t =
     (case send_iter r t of
        (out, None) \<Rightarrow> (out, None)
      | (out, Some t') \<Rightarrow> let (out', e) = send_run rs t' in (out @ out', e))"

section \<open>Acknowledgement\<close>

lemma unacked_Ack:
  "unacked (Repeater_Ack r msg) n t k \<longleftrightarrow>
    unacked r n t k \<and> \<not> (n = Src msg \<and> t = Id' msg \<and> k = DemuxKey msg)"
  by (auto simp: Repeater_Ack_def unacked_def split: option.splits if_splits)

lemma Ack_idem: "Repeater_Ack (Repeater_Ack r msg) msg = Repeater_Ack r msg"
  by (subst Repeater_Ack_def) (simp add: unacked_Ack)

lemma Ack_frame [simp]:
  "rdisabled (Repeater_Ack r msg) = rdisabled r" "numRetries (Repeater_Ack r msg) = numRetries r"
  "tasks (Repeater_Ack r msg) = tasks r"
  by (simp_all add: Repeater_Ack_def)

lemma Send_unacked:
  assumes "Repeater_Send r msg u = Inr r'"
  shows "unacked r' n t k \<longleftrightarrow>
    unacked r n t k \<or> (n = Dest msg \<and> t = Id' msg \<and> ack_type (DemuxKey msg) = Some k)"
  using assms
  by (auto simp: Repeater_Send_def unacked_def Let_def split: option.splits if_splits)

lemma Send_frame:
  assumes "Repeater_Send r msg u = Inr r'"
  shows "rdisabled r' = rdisabled r" "numRetries r' = numRetries r"
  using assms by (auto simp: Repeater_Send_def Let_def split: option.splits)

text \<open>The repeater has a table for exactly the nodes \<open>0..n-1\<close>.\<close>

definition knows_nodes :: "Repeater \<Rightarrow> int \<Rightarrow> bool" where
  "knows_nodes r n \<longleftrightarrow> dom (unackedReqs r) = {0..<n}"

lemma knows_nodes_new [simp]: "knows_nodes (new_Repeater n k) n"
  by (auto simp: knows_nodes_def new_Repeater_def split: if_splits)

lemma knows_nodes_Ack [simp]: "knows_nodes (Repeater_Ack r m) n = knows_nodes r n"
proof -
  have "dom (unackedReqs (Repeater_Ack r m)) = dom (unackedReqs r)"
    by (auto simp: Repeater_Ack_def dom_def)
  then show ?thesis by (simp add: knows_nodes_def)
qed

lemma knows_nodes_Send:
  assumes "Repeater_Send r m u = Inr r'"
  shows "knows_nodes r' n = knows_nodes r n"
proof -
  obtain t t' where "unackedReqs r (Dest m) = Some t"
    and "unackedReqs r' = (unackedReqs r)(Dest m \<mapsto> t')"
    using assms by (fastforce simp: Repeater_Send_def Let_def split: option.splits)
  then have "dom (unackedReqs r') = dom (unackedReqs r)" by auto
  then show ?thesis by (simp add: knows_nodes_def)
qed

text \<open>\<open>Send\<close> to a node of the system with a request type it knows never crashes.\<close>

lemma Send_total:
  assumes "knows_nodes r n" "0 \<le> Dest m" "Dest m < n" "ack_type (DemuxKey m) \<noteq> None"
  shows "\<exists>r'. Repeater_Send r m u = Inr r'"
proof -
  have "Dest m \<in> dom (unackedReqs r)" using assms by (simp add: knows_nodes_def)
  with assms(4) show ?thesis by (auto simp: Repeater_Send_def Let_def)
qed

section \<open>The retry loop\<close>

lemma send_iter_acked:
  assumes "\<not> rdisabled r" "\<not> unacked r (Dest (t_msg t)) (Id' (t_msg t)) (t_demuxKey t)"
  shows "send_iter r t = ([], None)"
  using assms by (simp add: send_iter_def)

lemma send_iter_out: "set (fst (send_iter r t)) \<subseteq> {t_msg t}"
  by (simp add: send_iter_def)

lemma send_iter_next:
  "send_iter r t = (out, Some t') \<Longrightarrow>
    t_msg t' = t_msg t \<and> t_unlimited t' = t_unlimited t \<and> t_demuxKey t' = t_demuxKey t \<and>
    t_i t' = (if t_unlimited t then t_i t else t_i t + 1) \<and> t_i t < numRetries r"
  by (auto simp: send_iter_def split: if_splits)

text \<open>
  A limited task puts at most the remaining number of retries on the network, whatever the
  repeater does meanwhile, and has returned after one iteration more than that.
\<close>

lemma send_run_bound:
  assumes "\<not> t_unlimited t" "\<forall>r \<in> set rs. numRetries r = k"
  shows "int (length (fst (send_run rs t))) \<le> max 0 (k - t_i t) \<and>
    (k - t_i t < int (length rs) \<and> rs \<noteq> [] \<longrightarrow> snd (send_run rs t) = None)"
  using assms
proof (induction rs arbitrary: t)
  case Nil
  then show ?case by simp
next
  case (Cons r rs)
  show ?case
  proof (cases "send_iter r t")
    case (Pair out nxt)
    show ?thesis
    proof (cases nxt)
      case None
      have "length out \<le> 1 \<and> out = []"
        using Pair None by (auto simp: send_iter_def split: if_splits)
      with Pair None show ?thesis by simp
    next
      case (Some t')
      have t': "\<not> t_unlimited t'" "t_i t' = t_i t + 1" "t_i t < k"
        using send_iter_next [of r t out t'] Pair Some Cons.prems by auto
      have out: "length out \<le> 1"
        using Pair Some by (auto simp: send_iter_def split: if_splits)
      obtain out' e where run: "send_run rs t' = (out', e)" by (cases "send_run rs t'")
      have "int (length out') \<le> max 0 (k - t_i t') \<and>
          (k - t_i t' < int (length rs) \<and> rs \<noteq> [] \<longrightarrow> e = None)"
        using Cons.IH [of t'] t'(1) Cons.prems run by simp
      with Pair Some run out t' show ?thesis by auto
    qed
  qed
qed

text \<open>An unlimited task sends in every round while it is enabled and unacknowledged.\<close>

lemma send_run_unlimited:
  assumes "t_unlimited t" "\<forall>r \<in> set rs. t_i t < numRetries r"
    and "\<forall>r \<in> set rs. rdisabled r \<or> unacked r (Dest (t_msg t)) (Id' (t_msg t)) (t_demuxKey t)"
  shows "send_run rs t =
    (replicate (length (filter (\<lambda>r. \<not> rdisabled r) rs)) (t_msg t), Some t)"
  using assms
proof (induction rs)
  case Nil
  then show ?case by simp
next
  case (Cons r rs)
  have "t\<lparr>t_i := t_i t - 1 + 1\<rparr> = t" by simp
  with Cons.prems have "send_iter r t = ((if rdisabled r then [] else [t_msg t]), Some t)"
    by (simp add: send_iter_def)
  with Cons show ?case by simp
qed

end
