(* ===== verification/Propagater.thy ===== *)
theory Propagater
  imports Packet
begin

text \<open>
  \<open>src/dbnode/backgroundWriter.go\<close>: the propagater that streams committed writes to the
  nodes outside the write quorum. First the operations on its data, run under its mutex;
  then the two goroutines that share the mutex and the unbuffered \<open>timer\<close> channel, as a
  step relation. \<open>startClock\<close> is defined in the source but never started.
\<close>

section \<open>Data\<close>

record transaction =
  t_key :: bytes
  t_value :: bytes
  t_timestamp :: "64 word"
  numConfirmedNodes :: int
  nodes :: "int set"

record propagater =
  p_id :: int
  p_n :: int
  criticalSize :: int
  transactions :: "(int \<times> transaction) list"

definition newPropagater :: "int \<Rightarrow> int \<Rightarrow> int \<Rightarrow> propagater" where
  "newPropagater i numNodes rqs =
     \<lparr>p_id = i, p_n = numNodes, criticalSize = numNodes - rqs + 1, transactions = []\<rparr>"

section \<open>Operations\<close>

text \<open>The requests of one transaction in one round: a loop over the nodes \<open>0..n-1\<close>.\<close>

definition write_requests :: "propagater \<Rightarrow> int \<Rightarrow> transaction \<Rightarrow> Message list" where
  "write_requests p i t =
     map (\<lambda>node. zeroMessage\<lparr>Id' := i, Src := p_id p, Dest := node,
            DemuxKey := NodeBackgroundWriteRequest, Key := t_key t, Value := t_value t,
            Timestamp := t_timestamp t, Ok := True\<rparr>)
       (filter (\<lambda>node. node \<notin> nodes t) [0..p_n p - 1])"

text \<open>
  One iteration of \<open>streamWrites\<close>: finished transactions are deleted, the others sent to
  every node not known to have them. The map is visited in the order \<open>ord\<close>.
\<close>

definition streamWrites :: "order \<Rightarrow> propagater \<Rightarrow> Message list \<times> propagater" where
  "streamWrites ord p =
     (concat (map (\<lambda>(i, t). if numConfirmedNodes t \<ge> criticalSize p then [] else write_requests p i t)
        (go_range ord (transactions p))),
      p\<lparr>transactions := filter (\<lambda>(i, t). \<not> numConfirmedNodes t \<ge> criticalSize p) (transactions p)\<rparr>)"

text \<open>\<open>quorumMembers\<close> is a map: its keys are given as a list without duplicates.\<close>

definition propagateTransaction ::
  "propagater \<Rightarrow> int \<Rightarrow> int list \<Rightarrow> bytes \<Rightarrow> bytes \<Rightarrow> 64 word \<Rightarrow> propagater" where
  "propagateTransaction p i quorumMembers key val timestamp =
     p\<lparr>transactions := AList.update i
         \<lparr>t_key = key, t_value = val, t_timestamp = timestamp,
          numConfirmedNodes = int (length quorumMembers), nodes = set quorumMembers\<rparr>
         (transactions p)\<rparr>"

definition response :: "propagater \<Rightarrow> Message \<Rightarrow> propagater res" where
  "response p msg =
     (if DemuxKey msg \<noteq> NodeBackgroundWriteResponse then Inl Fatal
      else case map_of (transactions p) (Id' msg) of
        None \<Rightarrow> Inr p
      | Some t \<Rightarrow>
          if Ok msg
          then if Src msg \<notin> nodes t
               then let t' = t\<lparr>nodes := insert (Src msg) (nodes t),
                                numConfirmedNodes := numConfirmedNodes t + 1\<rparr>
                    in Inr (p\<lparr>transactions :=
                         (if numConfirmedNodes t' \<ge> criticalSize p
                          then AList.delete (Id' msg) (transactions p)
                          else AList.update (Id' msg) t' (transactions p))\<rparr>)
               else Inr p
          else if Timestamp msg \<le> t_timestamp t then Inl Fatal
          else Inr (p\<lparr>transactions := AList.delete (Id' msg) (transactions p)\<rparr>))"

section \<open>The count of confirmed nodes\<close>

definition txn_ok :: "transaction \<Rightarrow> bool" where
  "txn_ok t \<longleftrightarrow> finite (nodes t) \<and> numConfirmedNodes t = int (card (nodes t))"

definition prop_ok :: "propagater \<Rightarrow> bool" where
  "prop_ok p \<longleftrightarrow> distinct (map fst (transactions p)) \<and> (\<forall>(i, t) \<in> set (transactions p). txn_ok t)"

lemma prop_ok_new [simp]: "prop_ok (newPropagater i n r)"
  by (simp add: prop_ok_def newPropagater_def)

lemma prop_ok_update:
  assumes "prop_ok p" "txn_ok t"
  shows "prop_ok (p\<lparr>transactions := AList.update i t (transactions p)\<rparr>)"
  using assms set_update_subset [of i t "transactions p"]
  by (auto simp: prop_ok_def distinct_update)

lemma prop_ok_delete:
  assumes "prop_ok p"
  shows "prop_ok (p\<lparr>transactions := AList.delete i (transactions p)\<rparr>)"
  using assms set_delete_subset [of i "transactions p"]
  by (auto simp: prop_ok_def AList.distinct_delete)

lemma prop_ok_propagate:
  assumes "prop_ok p" "distinct members"
  shows "prop_ok (propagateTransaction p i members k v ts)"
  unfolding propagateTransaction_def
  using assms by (intro prop_ok_update) (simp_all add: txn_ok_def distinct_card)

lemma prop_ok_txn:
  "prop_ok p \<Longrightarrow> map_of (transactions p) i = Some t \<Longrightarrow> txn_ok t"
  by (auto simp: prop_ok_def dest: map_of_SomeD)

lemma prop_ok_response:
  assumes "prop_ok p" "response p msg = Inr p'"
  shows "prop_ok p'"
  using assms prop_ok_txn [OF assms(1)]
  by (auto simp: response_def Let_def txn_ok_def intro!: prop_ok_update prop_ok_delete
      split: if_splits option.splits)

lemma prop_ok_stream: "prop_ok p \<Longrightarrow> prop_ok (snd (streamWrites ord p))"
  by (auto simp: prop_ok_def streamWrites_def distinct_keys_filter)

section \<open>What a round sends\<close>

lemma write_requests_dest:
  "m \<in> set (write_requests p i t) \<longleftrightarrow>
    (\<exists>node. 0 \<le> node \<and> node < p_n p \<and> node \<notin> nodes t \<and>
      m = zeroMessage\<lparr>Id' := i, Src := p_id p, Dest := node,
            DemuxKey := NodeBackgroundWriteRequest, Key := t_key t, Value := t_value t,
            Timestamp := t_timestamp t, Ok := True\<rparr>)"
  by (auto simp: write_requests_def)

lemma streamWrites_sends:
  assumes "valid_order ord"
  shows "m \<in> set (fst (streamWrites ord p)) \<longleftrightarrow>
    (\<exists>i t. (i, t) \<in> set (transactions p) \<and> numConfirmedNodes t < criticalSize p \<and>
      m \<in> set (write_requests p i t))"
  using set_go_range [OF assms, of "transactions p"]
  by (force simp: streamWrites_def split: if_splits)

section \<open>Answers\<close>

lemma response_ok_counts:
  assumes "map_of (transactions p) (Id' m) = Some t" "txn_ok t" "Ok m"
    and "DemuxKey m = NodeBackgroundWriteResponse" "response p m = Inr p'"
  shows "map_of (transactions p') (Id' m) =
    (if Src m \<in> nodes t then Some t
     else if int (card (insert (Src m) (nodes t))) \<ge> criticalSize p then None
     else Some (t\<lparr>nodes := insert (Src m) (nodes t), numConfirmedNodes := numConfirmedNodes t + 1\<rparr>))"
  using assms by (auto simp: response_def Let_def txn_ok_def AList.update_conv' AList.delete_conv' split: if_splits)

section \<open>The two goroutines\<close>

text \<open>
  The node's main loop calls \<open>propagateTransaction\<close>; the streaming goroutine waits for a
  signal, takes the mutex, does one round and waits again. The channel is unbuffered: the
  send and the receive are one joint step. \<open>calls\<close> and \<open>rounds\<close> count completed signals
  asked for and rounds begun.
\<close>

datatype main_pc = MIdle | MLock int "int list" bytes bytes "64 word" | MSend | MUnlock
datatype stream_pc = SRecv | SLock | SHold
datatype owner = Free | ByMain | ByStream

record conc =
  cprop :: propagater
  main :: main_pc
  stream :: stream_pc
  mutex :: owner
  calls :: nat
  rounds :: nat

definition conc_init :: "propagater \<Rightarrow> conc" where
  "conc_init p = \<lparr>cprop = p, main = MIdle, stream = SRecv, mutex = Free, calls = 0, rounds = 0\<rparr>"

inductive conc_step :: "conc \<Rightarrow> conc \<Rightarrow> bool" where
  call: "main c = MIdle \<Longrightarrow>
    conc_step c (c\<lparr>main := MLock i ms k v ts, calls := Suc (calls c)\<rparr>)"
| lock: "main c = MLock i ms k v ts \<Longrightarrow> mutex c = Free \<Longrightarrow>
    conc_step c (c\<lparr>main := MSend, mutex := ByMain,
      cprop := propagateTransaction (cprop c) i ms k v ts\<rparr>)"
| signal: "main c = MSend \<Longrightarrow> stream c = SRecv \<Longrightarrow>
    conc_step c (c\<lparr>main := MUnlock, stream := SLock, rounds := Suc (rounds c)\<rparr>)"
| unlock: "main c = MUnlock \<Longrightarrow> conc_step c (c\<lparr>main := MIdle, mutex := Free\<rparr>)"
| response: "main c = MIdle \<Longrightarrow> mutex c = Free \<Longrightarrow> response (cprop c) m = Inr p \<Longrightarrow>
    conc_step c (c\<lparr>cprop := p\<rparr>)"
| take: "stream c = SLock \<Longrightarrow> mutex c = Free \<Longrightarrow>
    conc_step c (c\<lparr>stream := SHold, mutex := ByStream\<rparr>)"
| round: "stream c = SHold \<Longrightarrow>
    conc_step c (c\<lparr>stream := SRecv, mutex := Free, cprop := snd (streamWrites ord (cprop c))\<rparr>)"

inductive conc_reach :: "propagater \<Rightarrow> conc \<Rightarrow> bool" for p where
  init: "conc_reach p (conc_init p)"
| step: "conc_reach p c \<Longrightarrow> conc_step c d \<Longrightarrow> conc_reach p d"

inductive_cases conc_stepE: "conc_step c d"

text \<open>The mutex is held by exactly the goroutine inside its critical section.\<close>

definition mutex_ok :: "conc \<Rightarrow> bool" where
  "mutex_ok c \<longleftrightarrow>
     (mutex c = ByMain \<longleftrightarrow> main c = MSend \<or> main c = MUnlock) \<and>
     (mutex c = ByStream \<longleftrightarrow> stream c = SHold)"

lemma conc_step_mutex_ok: "conc_step c d \<Longrightarrow> mutex_ok c \<Longrightarrow> mutex_ok d"
  by (erule conc_stepE) (auto simp: mutex_ok_def)

lemma conc_reach_mutex_ok: "conc_reach p c \<Longrightarrow> mutex_ok c"
  by (induction rule: conc_reach.induct)
    (auto simp: mutex_ok_def conc_init_def dest: conc_step_mutex_ok [unfolded mutex_ok_def])

text \<open>Without a clock, a round needs a call: the streaming goroutine never ticks by itself.\<close>

lemma conc_reach_rounds: "conc_reach p c \<Longrightarrow>
  rounds c + (case main c of MIdle \<Rightarrow> 0 | MUnlock \<Rightarrow> 0 | _ \<Rightarrow> 1) \<le> calls c"
  by (induction rule: conc_reach.induct)
    (auto simp: conc_init_def elim!: conc_stepE split: main_pc.splits)

text \<open>Both goroutines blocked: one holds the mutex and waits to signal, the other has taken
  the previous signal and waits for the mutex.\<close>

definition deadlocked :: "conc \<Rightarrow> bool" where
  "deadlocked c \<longleftrightarrow> main c = MSend \<and> stream c = SLock \<and> mutex c = ByMain"

lemma deadlocked_stuck: "deadlocked c \<Longrightarrow> \<not> conc_step c d"
  by (auto simp: deadlocked_def elim: conc_stepE)

lemma two_calls_deadlock: "\<exists>c. conc_reach p c \<and> deadlocked c \<and> calls c = 2 \<and> rounds c = 1"
proof -
  let ?c1 = "(conc_init p)\<lparr>main := MLock 0 [] None None 0, calls := 1\<rparr>"
  let ?p1 = "propagateTransaction p 0 [] None None 0"
  let ?c2 = "?c1\<lparr>main := MSend, mutex := ByMain, cprop := ?p1\<rparr>"
  let ?c3 = "?c2\<lparr>main := MUnlock, stream := SLock, rounds := 1\<rparr>"
  let ?c4 = "?c3\<lparr>main := MIdle, mutex := Free\<rparr>"
  let ?c5 = "?c4\<lparr>main := MLock 0 [] None None 0, calls := 2\<rparr>"
  let ?c6 = "?c5\<lparr>main := MSend, mutex := ByMain, cprop := propagateTransaction ?p1 0 [] None None 0\<rparr>"
  have "conc_step (conc_init p) ?c1"
    using conc_step.call [of "conc_init p" 0 "[]" None None 0] by (simp add: conc_init_def)
  moreover have "conc_step ?c1 ?c2"
    using conc_step.lock [of ?c1 0 "[]" None None 0] by (simp add: conc_init_def)
  moreover have "conc_step ?c2 ?c3"
    using conc_step.signal [of ?c2] by (simp add: conc_init_def)
  moreover have "conc_step ?c3 ?c4"
    using conc_step.unlock [of ?c3] by simp
  moreover have "conc_step ?c4 ?c5"
    using conc_step.call [of ?c4 0 "[]" None None 0] by (simp add: conc_init_def numeral_2_eq_2)
  moreover have "conc_step ?c5 ?c6"
    using conc_step.lock [of ?c5 0 "[]" None None 0] by simp
  ultimately have "conc_reach p ?c6"
    by (meson conc_reach.intros)
  moreover have "deadlocked ?c6 \<and> calls ?c6 = 2 \<and> rounds ?c6 = 1"
    by (simp add: deadlocked_def)
  ultimately show ?thesis by blast
qed

end
