(* ===== verification/Dbnode.thy ===== *)
theory Dbnode
  imports Codec Datastore Lock_Queue Repeater Propagater
begin

text \<open>
  \<open>src/dbnode/dbnode.go\<close>: the state of a database node and its handlers. Every function
  takes the node's state and returns the new one, or the crash of the process. Channels
  the node sends on are logs in the state, in sending order.
\<close>

section \<open>State\<close>

datatype mode =
    idle
  | assemblingQuorum
  | coordinatingRead
  | coordinatingWrite
  | processingRead
  | processingWrite
  | coordinatingFastRead

definition fastReads :: bool where
  "fastReads = True"

text \<open>The asynchronous calls of the \<open>elector.Elector\<close> interface.\<close>

datatype elector_call = ProcessMsg Message | ForwardToLeader Message

text \<open>
  \<open>quorumMembers\<close> is \<open>None\<close> for the nil map. \<open>unlockTxids\<close> holds only true entries: the
  list of their keys. The last four fields are the local variables of the main loop: its
  counter, the heap cells of its message variables, and the pointers that sleeping
  goroutines will deliver to \<open>timedOutLockRequests\<close>.
\<close>

record Dbnode =
  dbid :: int
  numPeers :: int
  readQuorumSize :: int
  writeQuorumSize :: int
  Outgoing :: "Message list"
  currentMode :: mode
  dstore :: Store
  currentTxid :: int
  lockRequests :: queue
  clientRequest :: Message
  quorumMembers :: "(int \<times> Message) list option"
  numWaitingNodes :: int
  requestRepeater :: Repeater
  backgroundWriteDaemon :: "propagater option"
  uncommitedTxid :: "64 word"
  uncommitedKey :: bytes
  unlockTxids :: "int list"
  disabled :: bool
  internalTimer :: "int list"
  electorCalls :: "elector_call list"
  stateQueryRes :: "int list"
  timeoutCounter :: int
  cells :: heap
  lockTimers :: "ptr list"

text \<open>
  What one iteration of the main loop reads from outside: the answer of \<open>elector.Leader()\<close>,
  the result of \<open>rand.Perm(n.numPeers)\<close>, the iteration order of each \<open>range\<close> over a map,
  and the outcomes of the store's system calls.
\<close>

record env =
  leaderAnswer :: int
  peersPerm :: "int list"
  rangeOrder :: "nat \<Rightarrow> order"
  getIO :: iofault
  putIO :: iofault
  commitIO :: iofault
  rollbackIO :: iofault

definition New :: "(byte list \<Rightarrow> byte list) \<Rightarrow> int \<Rightarrow> int \<Rightarrow> bool \<Rightarrow> int \<Rightarrow> int \<Rightarrow> bool \<Rightarrow> Dbnode" where
  "New h n i persistentStore rqs wqs sloppyQuorum =
     \<lparr>dbid = i, numPeers = n - 1, readQuorumSize = rqs, writeQuorumSize = wqs, Outgoing = [],
      currentMode = idle,
      dstore = (if persistentStore then new_Store h ([100, 97, 116, 97, 47] @ itoa i)
                else new_Store h []),
      currentTxid = -1, lockRequests = empty_queue, clientRequest = zeroMessage,
      quorumMembers = None, numWaitingNodes = 0, requestRepeater = new_Repeater n 3,
      backgroundWriteDaemon = (if sloppyQuorum then Some (newPropagater i n rqs) else None),
      uncommitedTxid = 0, uncommitedKey = None, unlockTxids = [], disabled = False,
      internalTimer = [0], electorCalls = [], stateQueryRes = [], timeoutCounter = 0,
      cells = [], lockTimers = []\<rparr>"

section \<open>Sending, and the quorum map\<close>

definition emit :: "Message \<Rightarrow> Dbnode \<Rightarrow> Dbnode" where
  "emit m n = n\<lparr>Outgoing := Outgoing n @ [m]\<rparr>"

definition repeat_send :: "Message \<Rightarrow> bool \<Rightarrow> Dbnode \<Rightarrow> Dbnode res" where
  "repeat_send m unlimited n =
     bind_res (Repeater_Send (requestRepeater n) m unlimited) (\<lambda>r. Inr (n\<lparr>requestRepeater := r\<rparr>))"

definition repeat_ack :: "Message \<Rightarrow> Dbnode \<Rightarrow> Dbnode" where
  "repeat_ack m n = n\<lparr>requestRepeater := Repeater_Ack (requestRepeater n) m\<rparr>"

definition memberList :: "Dbnode \<Rightarrow> (int \<times> Message) list" where
  "memberList n = (case quorumMembers n of None \<Rightarrow> [] | Some ms \<Rightarrow> ms)"

definition member :: "Dbnode \<Rightarrow> int \<Rightarrow> Message" where
  "member n k = get_or zeroMessage (memberList n) k"

definition set_member :: "int \<Rightarrow> Message \<Rightarrow> Dbnode \<Rightarrow> Dbnode res" where
  "set_member k m n =
     (case quorumMembers n of
        None \<Rightarrow> Inl Panic
      | Some ms \<Rightarrow> Inr (n\<lparr>quorumMembers := Some (AList.update k m ms)\<rparr>))"

text \<open>\<open>for node := range n.quorumMembers\<close>; \<open>site\<close> numbers the loops of the source.\<close>

definition range_members :: "env \<Rightarrow> nat \<Rightarrow> Dbnode \<Rightarrow> (int \<times> Message) list" where
  "range_members e site n = go_range (rangeOrder e site) (memberList n)"

text \<open>The loops that send one message to every other member: \<open>mk n node res\<close> is the message.\<close>

definition send_members ::
  "env \<Rightarrow> nat \<Rightarrow> (Dbnode \<Rightarrow> int \<Rightarrow> Message \<Rightarrow> Message) \<Rightarrow> bool \<Rightarrow> Dbnode \<Rightarrow> Dbnode res" where
  "send_members e site mk unlimited n =
     fold_res (\<lambda>(node, res) s. if node = dbid s then Inr s else repeat_send (mk s node res) unlimited s)
       (range_members e site n) n"

definition to_idle :: "Dbnode \<Rightarrow> Dbnode" where
  "to_idle n = n\<lparr>currentMode := idle, currentTxid := -1, quorumMembers := None, numWaitingNodes := 0\<rparr>"

section \<open>Aborting\<close>

definition rollback_uncommitted :: "env \<Rightarrow> Dbnode \<Rightarrow> Dbnode" where
  "rollback_uncommitted e n =
     (if 0 <s uncommitedTxid n
      then n\<lparr>dstore := Store_Rollback (rollbackIO e) (dstore n) (uncommitedTxid n),
             uncommitedTxid := 0, uncommitedKey := None\<rparr>
      else n)"

definition unlock_msg :: "bool \<Rightarrow> Dbnode \<Rightarrow> int \<Rightarrow> Message \<Rightarrow> Message" where
  "unlock_msg ok n node res =
     zeroMessage\<lparr>Id' := Id' (clientRequest n), Src := dbid n, Dest := node,
       DemuxKey := NodeUnlockRequest, Ok := ok\<rparr>"

definition abort_answer :: "Dbnode \<Rightarrow> Dbnode" where
  "abort_answer n =
     (if currentMode n \<in> {assemblingQuorum, coordinatingRead, coordinatingWrite}
      then emit (zeroMessage\<lparr>Id' := Id' (clientRequest n), Src := dbid n, Dest := Src (clientRequest n),
              DemuxKey := (if currentMode n = coordinatingRead then ClientReadResponse else ClientWriteResponse),
              Key := Key (clientRequest n), Value := Value (clientRequest n),
              Timestamp := Timestamp (clientRequest n), Ok := False\<rparr>) n
      else if currentMode n \<in> {processingRead, processingWrite}
      then emit (zeroMessage\<lparr>Id' := Id' (clientRequest n), Src := dbid n, Dest := Src (clientRequest n),
              DemuxKey := NodeUnlockAck, Ok := False\<rparr>) n
      else n)"

definition abortProcessing :: "env \<Rightarrow> Dbnode \<Rightarrow> Dbnode res" where
  "abortProcessing e n =
     bind_res (send_members e 0 (unlock_msg False) True (rollback_uncommitted e n))
       (\<lambda>n1. Inr (to_idle (abort_answer n1)))"

section \<open>Assembling a quorum\<close>

definition add_peer :: "Messagetype \<Rightarrow> int \<Rightarrow> Dbnode \<Rightarrow> Dbnode res" where
  "add_peer requestType peer n =
     (let node = (if peer = dbid n then numPeers n else peer);
          m = zeroMessage\<lparr>Id' := Id' (clientRequest n), Src := dbid n, Dest := node,
                DemuxKey := requestType,
                Key := (if requestType = NodeGetRequest then Key (clientRequest n) else None),
                Value := (if requestType = NodeGetRequest then Value (clientRequest n) else None),
                Ok := True\<rparr>
      in bind_res (set_member node m n) (repeat_send m False))"

definition assembleQuorum :: "env \<Rightarrow> int \<Rightarrow> Messagetype \<Rightarrow> Dbnode \<Rightarrow> Dbnode res" where
  "assembleQuorum e quorumSize requestType n =
     (if quorumSize - 1 < 0 \<or> quorumSize - 1 > int (length (peersPerm e)) then Inl Panic
      else bind_res
        (fold_res (add_peer requestType) (take (nat (quorumSize - 1)) (peersPerm e))
          (n\<lparr>quorumMembers := Some []\<rparr>))
        (\<lambda>n1. bind_res
          (if requestType = NodeLockRequest
           then set_member (dbid n1) (zeroMessage\<lparr>DemuxKey := NodeGetRequest\<rparr>) n1
           else if requestType = NodeLockRequestNoTimeout
           then set_member (dbid n1) (zeroMessage\<lparr>DemuxKey := NodeTimestampRequest\<rparr>) n1
           else Inr n1)
          (\<lambda>n2. Inr (n2\<lparr>numWaitingNodes := quorumSize - 1\<rparr>))))"

section \<open>Continuing a transaction as its coordinator\<close>

text \<open>The fold of the read loops: a strictly newer answer replaces the value.\<close>

definition newer :: "64 word \<times> bytes \<Rightarrow> Message \<Rightarrow> 64 word \<times> bytes" where
  "newer tv m = (if Timestamp m > fst tv then (Timestamp m, Value m) else tv)"

definition read_answer :: "Dbnode \<Rightarrow> 64 word \<times> bytes \<Rightarrow> Message" where
  "read_answer n tv =
     zeroMessage\<lparr>Id' := Id' (clientRequest n), Src := dbid n, Dest := Src (clientRequest n),
       DemuxKey := ClientReadResponse, Key := Key (clientRequest n), Value := snd tv,
       Timestamp := fst tv, Ok := True\<rparr>"

definition continueFastRead :: "env \<Rightarrow> Dbnode \<Rightarrow> Dbnode res" where
  "continueFastRead e n =
     (if quorumMembers n = None then assembleQuorum e (readQuorumSize n) NodeGetRequest n
      else bind_res (Store_Get (getIO e) (dstore n) (Key (clientRequest n))) (\<lambda>(localVal, err).
        if err then abortProcessing e n
        else bind_res (decodeTimestampVal localVal) (\<lambda>tv.
          Inr (to_idle (emit
            (read_answer n (foldl newer tv (map snd (range_members e 1 n)))) n)))))"

definition get_request_msg :: "Dbnode \<Rightarrow> int \<Rightarrow> Message \<Rightarrow> Message" where
  "get_request_msg n node res =
     zeroMessage\<lparr>Id' := currentTxid n, Src := dbid n, Dest := node, DemuxKey := NodeGetRequest,
       Key := Key (clientRequest n), Ok := True\<rparr>"

text \<open>
  One pass of the loop of \<open>coordinatingRead\<close> that decodes an answer and unlocks its node;
  the accumulator is the node's state with the timestamp and value found so far.
\<close>

definition read_unlock ::
  "int \<times> Message \<Rightarrow> Dbnode \<times> 64 word \<times> bytes \<Rightarrow> (Dbnode \<times> 64 word \<times> bytes) res" where
  "read_unlock = (\<lambda>(node, res) (n, tv).
     if node = dbid n then Inr (n, tv)
     else bind_res (decodeTimestampVal (Value res)) (\<lambda>(t, v).
       bind_res (repeat_send (zeroMessage\<lparr>Id' := Id' res, Src := dbid n, Dest := node,
           DemuxKey := NodeUnlockRequest, Ok := True\<rparr>) True n) (\<lambda>n1.
         Inr (n1, if t > fst tv then (t, v) else tv))))"

definition continueRead :: "env \<Rightarrow> Dbnode \<Rightarrow> Dbnode res" where
  "continueRead e n =
     (if quorumMembers n = None then assembleQuorum e (readQuorumSize n) NodeLockRequest n
      else if DemuxKey (member n (dbid n)) = NodeGetRequest
      then bind_res (send_members e 2 get_request_msg False n) (\<lambda>n1.
             bind_res (set_member (dbid n1) (zeroMessage\<lparr>DemuxKey := NodeUnlockRequest\<rparr>) n1) (\<lambda>n2.
               Inr (n2\<lparr>numWaitingNodes := readQuorumSize n2 - 1\<rparr>)))
      else if DemuxKey (member n (dbid n)) = NodeUnlockRequest
      then bind_res (Store_Get (getIO e) (dstore n) (Key (clientRequest n))) (\<lambda>(localVal, err).
             if err then abortProcessing e n
             else bind_res (decodeTimestampVal localVal) (\<lambda>tv0.
               bind_res (fold_res read_unlock (range_members e 3 n) (n, tv0)) (\<lambda>(n1, tv).
                 Inr (to_idle (emit (read_answer n1 tv) n1)))))
      else Inl Fatal)"

definition timestamp_request_msg :: "Dbnode \<Rightarrow> int \<Rightarrow> Message \<Rightarrow> Message" where
  "timestamp_request_msg n node res =
     zeroMessage\<lparr>Id' := Id' (clientRequest n), Src := dbid n, Dest := node,
       DemuxKey := NodeTimestampRequest, Key := Key (clientRequest n), Ok := True\<rparr>"

text \<open>The latest timestamp among the local value and the answers of the other members.\<close>

definition latest_timestamp :: "int \<Rightarrow> 64 word \<Rightarrow> (int \<times> Message) list \<Rightarrow> 64 word" where
  "latest_timestamp self t0 ms =
     foldl (\<lambda>t (node, m). if node = self then t else if Timestamp m > t then Timestamp m else t) t0 ms"

definition put_request_msg :: "64 word \<Rightarrow> Dbnode \<Rightarrow> int \<Rightarrow> Message \<Rightarrow> Message" where
  "put_request_msg ts n node res =
     zeroMessage\<lparr>Id' := Id' (clientRequest n), Src := dbid n, Dest := node,
       DemuxKey := NodePutRequest, Key := Key (clientRequest n), Value := Value (clientRequest n),
       Timestamp := ts, Ok := True\<rparr>"

text \<open>The write's first step: ask every locked member for its timestamp.\<close>

definition write_ask :: "env \<Rightarrow> Dbnode \<Rightarrow> Dbnode res" where
  "write_ask e n =
     bind_res (send_members e 4 timestamp_request_msg True n) (\<lambda>n1.
       bind_res (set_member (dbid n1) (zeroMessage\<lparr>DemuxKey := NodePutRequest\<rparr>) n1) (\<lambda>n2.
         Inr (n2\<lparr>numWaitingNodes := writeQuorumSize n2 - 1\<rparr>)))"

text \<open>The second step: stage the value locally with the next timestamp and send it.\<close>

definition write_put :: "env \<Rightarrow> Dbnode \<Rightarrow> Dbnode res" where
  "write_put e n =
     bind_res (Store_Get (getIO e) (dstore n) (Key (clientRequest n))) (\<lambda>(localVal, err).
       if err then abortProcessing e n
       else bind_res
         (if length (raw localVal) > 0 then decodeTimestampVal localVal else Inr (0, None))
         (\<lambda>(t0, _).
           let latest = latest_timestamp (dbid n) t0 (range_members e 5 n)
           in if DemuxKey (clientRequest n) = ClientStrongWriteRequest \<and>
                 Timestamp (clientRequest n) \<noteq> latest + 1
              then abortProcessing e
                     (n\<lparr>clientRequest := (clientRequest n)\<lparr>Timestamp := latest + 1\<rparr>\<rparr>)
              else bind_res
                (Store_Put (putIO e) (dstore n) (Key (clientRequest n))
                  (encodeTimestampVal (latest + 1) (Value (clientRequest n))))
                (\<lambda>(st, tx).
                  let n1 = n\<lparr>dstore := st, uncommitedTxid := tx,
                             uncommitedKey := Key (clientRequest n)\<rparr>
                  in bind_res (send_members e 6 (put_request_msg (latest + 1)) True n1) (\<lambda>n2.
                       bind_res (set_member (dbid n2)
                         (zeroMessage\<lparr>DemuxKey := NodeUnlockRequest, Timestamp := latest + 1\<rparr>) n2)
                         (\<lambda>n3. Inr (n3\<lparr>numWaitingNodes := writeQuorumSize n3 - 1\<rparr>))))))"

text \<open>The last step: commit locally, release the members, answer, start propagation.\<close>

definition write_commit :: "env \<Rightarrow> Dbnode \<Rightarrow> Dbnode res" where
  "write_commit e n =
     (case Store_Commit (commitIO e) (dstore n) (uncommitedKey n) (uncommitedTxid n) of
        (st, ok) \<Rightarrow>
          let n0 = n\<lparr>dstore := st\<rparr>
          in if \<not> ok then abortProcessing e n0
             else let n1 = n0\<lparr>uncommitedKey := None, uncommitedTxid := 0\<rparr>
             in bind_res (send_members e 7 (unlock_msg True) True n1) (\<lambda>n2.
                  let ts = Timestamp (member n2 (dbid n2));
                      n3 = emit (zeroMessage\<lparr>Id' := Id' (clientRequest n2), Src := dbid n2,
                             Dest := Src (clientRequest n2), DemuxKey := ClientWriteResponse,
                             Key := Key (clientRequest n2), Value := Value (clientRequest n2),
                             Timestamp := ts, Ok := True\<rparr>) n2;
                      n4 = n3\<lparr>backgroundWriteDaemon := map_option
                             (\<lambda>p. propagateTransaction p (Id' (clientRequest n3)) (map fst (memberList n3))
                                (Key (clientRequest n3)) (Value (clientRequest n3)) ts)
                             (backgroundWriteDaemon n3)\<rparr>
                  in Inr (to_idle n4)))"

definition continueWrite :: "env \<Rightarrow> Dbnode \<Rightarrow> Dbnode res" where
  "continueWrite e n =
     (case DemuxKey (member n (dbid n)) of
        NodeTimestampRequest \<Rightarrow> write_ask e n
      | NodePutRequest \<Rightarrow> write_put e n
      | NodeUnlockRequest \<Rightarrow> write_commit e n
      | _ \<Rightarrow> Inr n)"

definition continueProcessing :: "env \<Rightarrow> Dbnode \<Rightarrow> Dbnode res" where
  "continueProcessing e n =
     (case currentMode n of
        coordinatingFastRead \<Rightarrow> continueFastRead e n
      | coordinatingRead \<Rightarrow> continueRead e n
      | coordinatingWrite \<Rightarrow> continueWrite e n
      | assemblingQuorum \<Rightarrow>
          if quorumMembers n = None
          then assembleQuorum e (writeQuorumSize n) NodeLockRequestNoTimeout n
          else continueWrite e (n\<lparr>currentMode := coordinatingWrite\<rparr>)
      | _ \<Rightarrow> Inr n)"

end
