(* ===== verification/Dbnode_Loop.thy ===== *)
theory Dbnode_Loop
  imports Dbnode
begin

text \<open>
  \<open>src/dbnode/dbnode.go\<close>, continued: the handlers of the message types and the main loop,
  one iteration of which is \<open>handleRequests_step\<close>.
\<close>

section \<open>Local reads and writes (quorum size 1)\<close>

definition processLocalRead :: "env \<Rightarrow> Message \<Rightarrow> Dbnode \<Rightarrow> Dbnode res" where
  "processLocalRead e msg n =
     (if length (raw (uncommitedKey n)) > 0 then Inr (emit msg n)
      else bind_res (Store_Get (getIO e) (dstore n) (Key msg)) (\<lambda>(val, err).
        if err
        then Inr (emit (zeroMessage\<lparr>Id' := Id' msg, Src := dbid n, Dest := Src msg,
               DemuxKey := ClientReadResponse, Key := Key msg, Ok := False\<rparr>) n)
        else bind_res (decodeTimestampVal val) (\<lambda>(timestamp, v).
          Inr (emit (zeroMessage\<lparr>Id' := Id' msg, Src := dbid n, Dest := Src msg,
               DemuxKey := ClientReadResponse, Key := Key msg, Value := v,
               Timestamp := timestamp, Ok := True\<rparr>) n))))"

definition local_write_answer :: "Message \<Rightarrow> Dbnode \<Rightarrow> bytes \<Rightarrow> 64 word \<Rightarrow> bool \<Rightarrow> Message" where
  "local_write_answer msg n val ts ok =
     zeroMessage\<lparr>Id' := Id' msg, Src := dbid n, Dest := Src msg, DemuxKey := ClientWriteResponse,
       Key := Key msg, Value := val, Timestamp := ts, Ok := ok\<rparr>"

definition processLocalWrite :: "env \<Rightarrow> Message \<Rightarrow> Dbnode \<Rightarrow> Dbnode res" where
  "processLocalWrite e msg n =
     (if length (raw (uncommitedKey n)) > 0 then Inr (emit msg n)
      else bind_res (Store_Get (getIO e) (dstore n) (Key msg)) (\<lambda>(oldVal, err).
        if err then Inr (emit (local_write_answer msg n (Value msg) 0 False) n)
        else bind_res (decodeTimestampVal oldVal) (\<lambda>(t, old).
          let timestamp = t + 1
          in if timestamp \<noteq> Timestamp msg \<and> DemuxKey msg = ClientStrongWriteRequest
             then Inr (emit (local_write_answer msg n old timestamp False) n)
             else bind_res
               (Store_Put (putIO e) (dstore n) (Key msg) (encodeTimestampVal timestamp (Value msg)))
               (\<lambda>(st, tx).
                 case Store_Commit (commitIO e) st (Key msg) tx of
                   (st', ok) \<Rightarrow> Inr (emit (local_write_answer msg n (Value msg) timestamp ok)
                                   (n\<lparr>dstore := st'\<rparr>))))))"

section \<open>Answers of quorum members\<close>

text \<open>The common tail of the response handlers: count an answer once per node and type.\<close>

definition count_answer :: "env \<Rightarrow> Message \<Rightarrow> Dbnode \<Rightarrow> Dbnode res" where
  "count_answer e msg n =
     (if \<not> Ok msg then abortProcessing e n
      else if DemuxKey (member n (Src msg)) \<noteq> DemuxKey msg
      then bind_res (set_member (Src msg) msg n) (\<lambda>n1.
             let n2 = n1\<lparr>numWaitingNodes := numWaitingNodes n1 - 1\<rparr>
             in if numWaitingNodes n2 = 0 then continueProcessing e n2 else Inr n2)
      else Inr n)"

definition handleLockRes :: "env \<Rightarrow> Message \<Rightarrow> Dbnode \<Rightarrow> Dbnode res" where
  "handleLockRes e msg n0 =
     (let n = repeat_ack msg n0
      in if currentTxid n = Id' msg \<and> currentMode n \<in> {coordinatingRead, assemblingQuorum}
         then count_answer e msg n
         else if Ok msg
         then repeat_send (zeroMessage\<lparr>Id' := Id' msg, Src := dbid n, Dest := Src msg,
                DemuxKey := NodeUnlockRequest, Ok := False\<rparr>) True n
         else Inr n)"

definition handleGetRes :: "env \<Rightarrow> Message \<Rightarrow> Dbnode \<Rightarrow> Dbnode res" where
  "handleGetRes e msg n0 =
     (let n = repeat_ack msg n0
      in if currentTxid n = Id' msg \<and>
            currentMode n \<in> {coordinatingRead, coordinatingWrite, coordinatingFastRead}
         then count_answer e msg n
         else Inr n)"

definition handlePutRes :: "env \<Rightarrow> Message \<Rightarrow> Dbnode \<Rightarrow> Dbnode res" where
  "handlePutRes e msg n0 =
     (let n = repeat_ack msg n0
      in if currentTxid n = Id' msg \<and> currentMode n = coordinatingWrite
         then count_answer e msg n
         else Inr n)"

definition handleUnlockAck :: "Message \<Rightarrow> Dbnode \<Rightarrow> Dbnode" where
  "handleUnlockAck msg n = repeat_ack msg n"

section \<open>Requests from a coordinator\<close>

definition handleUnlockReq :: "env \<Rightarrow> Message \<Rightarrow> Dbnode \<Rightarrow> Dbnode" where
  "handleUnlockReq e msg n =
     (let n1 = (if currentTxid n = Id' msg \<and> 0 <s uncommitedTxid n \<and> Ok msg
                then n\<lparr>dstore := fst (Store_Commit (commitIO e) (dstore n) (uncommitedKey n) (uncommitedTxid n)),
                       uncommitedKey := None, uncommitedTxid := 0\<rparr>
                else n);
          n2 = (if currentTxid n1 = Id' msg then n1\<lparr>currentMode := idle, currentTxid := -1\<rparr> else n1);
          n3 = n2\<lparr>unlockTxids := List.insert (Id' msg) (unlockTxids n2)\<rparr>
      in emit (zeroMessage\<lparr>Id' := Id' msg, Src := dbid n, Dest := Src msg,
           DemuxKey := NodeUnlockAck, Ok := True\<rparr>) n3)"

definition get_answer :: "Message \<Rightarrow> Dbnode \<Rightarrow> bytes \<Rightarrow> 64 word \<Rightarrow> bool \<Rightarrow> Message" where
  "get_answer msg n val ts ok =
     zeroMessage\<lparr>Id' := Id' msg, Src := dbid n, Dest := Src msg, DemuxKey := NodeGetResponse,
       Key := Key msg, Value := val, Timestamp := ts, Ok := ok\<rparr>"

definition handleGetReq :: "env \<Rightarrow> Message \<Rightarrow> Dbnode \<Rightarrow> Dbnode res" where
  "handleGetReq e msg n =
     (if currentMode n = processingRead \<and> currentTxid n = Id' msg \<or> fastReads \<and> uncommitedKey n = None
      then bind_res (Store_Get (getIO e) (dstore n) (Key msg)) (\<lambda>(val, err).
             if err then Inr (emit (get_answer msg n val 0 False) n)
             else bind_res (decodeTimestampVal val) (\<lambda>(timestamp, v).
               Inr (emit (get_answer msg n v timestamp True) n)))
      else Inr (emit (get_answer msg n None 0 False) n))"

definition put_answer :: "Message \<Rightarrow> Dbnode \<Rightarrow> bool \<Rightarrow> Message" where
  "put_answer msg n ok =
     zeroMessage\<lparr>Id' := Id' msg, Src := dbid n, Dest := Src msg, DemuxKey := NodePutResponse,
       Key := Key msg, Value := Value msg, Timestamp := Timestamp msg, Ok := ok\<rparr>"

definition handlePutReq :: "env \<Rightarrow> Message \<Rightarrow> Dbnode \<Rightarrow> Dbnode res" where
  "handlePutReq e msg n =
     (if currentMode n = processingWrite \<and> currentTxid n = Id' msg
      then bind_res
        (Store_Put (putIO e) (dstore n) (Key msg) (encodeTimestampVal (Timestamp msg) (Value msg)))
        (\<lambda>(st, tx).
          let n1 = n\<lparr>dstore := st, uncommitedTxid := tx\<rparr>
          in if 0 <s tx then Inr (emit (put_answer msg n True) (n1\<lparr>uncommitedKey := Key msg\<rparr>))
             else Inr (emit (put_answer msg n False) n1))
      else Inr (emit (put_answer msg n False) n))"

text \<open>The error of \<open>Get\<close> is dropped here, as in the source: the value is then nil.\<close>

definition handleTimestampReq :: "env \<Rightarrow> Message \<Rightarrow> Dbnode \<Rightarrow> Dbnode res" where
  "handleTimestampReq e msg n =
     (if currentMode n = processingWrite \<and> currentTxid n = Id' msg
      then bind_res (Store_Get (getIO e) (dstore n) (Key msg)) (\<lambda>(val, _).
             bind_res (decodeTimestampVal val) (\<lambda>(timestamp, _).
               Inr (emit (get_answer msg n None timestamp True) n)))
      else Inr (emit (get_answer msg n None 0 True) n))"

section \<open>Background writes\<close>

text \<open>Storing a value that is newer than the one stored; equal timestamps must agree.\<close>

definition merge_write :: "env \<Rightarrow> Message \<Rightarrow> 64 word \<Rightarrow> bytes \<Rightarrow> Dbnode \<Rightarrow> Dbnode res" where
  "merge_write e msg currentTimestamp currentVal n =
     (if Timestamp msg = currentTimestamp \<and> \<not> bytes_Equal currentVal (Value msg) then Inl Fatal
      else if Timestamp msg > currentTimestamp
      then bind_res
        (Store_Put (putIO e) (dstore n) (Key msg) (encodeTimestampVal (Timestamp msg) (Value msg)))
        (\<lambda>(st, tx). Inr (n\<lparr>dstore := fst (Store_Commit (commitIO e) st (Key msg) tx)\<rparr>))
      else Inr n)"

definition background_answer :: "Message \<Rightarrow> Dbnode \<Rightarrow> bytes \<Rightarrow> 64 word \<Rightarrow> bool \<Rightarrow> Message" where
  "background_answer msg n val ts ok =
     zeroMessage\<lparr>Id' := Id' msg, Src := dbid n, Dest := Src msg,
       DemuxKey := NodeBackgroundWriteResponse, Key := Key msg, Value := val, Timestamp := ts, Ok := ok\<rparr>"

definition handleBackgroundWriteReq :: "env \<Rightarrow> Message \<Rightarrow> Dbnode \<Rightarrow> Dbnode res" where
  "handleBackgroundWriteReq e msg n =
     bind_res (Store_Get (getIO e) (dstore n) (Key msg)) (\<lambda>(cur, _).
       bind_res (decodeTimestampVal cur) (\<lambda>(currentTimestamp, currentVal).
         bind_res (merge_write e msg currentTimestamp currentVal n) (\<lambda>n1.
           Inr (emit (if Timestamp msg \<ge> currentTimestamp
                      then background_answer msg n (Value msg) (Timestamp msg) True
                      else background_answer msg n currentVal currentTimestamp False) n1))))"

text \<open>A response without a propagater dereferences a nil pointer.\<close>

definition handleBackgroundWriteRes :: "env \<Rightarrow> Message \<Rightarrow> Dbnode \<Rightarrow> Dbnode res" where
  "handleBackgroundWriteRes e msg n =
     bind_res (case backgroundWriteDaemon n of None \<Rightarrow> Inl Panic | Some p \<Rightarrow> response p msg) (\<lambda>p.
       let n1 = n\<lparr>backgroundWriteDaemon := Some p\<rparr>
       in if \<not> Ok msg
          then bind_res (Store_Get (getIO e) (dstore n1) (Key msg)) (\<lambda>(cur, _).
                 bind_res (decodeTimestampVal cur) (\<lambda>(currentTimestamp, currentVal).
                   merge_write e msg currentTimestamp currentVal n1))
          else Inr n1)"

section \<open>The main loop\<close>

definition cleanUnlockTxids :: "Dbnode \<Rightarrow> Dbnode" where
  "cleanUnlockTxids n =
     (let threshold = foldl (\<lambda>t i. if i > t then i else t) 0 (unlockTxids n) - 50
      in n\<lparr>unlockTxids := filter (\<lambda>i. \<not> i < threshold) (unlockTxids n)\<rparr>)"

definition enqueue_request :: "ptr \<Rightarrow> Dbnode \<Rightarrow> Dbnode" where
  "enqueue_request p n =
     n\<lparr>lockRequests := enqueue (lockRequests n) p, lockTimers := lockTimers n @ [p]\<rparr>"

text \<open>The switch over the message type; \<open>p\<close> is the address of the message variable.\<close>

definition dispatch :: "env \<Rightarrow> ptr \<Rightarrow> Message \<Rightarrow> Dbnode \<Rightarrow> Dbnode res" where
  "dispatch e p msg n =
     (case DemuxKey msg of
        ClientWriteRequest \<Rightarrow>
          if writeQuorumSize n = 1 then processLocalWrite e msg n
          else if leaderAnswer e = dbid n then Inr (enqueue_request p n)
          else Inr (n\<lparr>electorCalls := electorCalls n @ [ForwardToLeader msg]\<rparr>)
      | ClientStrongWriteRequest \<Rightarrow>
          if writeQuorumSize n = 1 then processLocalWrite e msg n
          else if leaderAnswer e = dbid n then Inr (enqueue_request p n)
          else Inr (n\<lparr>electorCalls := electorCalls n @ [ForwardToLeader msg]\<rparr>)
      | ClientReadRequest \<Rightarrow>
          if readQuorumSize n = 1 then processLocalRead e msg n else Inr (enqueue_request p n)
      | NodeLockRequest \<Rightarrow> Inr (enqueue_request p n)
      | NodeLockRequestNoTimeout \<Rightarrow> Inr (enqueue_request p n)
      | NodeLockResponse \<Rightarrow> handleLockRes e msg n
      | NodeUnlockRequest \<Rightarrow> Inr (handleUnlockReq e msg n)
      | NodeUnlockAck \<Rightarrow> Inr (handleUnlockAck msg n)
      | NodeGetRequest \<Rightarrow> handleGetReq e msg n
      | NodeGetResponse \<Rightarrow> handleGetRes e msg n
      | NodePutRequest \<Rightarrow> handlePutReq e msg n
      | NodePutResponse \<Rightarrow> handlePutRes e msg n
      | NodeTimestampRequest \<Rightarrow> handleTimestampReq e msg n
      | NodeBackgroundWriteRequest \<Rightarrow> handleBackgroundWriteReq e msg n
      | NodeBackgroundWriteResponse \<Rightarrow> handleBackgroundWriteRes e msg n
      | InternalTimerSignal \<Rightarrow> Inr n
      | ElectionElect \<Rightarrow> Inr (n\<lparr>timeoutCounter := timeoutCounter n - 1,
            electorCalls := electorCalls n @ [ProcessMsg msg]\<rparr>)
      | ElectionCoordinator \<Rightarrow> Inr (n\<lparr>timeoutCounter := timeoutCounter n - 1,
            electorCalls := electorCalls n @ [ProcessMsg msg]\<rparr>)
      | ElectionAck \<Rightarrow> Inr (n\<lparr>timeoutCounter := timeoutCounter n - 1,
            electorCalls := electorCalls n @ [ProcessMsg msg]\<rparr>)
      | _ \<Rightarrow> Inl Fatal)"

definition lock_answer :: "Message \<Rightarrow> Dbnode \<Rightarrow> Message" where
  "lock_answer msg n =
     zeroMessage\<lparr>Id' := Id' msg, Src := dbid n, Dest := Src msg, DemuxKey := NodeLockResponse,
       Ok := True\<rparr>"

definition start_transaction :: "env \<Rightarrow> Message \<Rightarrow> Dbnode \<Rightarrow> Dbnode res" where
  "start_transaction e msg n0 =
     (let n = n0\<lparr>currentTxid := Id' msg, clientRequest := msg\<rparr>
      in case DemuxKey msg of
           ClientReadRequest \<Rightarrow>
             continueProcessing e
               (n\<lparr>currentMode := (if fastReads then coordinatingFastRead else coordinatingRead)\<rparr>)
         | ClientWriteRequest \<Rightarrow> continueProcessing e (n\<lparr>currentMode := assemblingQuorum\<rparr>)
         | ClientStrongWriteRequest \<Rightarrow> continueProcessing e (n\<lparr>currentMode := assemblingQuorum\<rparr>)
         | NodeLockRequest \<Rightarrow> Inr (emit (lock_answer msg n) (n\<lparr>currentMode := processingRead\<rparr>))
         | NodeLockRequestNoTimeout \<Rightarrow> Inr (emit (lock_answer msg n) (n\<lparr>currentMode := processingWrite\<rparr>))
         | _ \<Rightarrow> Inl Fatal)"

text \<open>
  The end of an iteration: \<open>msg = *n.lockRequests.dequeue()\<close> writes the dequeued message
  into the message variable of this iteration, the cell \<open>p\<close>.
\<close>

definition serve :: "env \<Rightarrow> ptr \<Rightarrow> Dbnode \<Rightarrow> Dbnode res" where
  "serve e p n =
     (if currentMode n = idle \<and> \<not> queue_empty (lockRequests n)
      then bind_res (dequeue (lockRequests n)) (\<lambda>(q, rest).
             bind_res (deref (cells n) q) (\<lambda>m.
               let n1 = n\<lparr>lockRequests := rest, cells := (cells n)[p := m]\<rparr>
               in if Id' m \<in> set (unlockTxids n1) then Inr n1 else start_transaction e m n1))
      else Inr n)"

definition recover_node :: "Dbnode \<Rightarrow> Dbnode" where
  "recover_node n =
     n\<lparr>disabled := False, timeoutCounter := 0, internalTimer := internalTimer n @ [0],
       requestRepeater := Repeater_Recover (requestRepeater n),
       electorCalls := electorCalls n @ [ProcessMsg (zeroMessage\<lparr>DemuxKey := ControlRecover\<rparr>)]\<rparr>"

definition fail_node :: "Dbnode \<Rightarrow> Dbnode" where
  "fail_node n =
     (let n1 = n\<lparr>disabled := True, requestRepeater := Repeater_Fail (requestRepeater n),
               electorCalls := electorCalls n @ [ProcessMsg (zeroMessage\<lparr>DemuxKey := ControlFail\<rparr>)]\<rparr>
      in if currentMode n1 \<noteq> coordinatingWrite \<and> currentMode n1 \<noteq> assemblingQuorum
         then n1\<lparr>currentMode := idle, currentTxid := -1, clientRequest := zeroMessage,
                 quorumMembers := None\<rparr>
         else n1)"

definition on_timer :: "env \<Rightarrow> Message \<Rightarrow> Dbnode \<Rightarrow> Dbnode res" where
  "on_timer e msg n =
     (if DemuxKey msg = InternalTimerSignal
      then bind_res
        (if Id' msg = timeoutCounter n \<and>
            currentMode n \<in> {coordinatingRead, coordinatingWrite, assemblingQuorum, processingRead}
         then abortProcessing e n else Inr n)
        (\<lambda>n1. Inr (n1\<lparr>internalTimer := internalTimer n1 @ [timeoutCounter n1]\<rparr>))
      else Inr (n\<lparr>timeoutCounter := timeoutCounter n + 1\<rparr>))"

definition on_incoming :: "env \<Rightarrow> Message \<Rightarrow> Dbnode \<Rightarrow> Dbnode res" where
  "on_incoming e msg n0 =
     (let (p, h) = alloc msg (cells n0); n = n0\<lparr>cells := h\<rparr>
      in if disabled n \<or> DemuxKey msg = ControlRecover
         then Inr (if disabled n \<and> DemuxKey msg = ControlRecover then recover_node n else n)
         else if DemuxKey msg = ControlFail then Inr (fail_node n)
         else if Dest msg \<noteq> dbid n then Inl Fatal
         else bind_res (on_timer e msg n) (\<lambda>n1.
           let n2 = (if DemuxKey msg = ElectionElect then cleanUnlockTxids n1 else n1)
           in bind_res (dispatch e p msg n2) (serve e p)))"

definition client_request_type :: "Messagetype \<Rightarrow> bool" where
  "client_request_type k \<longleftrightarrow> k \<in> {ClientReadRequest, ClientWriteRequest, ClientStrongWriteRequest}"

definition timeout_answer :: "Message \<Rightarrow> Dbnode \<Rightarrow> Message" where
  "timeout_answer msg n =
     zeroMessage\<lparr>Id' := Id' msg, Src := dbid n, Dest := Src msg,
       DemuxKey := (if DemuxKey msg = ClientReadRequest then ClientReadResponse
                    else if DemuxKey msg \<in> {ClientWriteRequest, ClientStrongWriteRequest}
                    then ClientWriteResponse else NodeLockResponse),
       Key := Key msg, Value := Value msg, Ok := False\<rparr>"

definition on_lock_timeout :: "env \<Rightarrow> ptr \<Rightarrow> Dbnode \<Rightarrow> Dbnode res" where
  "on_lock_timeout e p n =
     (if disabled n then Inr n
      else let (q, found) = queue_remove (lockRequests n) p
      in bind_res (deref (cells n) p) (\<lambda>msg.
           if found then Inr (emit (timeout_answer msg n) (n\<lparr>lockRequests := q\<rparr>))
           else if Id' msg = currentTxid n \<and> client_request_type (DemuxKey msg)
           then abortProcessing e n
           else Inr n))"

datatype event = Incoming Message | TimedOutLockRequest ptr | StateQueryReq

fun handleRequests_step :: "env \<Rightarrow> event \<Rightarrow> Dbnode \<Rightarrow> Dbnode res" where
  "handleRequests_step e (Incoming msg) n = on_incoming e msg n"
| "handleRequests_step e (TimedOutLockRequest p) n = on_lock_timeout e p n"
| "handleRequests_step e StateQueryReq n = Inr (n\<lparr>stateQueryRes := stateQueryRes n @ [currentTxid n]\<rparr>)"

definition handleRequests_run :: "(env \<times> event) list \<Rightarrow> Dbnode \<Rightarrow> Dbnode res" where
  "handleRequests_run = fold_res (\<lambda>(e, ev). handleRequests_step e ev)"

text \<open>The messages of \<open>setInternalTimer\<close>: a counter value comes back to the node as a signal.\<close>

definition timer_signal :: "Dbnode \<Rightarrow> int \<Rightarrow> Message" where
  "timer_signal n c =
     zeroMessage\<lparr>Id' := c, Src := dbid n, Dest := dbid n, DemuxKey := InternalTimerSignal\<rparr>"

end
