(* ===== verification/Dbnode_Data.thy ===== *)
theory Dbnode_Data
  imports Dbnode_Loop
begin

text \<open>
  The data a node serves: for every key a timestamp and a value, read off its store. What
  the local operations and the background writes do to it, for either store.
\<close>

section \<open>Entries\<close>

definition entry :: "byte list \<Rightarrow> 64 word \<times> byte list" where
  "entry c = (if c = [] then (0, []) else (get_be (take 8 c), drop 8 c))"

definition lookup :: "Dbnode \<Rightarrow> byte list \<Rightarrow> 64 word \<times> byte list" where
  "lookup n k = entry (store_content (dstore n) k)"

text \<open>A sound store in which every stored value carries a timestamp.\<close>

definition node_ok :: "Dbnode \<Rightarrow> bool" where
  "node_ok n \<longleftrightarrow> store_invar (dstore n) \<and> (\<forall>k. decodable (Some (store_content (dstore n) k)))"

definition calm :: "env \<Rightarrow> bool" where
  "calm e \<longleftrightarrow> getIO e = no_fault \<and> putIO e = no_fault \<and> commitIO e = no_fault \<and> rollbackIO e = no_fault"

definition fits :: "bytes \<Rightarrow> bytes \<Rightarrow> bool" where
  "fits k v \<longleftrightarrow> length (raw k) + 4 < 2 ^ 32 \<and> length (raw v) + 12 < 2 ^ 32"

lemma fits_disk: "fits k v \<Longrightarrow> disk_fits k (encodeTimestampVal ts v)"
  by (simp add: fits_def disk_fits_def small_def encode_length)

lemma entry_encode [simp]: "entry (raw (encodeTimestampVal ts v)) = (ts, raw v)"
proof -
  have "put_be 8 ts \<noteq> []" by (metis length_put_be list.size(3) zero_neq_numeral)
  then show ?thesis by (simp add: entry_def encode_raw get_put_be)
qed

lemma decode_entry:
  assumes "decodable x"
  shows "\<exists>v. decodeTimestampVal x = Inr (fst (entry (raw x)), v) \<and> raw v = snd (entry (raw x))"
  using assms by (auto simp: decodable_def decodeTimestampVal_def entry_def)

lemma node_ok_New: "node_ok (New h n i b rqs wqs s)" "lookup (New h n i b rqs wqs s) k = (0, [])"
  by (simp_all add: node_ok_def New_def lookup_def entry_def decodable_def)

lemma Get_lookup:
  assumes "node_ok n" "calm e"
  obtains x v where "Store_Get (getIO e) (dstore n) k = Inr (x, False)"
    "decodeTimestampVal x = Inr (fst (lookup n (raw k)), v)" "raw v = snd (lookup n (raw k))"
    "raw x = store_content (dstore n) (raw k)"
proof -
  obtain x where x: "Store_Get no_fault (dstore n) k = Inr (x, False)"
    "raw x = store_content (dstore n) (raw k)"
    using store.Get_content [of "dstore n" k] assms(1) by (auto simp: node_ok_def)
  have "decodable x"
    using assms(1) x(2) by (auto simp: node_ok_def decodable_def)
  from decode_entry [OF this] obtain v where
    "decodeTimestampVal x = Inr (fst (lookup n (raw k)), v)" "raw v = snd (lookup n (raw k))"
    by (auto simp: lookup_def x(2))
  then show thesis using that x assms(2) by (simp add: calm_def)
qed

text \<open>Staging and committing an encoded value at once.\<close>

lemma write_lookup:
  assumes "node_ok n" "calm e" "fits k v"
  obtains st tx st' where
    "Store_Put (putIO e) (dstore n) k (encodeTimestampVal ts v) = Inr (st, tx)"
    "Store_Commit (commitIO e) st k tx = (st', True)"
    "node_ok (n\<lparr>dstore := st'\<rparr>)"
    "lookup (n\<lparr>dstore := st'\<rparr>) = (lookup n)(raw k := (ts, raw v))"
proof -
  have inv: "store_invar (dstore n)" and f: "disk_fits k (encodeTimestampVal ts v)"
    using assms by (simp_all add: node_ok_def fits_disk)
  obtain st tx where p: "Store_Put no_fault (dstore n) k (encodeTimestampVal ts v) = Inr (st, tx)"
    using store.Put_total [OF inv f] by blast
  obtain st' where c: "Store_Commit no_fault st k tx = (st', True)" "store_invar st'"
    "store_content st' = (store_content (dstore n))(raw k := raw (encodeTimestampVal ts v))"
    using store.Put_Commit [OF inv f p] by blast
  have "node_ok (n\<lparr>dstore := st'\<rparr>)"
    using assms(1) c(2,3) by (auto simp: node_ok_def decodable_def encode_length)
  moreover have "lookup (n\<lparr>dstore := st'\<rparr>) = (lookup n)(raw k := (ts, raw v))"
    by (auto simp: lookup_def c(3) fun_eq_iff)
  ultimately show thesis
    using that p c(1) assms(2) by (simp add: calm_def)
qed

text \<open>Fields that do not matter to the data.\<close>

lemma lookup_frame [simp]:
  "lookup (emit m n) = lookup n" "node_ok (emit m n) = node_ok n"
  "lookup (repeat_ack m n) = lookup n" "node_ok (repeat_ack m n) = node_ok n"
  "lookup (to_idle n) = lookup n" "node_ok (to_idle n) = node_ok n"
  by (simp_all add: fun_eq_iff lookup_def node_ok_def emit_def repeat_ack_def to_idle_def)

lemma lookup_cong:
  "dstore n = dstore m \<Longrightarrow> lookup n = lookup m \<and> node_ok n = node_ok m"
  by (simp add: fun_eq_iff lookup_def node_ok_def)

section \<open>Local operations\<close>

lemma processLocalRead_lookup:
  assumes "node_ok n" "calm e" "raw (uncommitedKey n) = []"
  shows "\<exists>v. processLocalRead e msg n =
      Inr (emit (zeroMessage\<lparr>Id' := Id' msg, Src := dbid n, Dest := Src msg,
        DemuxKey := ClientReadResponse, Key := Key msg, Value := v,
        Timestamp := fst (lookup n (raw (Key msg))), Ok := True\<rparr>) n) \<and>
    raw v = snd (lookup n (raw (Key msg)))"
  by (rule Get_lookup [OF assms(1,2), of "Key msg"]) (use assms(3) in \<open>auto simp: processLocalRead_def\<close>)

text \<open>A strong write is a compare-and-set on the timestamp; a blind write always goes through.\<close>

lemma processLocalWrite_lookup:
  assumes "node_ok n" "calm e" "raw (uncommitedKey n) = []" "fits (Key msg) (Value msg)"
  shows "\<exists>n' v. processLocalWrite e msg n = Inr n' \<and> node_ok n' \<and>
    (let (t, old) = lookup n (raw (Key msg)) in
     if DemuxKey msg = ClientStrongWriteRequest \<and> Timestamp msg \<noteq> t + 1
     then lookup n' = lookup n \<and> raw v = old \<and>
       Outgoing n' = Outgoing n @ [local_write_answer msg n v (t + 1) False]
     else lookup n' = (lookup n)(raw (Key msg) := (t + 1, raw (Value msg))) \<and>
       Outgoing n' = Outgoing n @ [local_write_answer msg n (Value msg) (t + 1) True])"
proof -
  define t where "t = fst (lookup n (raw (Key msg)))"
  obtain x v where g: "Store_Get (getIO e) (dstore n) (Key msg) = Inr (x, False)"
    "decodeTimestampVal x = Inr (t, v)" "raw v = snd (lookup n (raw (Key msg)))"
    by (rule Get_lookup [OF assms(1,2), of "Key msg"]) (auto simp: t_def)
  obtain st tx st' where w:
    "Store_Put (putIO e) (dstore n) (Key msg) (encodeTimestampVal (t + 1) (Value msg)) = Inr (st, tx)"
    "Store_Commit (commitIO e) st (Key msg) tx = (st', True)" "node_ok (n\<lparr>dstore := st'\<rparr>)"
    "lookup (n\<lparr>dstore := st'\<rparr>) = (lookup n)(raw (Key msg) := (t + 1, raw (Value msg)))"
    by (rule write_lookup [OF assms(1,2,4)])
  have lt: "lookup n (raw (Key msg)) = (t, raw v)"
    using g(3) by (simp add: t_def prod_eq_iff)
  show ?thesis
  proof (cases "DemuxKey msg = ClientStrongWriteRequest \<and> Timestamp msg \<noteq> t + 1")
    case True
    then have "processLocalWrite e msg n = Inr (emit (local_write_answer msg n v (t + 1) False) n)"
      using assms(3) g by (auto simp: processLocalWrite_def Let_def)
    with True assms(1) show ?thesis
      by (intro exI [of _ "emit (local_write_answer msg n v (t + 1) False) n"] exI [of _ v])
        (simp add: lt emit_def lookup_cong [of "n\<lparr>Outgoing := _\<rparr>" n])
  next
    case False
    then have c: "\<not> (t + 1 \<noteq> Timestamp msg \<and> DemuxKey msg = ClientStrongWriteRequest)" by auto
    have "processLocalWrite e msg n =
        Inr (emit (local_write_answer msg n (Value msg) (t + 1) True) (n\<lparr>dstore := st'\<rparr>))"
      by (simp add: processLocalWrite_def Let_def assms(3) g(1,2) w(1,2) if_not_P [OF c] del: de_Morgan_conj)
    with False w(3,4) show ?thesis
      by (intro exI [of _ "emit (local_write_answer msg n (Value msg) (t + 1) True) (n\<lparr>dstore := st'\<rparr>)"])
        (simp add: lt, auto simp: emit_def)
  qed
qed

section \<open>Background writes\<close>

definition merge_entry :: "64 word \<times> byte list \<Rightarrow> 64 word \<times> byte list \<Rightarrow> 64 word \<times> byte list" where
  "merge_entry old new = (if fst new > fst old then new else old)"

definition entry_of_msg :: "Message \<Rightarrow> 64 word \<times> byte list" where
  "entry_of_msg m = (Timestamp m, raw (Value m))"

text \<open>Two entries with one timestamp agree on the value.\<close>

definition agree :: "64 word \<times> byte list \<Rightarrow> 64 word \<times> byte list \<Rightarrow> bool" where
  "agree a b \<longleftrightarrow> (fst a = fst b \<longrightarrow> snd a = snd b)"

lemma merge_write_lookup:
  assumes "node_ok n" "calm e" "fits (Key msg) (Value msg)"
    and "t = fst (lookup n (raw (Key msg)))" "raw v = snd (lookup n (raw (Key msg)))"
    and "agree (lookup n (raw (Key msg))) (entry_of_msg msg)"
  shows "\<exists>n'. merge_write e msg t v n = Inr n' \<and> node_ok n' \<and> Outgoing n' = Outgoing n \<and>
    lookup n' = (lookup n)(raw (Key msg) := merge_entry (lookup n (raw (Key msg))) (entry_of_msg msg))"
proof (cases "Timestamp msg > t")
  case True
  obtain st tx st' where w:
    "Store_Put (putIO e) (dstore n) (Key msg) (encodeTimestampVal (Timestamp msg) (Value msg)) = Inr (st, tx)"
    "Store_Commit (commitIO e) st (Key msg) tx = (st', True)" "node_ok (n\<lparr>dstore := st'\<rparr>)"
    "lookup (n\<lparr>dstore := st'\<rparr>) = (lookup n)(raw (Key msg) := (Timestamp msg, raw (Value msg)))"
    by (rule write_lookup [OF assms(1-3)])
  with True assms(4) show ?thesis
    by (auto simp: merge_write_def merge_entry_def entry_of_msg_def)
next
  case False
  with assms have "merge_write e msg t v n = Inr n"
    by (auto simp: merge_write_def agree_def entry_of_msg_def bytes_Equal_def)
  with False assms(1,4) show ?thesis
    by (simp add: merge_entry_def entry_of_msg_def)
qed

lemma handleBackgroundWriteReq_lookup:
  assumes "node_ok n" "calm e" "fits (Key msg) (Value msg)"
    and "agree (lookup n (raw (Key msg))) (entry_of_msg msg)"
  shows "\<exists>n' v. handleBackgroundWriteReq e msg n = Inr n' \<and> node_ok n' \<and>
    lookup n' = (lookup n)(raw (Key msg) := merge_entry (lookup n (raw (Key msg))) (entry_of_msg msg)) \<and>
    raw v = snd (lookup n (raw (Key msg))) \<and>
    Outgoing n' = Outgoing n @
      [if Timestamp msg \<ge> fst (lookup n (raw (Key msg)))
       then background_answer msg n (Value msg) (Timestamp msg) True
       else background_answer msg n v (fst (lookup n (raw (Key msg)))) False]"
proof -
  define t where "t = fst (lookup n (raw (Key msg)))"
  obtain x v where g: "Store_Get (getIO e) (dstore n) (Key msg) = Inr (x, False)"
    "decodeTimestampVal x = Inr (t, v)" "raw v = snd (lookup n (raw (Key msg)))"
    by (rule Get_lookup [OF assms(1,2), of "Key msg"]) (auto simp: t_def)
  obtain n' where m: "merge_write e msg t v n = Inr n'" "node_ok n'" "Outgoing n' = Outgoing n"
    "lookup n' = (lookup n)(raw (Key msg) := merge_entry (lookup n (raw (Key msg))) (entry_of_msg msg))"
    using merge_write_lookup [OF assms(1-3) _ g(3) assms(4)] by (auto simp: t_def)
  let ?a = "if Timestamp msg \<ge> t then background_answer msg n (Value msg) (Timestamp msg) True
    else background_answer msg n v t False"
  have "handleBackgroundWriteReq e msg n = Inr (emit ?a n')"
    by (simp add: handleBackgroundWriteReq_def g m(1))
  moreover have "Outgoing (emit ?a n') = Outgoing n @ [?a]" by (simp add: emit_def m(3))
  ultimately show ?thesis
    using m(2,4) g(3) by (intro exI [of _ "emit ?a n'"] exI [of _ v]) (simp add: t_def)
qed

text \<open>Conflicting values under one timestamp stop the process.\<close>

lemma handleBackgroundWriteReq_conflict:
  assumes "node_ok n" "calm e" "\<not> agree (lookup n (raw (Key msg))) (entry_of_msg msg)"
  shows "handleBackgroundWriteReq e msg n = Inl Fatal"
proof -
  obtain x v where "Store_Get (getIO e) (dstore n) (Key msg) = Inr (x, False)"
    "decodeTimestampVal x = Inr (fst (lookup n (raw (Key msg))), v)"
    "raw v = snd (lookup n (raw (Key msg)))"
    by (rule Get_lookup [OF assms(1,2), of "Key msg"])
  then show ?thesis
    using assms(3)
    by (auto simp: handleBackgroundWriteReq_def merge_write_def agree_def entry_of_msg_def bytes_Equal_def)
qed

end
