(* ===== verification/Dbnode_Quorum.thy ===== *)
theory Dbnode_Quorum
  imports Dbnode_Data
begin

text \<open>
  Quorum assembly and the counting of answers: which nodes a coordinator asks, what it
  sends them, and when it goes on.
\<close>

section \<open>Sending\<close>

text \<open>The messages handed to the repeater so far.\<close>

definition sent :: "Dbnode \<Rightarrow> Message list" where
  "sent n = map t_msg (tasks (requestRepeater n))"

definition in_system :: "Dbnode \<Rightarrow> int \<Rightarrow> bool" where
  "in_system n k \<longleftrightarrow> 0 \<le> k \<and> k \<le> numPeers n"

text \<open>The part of a node's state that its construction fixes.\<close>

definition wired :: "Dbnode \<Rightarrow> bool" where
  "wired n \<longleftrightarrow> in_system n (dbid n) \<and> knows_nodes (requestRepeater n) (numPeers n + 1)"

lemma wired_New: "0 \<le> i \<Longrightarrow> i < N \<Longrightarrow> wired (New h N i b rqs wqs s)"
  by (simp add: wired_def in_system_def New_def)

definition sendable :: "Dbnode \<Rightarrow> Message \<Rightarrow> bool" where
  "sendable n m \<longleftrightarrow> in_system n (Dest m) \<and> ack_type (DemuxKey m) \<noteq> None"

text \<open>\<open>sending n ms r\<close>: \<open>r\<close> is the repeater of \<open>n\<close> after the messages \<open>ms\<close>.\<close>

definition sending :: "Dbnode \<Rightarrow> Message list \<Rightarrow> Repeater \<Rightarrow> bool" where
  "sending n ms r \<longleftrightarrow> knows_nodes r (numPeers n + 1) \<and> map t_msg (tasks r) = sent n @ ms"

lemma Repeater_Send_tasks:
  "Repeater_Send r m u = Inr r' \<Longrightarrow> map t_msg (tasks r') = map t_msg (tasks r) @ [m]"
  by (auto simp: Repeater_Send_def Let_def split: option.splits)

lemma repeat_send_ok:
  assumes "knows_nodes (requestRepeater n) (numPeers n + 1)" "sendable n m"
  shows "\<exists>r. repeat_send m u n = Inr (n\<lparr>requestRepeater := r\<rparr>) \<and> sending n [m] r"
proof -
  obtain r where r: "Repeater_Send (requestRepeater n) m u = Inr r"
    using Send_total [OF assms(1), of m u] assms(2) by (auto simp: sendable_def in_system_def)
  then show ?thesis
    using knows_nodes_Send [OF r] Repeater_Send_tasks [OF r] assms(1)
    by (intro exI [of _ r]) (simp add: repeat_send_def sending_def sent_def)
qed

lemma sending_trans:
  assumes "sending n xs r" "sending (n\<lparr>requestRepeater := r\<rparr>) ys r'"
  shows "sending n (xs @ ys) r'"
  using assms by (simp add: sending_def sent_def)

text \<open>A message that does not depend on the repeater.\<close>

definition repeater_free :: "(Dbnode \<Rightarrow> int \<Rightarrow> Message \<Rightarrow> Message) \<Rightarrow> bool" where
  "repeater_free mk \<longleftrightarrow> (\<forall>n r k m. mk (n\<lparr>requestRepeater := r\<rparr>) k m = mk n k m)"

lemma send_fold_ok:
  assumes "repeater_free mk" "knows_nodes (requestRepeater n) (numPeers n + 1)"
    and "\<forall>(k, m) \<in> set ps. k \<noteq> dbid n \<longrightarrow> sendable n (mk n k m)"
  shows "\<exists>r. fold_res (\<lambda>(node, res) s. if node = dbid s then Inr s else repeat_send (mk s node res) u s) ps n =
      Inr (n\<lparr>requestRepeater := r\<rparr>) \<and>
    sending n (map (\<lambda>(k, m). mk n k m) (filter (\<lambda>(k, _). k \<noteq> dbid n) ps)) r"
  using assms(2,3)
proof (induction ps arbitrary: n)
  case Nil
  then show ?case by (intro exI [of _ "requestRepeater n"]) (simp add: sending_def sent_def)
next
  case (Cons p ps)
  obtain k m where p: "p = (k, m)" by (cases p)
  show ?case
  proof (cases "k = dbid n")
    case True
    with Cons p show ?thesis by simp
  next
    case False
    with Cons.prems p have "sendable n (mk n k m)" by auto
    then obtain r1 where r1: "repeat_send (mk n k m) u n = Inr (n\<lparr>requestRepeater := r1\<rparr>)"
      "sending n [mk n k m] r1"
      using repeat_send_ok [OF Cons.prems(1)] by blast
    let ?n1 = "n\<lparr>requestRepeater := r1\<rparr>"
    have mk: "mk ?n1 = mk n" using assms(1) by (simp add: repeater_free_def fun_eq_iff)
    have "knows_nodes (requestRepeater ?n1) (numPeers ?n1 + 1)" using r1(2) by (simp add: sending_def)
    moreover have "\<forall>(k, m) \<in> set ps. k \<noteq> dbid ?n1 \<longrightarrow> sendable ?n1 (mk ?n1 k m)"
      using Cons.prems(2) by (auto simp: mk sendable_def in_system_def)
    ultimately obtain r where r:
      "fold_res (\<lambda>(node, res) s. if node = dbid s then Inr s else repeat_send (mk s node res) u s) ps ?n1 =
        Inr (?n1\<lparr>requestRepeater := r\<rparr>)"
      "sending ?n1 (map (\<lambda>(k, m). mk ?n1 k m) (filter (\<lambda>(k, _). k \<noteq> dbid ?n1) ps)) r"
      using Cons.IH [of ?n1] by blast
    from sending_trans [OF r1(2) r(2)] r(1) r1(1) False show ?thesis
      by (auto simp: p mk)
  qed
qed

text \<open>Every loop that addresses the other members of the quorum succeeds.\<close>

definition other_members :: "Dbnode \<Rightarrow> int set" where
  "other_members n = fst ` set (memberList n) - {dbid n}"

lemma send_members_ok:
  assumes "repeater_free mk" "knows_nodes (requestRepeater n) (numPeers n + 1)"
    and "valid_order (rangeOrder e site)"
    and "\<And>k m. k \<in> other_members n \<Longrightarrow> sendable n (mk n k m)"
  shows "\<exists>r. send_members e site mk u n = Inr (n\<lparr>requestRepeater := r\<rparr>) \<and>
    sending n (map (\<lambda>(k, m). mk n k m)
      (filter (\<lambda>(k, _). k \<noteq> dbid n) (range_members e site n))) r"
proof -
  have "\<forall>(k, m) \<in> set (range_members e site n). k \<noteq> dbid n \<longrightarrow> sendable n (mk n k m)"
    using assms(4) set_go_range [OF assms(3)]
    by (fastforce simp: range_members_def other_members_def)
  from send_fold_ok [OF assms(1,2) this] show ?thesis
    by (simp add: send_members_def)
qed

lemma repeater_free_msgs [simp]:
  "repeater_free (unlock_msg b)" "repeater_free get_request_msg"
  "repeater_free timestamp_request_msg" "repeater_free (put_request_msg ts)"
  by (simp_all add: repeater_free_def unlock_msg_def get_request_msg_def
      timestamp_request_msg_def put_request_msg_def)

lemma sendable_msgs [simp]:
  "sendable n (unlock_msg b n' k m) = in_system n k"
  "sendable n (get_request_msg n' k m) = in_system n k"
  "sendable n (timestamp_request_msg n' k m) = in_system n k"
  "sendable n (put_request_msg ts n' k m) = in_system n k"
  by (simp_all add: sendable_def unlock_msg_def get_request_msg_def
      timestamp_request_msg_def put_request_msg_def)

section \<open>The members of a quorum\<close>

text \<open>\<open>rand.Perm(n.numPeers)\<close> is a permutation of the peers; the node's own id stands for the last one.\<close>

definition perm_ok :: "env \<Rightarrow> Dbnode \<Rightarrow> bool" where
  "perm_ok e n \<longleftrightarrow> distinct (peersPerm e) \<and> set (peersPerm e) = {0..<numPeers n}"

definition peer_node :: "Dbnode \<Rightarrow> int \<Rightarrow> int" where
  "peer_node n p = (if p = dbid n then numPeers n else p)"

definition chosen :: "env \<Rightarrow> int \<Rightarrow> Dbnode \<Rightarrow> int list" where
  "chosen e quorumSize n = map (peer_node n) (take (nat (quorumSize - 1)) (peersPerm e))"

lemma peer_node_inj:
  assumes "in_system n (dbid n)"
  shows "inj_on (peer_node n) {0..<numPeers n}"
  using assms by (auto simp: inj_on_def peer_node_def in_system_def)

lemma chosen_ok:
  assumes "perm_ok e n" "in_system n (dbid n)" "1 \<le> qs" "qs \<le> numPeers n + 1"
  shows "distinct (chosen e qs n)" "set (chosen e qs n) \<subseteq> {0..numPeers n} - {dbid n}"
    "int (length (chosen e qs n)) = qs - 1" "nat (qs - 1) \<le> length (peersPerm e)"
proof -
  let ?ps = "take (nat (qs - 1)) (peersPerm e)"
  have len: "int (length (peersPerm e)) = numPeers n"
    using assms(1,2) distinct_card [of "peersPerm e"] by (auto simp: perm_ok_def in_system_def)
  have sub: "set ?ps \<subseteq> {0..<numPeers n}"
    using assms(1) set_take_subset [of "nat (qs - 1)" "peersPerm e"] by (auto simp: perm_ok_def)
  have "distinct ?ps" using assms(1) by (simp add: perm_ok_def)
  then show "distinct (chosen e qs n)"
    using inj_on_subset [OF peer_node_inj [OF assms(2)] sub] by (simp add: chosen_def distinct_map)
  show "set (chosen e qs n) \<subseteq> {0..numPeers n} - {dbid n}"
    using sub assms(2) by (auto simp: chosen_def peer_node_def in_system_def)
  show "int (length (chosen e qs n)) = qs - 1" "nat (qs - 1) \<le> length (peersPerm e)"
    using assms(3,4) len by (simp_all add: chosen_def)
qed

text \<open>What each chosen peer is sent, and recorded with.\<close>

definition request_msg :: "Messagetype \<Rightarrow> Dbnode \<Rightarrow> int \<Rightarrow> Message" where
  "request_msg requestType n node =
     zeroMessage\<lparr>Id' := Id' (clientRequest n), Src := dbid n, Dest := node, DemuxKey := requestType,
       Key := (if requestType = NodeGetRequest then Key (clientRequest n) else None),
       Value := (if requestType = NodeGetRequest then Value (clientRequest n) else None), Ok := True\<rparr>"

lemma add_peers_ok:
  assumes "knows_nodes (requestRepeater n) (numPeers n + 1)" "quorumMembers n = Some ms"
    and "\<forall>p \<in> set ps. in_system n (peer_node n p)" "ack_type k \<noteq> None"
    and "distinct (map (peer_node n) ps)" "fst ` set ms \<inter> peer_node n ` set ps = {}"
  shows "\<exists>r. fold_res (add_peer k) ps n = Inr (n\<lparr>quorumMembers :=
        Some (ms @ map (\<lambda>p. (peer_node n p, request_msg k n (peer_node n p))) ps), requestRepeater := r\<rparr>) \<and>
    sending n (map (\<lambda>p. request_msg k n (peer_node n p)) ps) r"
  using assms
proof (induction ps arbitrary: n ms)
  case Nil
  then show ?case by (intro exI [of _ "requestRepeater n"]) (simp add: sending_def sent_def)
next
  case (Cons p ps)
  let ?q = "peer_node n p"
  let ?m = "request_msg k n ?q"
  let ?n1 = "n\<lparr>quorumMembers := Some (ms @ [(?q, ?m)])\<rparr>"
  have "?q \<notin> fst ` set ms" using Cons.prems(6) by auto
  then have upd: "AList.update ?q ?m ms = ms @ [(?q, ?m)]"
    by (rule update_new)
  have "sendable ?n1 ?m"
    using Cons.prems(3,4) by (simp add: sendable_def request_msg_def in_system_def)
  then obtain r1 where r1: "repeat_send ?m False ?n1 = Inr (?n1\<lparr>requestRepeater := r1\<rparr>)"
    "sending ?n1 [?m] r1"
    using repeat_send_ok [of ?n1] Cons.prems(1) by auto
  have step: "add_peer k p n = Inr (?n1\<lparr>requestRepeater := r1\<rparr>)"
    using r1(1) Cons.prems(2) upd
    by (simp add: add_peer_def Let_def set_member_def peer_node_def request_msg_def)
  let ?n2 = "?n1\<lparr>requestRepeater := r1\<rparr>"
  have pn: "peer_node ?n2 = peer_node n" "request_msg k ?n2 = request_msg k n"
    by (simp_all add: fun_eq_iff peer_node_def request_msg_def)
  have "knows_nodes (requestRepeater ?n2) (numPeers ?n2 + 1)"
    using r1(2) by (simp add: sending_def)
  moreover have "\<forall>p \<in> set ps. in_system ?n2 (peer_node ?n2 p)"
    using Cons.prems(3) unfolding pn by (simp add: in_system_def)
  moreover have "distinct (map (peer_node ?n2) ps)"
    "fst ` set (ms @ [(?q, ?m)]) \<inter> peer_node ?n2 ` set ps = {}"
    using Cons.prems(5,6) unfolding pn by auto
  ultimately obtain r where r: "fold_res (add_peer k) ps ?n2 = Inr (?n2\<lparr>quorumMembers :=
        Some ((ms @ [(?q, ?m)]) @ map (\<lambda>p. (peer_node n p, request_msg k n (peer_node n p))) ps),
        requestRepeater := r\<rparr>)"
    "sending ?n2 (map (\<lambda>p. request_msg k n (peer_node n p)) ps) r"
    using Cons.IH [of ?n2 "ms @ [(?q, ?m)]"] Cons.prems(4) unfolding pn by auto
  have "sending n (?m # map (\<lambda>p. request_msg k n (peer_node n p)) ps) r"
    using r1(2) r(2) by (simp add: sending_def sent_def)
  with r(1) step show ?case by (intro exI [of _ r]) simp
qed

text \<open>For a lock type, the node's own entry is a marker of the next step.\<close>

definition marker :: "Messagetype \<Rightarrow> Dbnode \<Rightarrow> (int \<times> Message) list" where
  "marker k n =
     (if k = NodeLockRequest then [(dbid n, zeroMessage\<lparr>DemuxKey := NodeGetRequest\<rparr>)]
      else if k = NodeLockRequestNoTimeout
      then [(dbid n, zeroMessage\<lparr>DemuxKey := NodeTimestampRequest\<rparr>)] else [])"

definition quorum_map :: "env \<Rightarrow> int \<Rightarrow> Messagetype \<Rightarrow> Dbnode \<Rightarrow> (int \<times> Message) list" where
  "quorum_map e qs k n = map (\<lambda>p. (p, request_msg k n p)) (chosen e qs n) @ marker k n"

lemma assembleQuorum_ok:
  assumes "wired n" "perm_ok e n" "1 \<le> qs" "qs \<le> numPeers n + 1" "ack_type k \<noteq> None"
  shows "\<exists>r. assembleQuorum e qs k n = Inr (n\<lparr>quorumMembers := Some (quorum_map e qs k n),
      requestRepeater := r, numWaitingNodes := qs - 1\<rparr>) \<and>
    sending n (map (request_msg k n) (chosen e qs n)) r"
proof -
  let ?n0 = "n\<lparr>quorumMembers := Some []\<rparr>"
  let ?ps = "take (nat (qs - 1)) (peersPerm e)"
  note ch = chosen_ok [OF assms(2) _ assms(3,4)]
  have w: "in_system n (dbid n)" "knows_nodes (requestRepeater n) (numPeers n + 1)"
    using assms(1) by (simp_all add: wired_def)
  have f: "peer_node ?n0 = peer_node n" "request_msg k ?n0 = request_msg k n"
    by (simp_all add: fun_eq_iff peer_node_def request_msg_def)
  have sys: "\<forall>p \<in> set ?ps. in_system ?n0 (peer_node ?n0 p)"
    using ch(2) [OF w(1)] unfolding f by (auto simp: chosen_def in_system_def)
  have kn: "knows_nodes (requestRepeater ?n0) (numPeers ?n0 + 1)" using w(2) by simp
  have dist: "distinct (map (peer_node ?n0) ?ps)"
    using ch(1) [OF w(1)] unfolding f by (simp add: chosen_def)
  have maps: "map (\<lambda>p. (peer_node n p, request_msg k n (peer_node n p))) ?ps =
      map (\<lambda>p. (p, request_msg k n p)) (chosen e qs n)"
    "map (\<lambda>p. request_msg k n (peer_node n p)) ?ps = map (request_msg k n) (chosen e qs n)"
    by (simp_all add: chosen_def)
  have none: "quorumMembers ?n0 = Some []" "fst ` set [] \<inter> peer_node ?n0 ` set ?ps = {}"
    by simp_all
  note add_peers_ok [OF kn none(1) sys assms(5) dist none(2), unfolded f maps]
  then obtain r where r: "fold_res (add_peer k) ?ps ?n0 =
      Inr (?n0\<lparr>quorumMembers := Some ([] @ map (\<lambda>p. (p, request_msg k n p)) (chosen e qs n)),
        requestRepeater := r\<rparr>)"
    "sending ?n0 (map (request_msg k n) (chosen e qs n)) r"
    by (elim exE conjE) (rule that)
  have bound: "\<not> (qs - 1 < 0 \<or> qs - 1 > int (length (peersPerm e)))"
    using ch(4) [OF w(1)] assms(3) by linarith
  have new: "dbid n \<notin> fst ` set (map (\<lambda>p. (p, request_msg k' n p)) (chosen e qs n))" for k'
    using ch(2) [OF w(1)] by auto
  have "sending n (map (request_msg k n) (chosen e qs n)) r"
    using r(2) by (simp add: sending_def sent_def)
  moreover have "assembleQuorum e qs k n = Inr (n\<lparr>quorumMembers := Some (quorum_map e qs k n),
      requestRepeater := r, numWaitingNodes := qs - 1\<rparr>)"
    unfolding assembleQuorum_def if_not_P [OF bound] r(1)
    by (simp add: set_member_def update_new [OF new] quorum_map_def marker_def)
  ultimately show ?thesis by blast
qed

section \<open>Counting answers\<close>

lemma member_frame [simp]:
  "member (n\<lparr>requestRepeater := r\<rparr>) = member n"
  by (simp add: fun_eq_iff member_def memberList_def)

text \<open>
  A phase of a transaction: all of \<open>ms\<close> answer with type \<open>k\<close>, one per member that has not
  answered yet. The last one makes the coordinator go on; until then it only records them.
\<close>

definition record_answers :: "Message list \<Rightarrow> Dbnode \<Rightarrow> (int \<times> Message) list" where
  "record_answers ms n = fold (\<lambda>m. AList.update (Src m) m) ms (memberList n)"

definition ack_all :: "Message list \<Rightarrow> Repeater \<Rightarrow> Repeater" where
  "ack_all = fold (\<lambda>m r. Repeater_Ack r m)"

definition answering :: "Messagetype \<Rightarrow> Message list \<Rightarrow> Dbnode \<Rightarrow> bool" where
  "answering k ms n \<longleftrightarrow>
     quorumMembers n \<noteq> None \<and> numWaitingNodes n = int (length ms) \<and> distinct (map Src ms) \<and>
     (\<forall>m \<in> set ms. Ok m \<and> DemuxKey m = k \<and> DemuxKey (member n (Src m)) \<noteq> k)"

lemma count_phase:
  assumes "answering k (map snd ems) n" "ems \<noteq> []"
    and "\<And>e m n'. (e, m) \<in> set ems \<Longrightarrow> currentTxid n' = currentTxid n \<Longrightarrow>
      currentMode n' = currentMode n \<Longrightarrow> h e m n' = count_answer e m (repeat_ack m n')"
  shows "fold_res (\<lambda>(e, m). h e m) ems n =
    continueProcessing (fst (last ems))
      (n\<lparr>requestRepeater := ack_all (map snd ems) (requestRepeater n),
         quorumMembers := Some (record_answers (map snd ems) n), numWaitingNodes := 0\<rparr>)"
  using assms
proof (induction ems arbitrary: n)
  case Nil
  then show ?case by simp
next
  case (Cons em ems)
  obtain e m where em: "em = (e, m)" by (cases em)
  let ?ms = "AList.update (Src m) m (memberList n)"
  let ?n1 = "n\<lparr>requestRepeater := Repeater_Ack (requestRepeater n) m, quorumMembers := Some ?ms,
    numWaitingNodes := int (length ems)\<rparr>"
  obtain ms where ms: "quorumMembers n = Some ms"
    using Cons.prems(1) by (auto simp: answering_def)
  have h: "h e m n = (if ems = [] then continueProcessing e ?n1 else Inr ?n1)"
    using Cons.prems(1) Cons.prems(3) [of e m n]
    by (auto simp: em count_answer_def answering_def set_member_def repeat_ack_def ms
        memberList_def Let_def)
  show ?case
  proof (cases "ems = []")
    case True
    with h show ?thesis by (simp add: em ack_all_def record_answers_def memberList_def ms)
  next
    case False
    have "answering k (map snd ems) ?n1"
      using Cons.prems(1) by (auto simp: em answering_def member_def memberList_def) force
    with Cons.IH [of ?n1] Cons.prems(3) False
    have "fold_res (\<lambda>(e, m). h e m) ems ?n1 =
      continueProcessing (fst (last ems))
        (?n1\<lparr>requestRepeater := ack_all (map snd ems) (requestRepeater ?n1),
           quorumMembers := Some (record_answers (map snd ems) ?n1), numWaitingNodes := 0\<rparr>)"
      by simp
    with h False show ?thesis
      by (simp add: em ack_all_def record_answers_def memberList_def)
  qed
qed

text \<open>The map once every member has answered.\<close>

lemma fold_update_other:
  "k \<notin> Src ` set ms \<Longrightarrow> map_of (fold (\<lambda>m. AList.update (Src m) m) ms ml) k = map_of ml k"
  by (induction ms arbitrary: ml) (auto simp: AList.update_conv')

lemma fold_update_answer:
  "distinct (map Src ms) \<Longrightarrow> m \<in> set ms \<Longrightarrow>
    map_of (fold (\<lambda>m. AList.update (Src m) m) ms ml) (Src m) = Some m"
proof (induction ms arbitrary: ml)
  case Nil
  then show ?case by simp
next
  case (Cons a ms)
  show ?case
  proof (cases "m = a")
    case True
    with Cons.prems(1) show ?thesis by (simp add: fold_update_other AList.update_conv')
  next
    case False
    with Cons show ?thesis by simp
  qed
qed

lemma fold_update_distinct:
  "distinct (map fst ml) \<Longrightarrow> distinct (map fst (fold (\<lambda>m. AList.update (Src m) m) ms ml))"
  by (induction ms arbitrary: ml) (auto simp: distinct_update)

lemma record_answers_set:
  assumes "distinct (map Src ms)" "distinct (map fst (memberList n))"
  shows "distinct (map fst (record_answers ms n))"
    "(k, m) \<in> set (record_answers ms n) \<longleftrightarrow>
      (if k \<in> Src ` set ms then m \<in> set ms \<and> Src m = k else (k, m) \<in> set (memberList n))"
proof -
  show d: "distinct (map fst (record_answers ms n))"
    using assms(2) by (simp add: record_answers_def fold_update_distinct)
  have iff: "(k, m) \<in> set (record_answers ms n) \<longleftrightarrow> map_of (record_answers ms n) k = Some m"
    using d by simp
  show "(k, m) \<in> set (record_answers ms n) \<longleftrightarrow>
      (if k \<in> Src ` set ms then m \<in> set ms \<and> Src m = k else (k, m) \<in> set (memberList n))"
  proof (cases "k \<in> Src ` set ms")
    case True
    then obtain m' where m': "m' \<in> set ms" "k = Src m'" by auto
    with assms(1) have "map_of (record_answers ms n) k = Some m'"
      by (simp add: record_answers_def fold_update_answer)
    moreover have "m \<in> set ms \<and> Src m = k \<longleftrightarrow> m = m'"
      using m' assms(1) by (auto simp: distinct_map inj_on_def)
    ultimately show ?thesis using True iff by auto
  next
    case False
    with iff assms(2) show ?thesis by (simp add: record_answers_def fold_update_other)
  qed
qed

end
