(* ===== verification/Dbnode_Write.thy ===== *)
theory Dbnode_Write
  imports Dbnode_Quorum
begin

text \<open>
  The write transaction as its coordinator runs it: lock a quorum, collect timestamps, stage
  the value, commit. One lemma per phase, each from the answers to what is sent next.
\<close>

section \<open>Phases\<close>

text \<open>The coordinator of \<open>req\<close> in a mode, with its quorum map and the answers it waits for.\<close>

definition coord :: "Dbnode \<Rightarrow> Message \<Rightarrow> mode \<Rightarrow> (int \<times> Message) list \<Rightarrow> int \<Rightarrow> Repeater \<Rightarrow> Dbnode" where
  "coord n req M ms w r =
     n\<lparr>currentMode := M, currentTxid := Id' req, clientRequest := req, quorumMembers := Some ms,
       numWaitingNodes := w, requestRepeater := r\<rparr>"

definition quorum_ok :: "Dbnode \<Rightarrow> int set \<Rightarrow> bool" where
  "quorum_ok n Q \<longleftrightarrow> finite Q \<and> Q \<noteq> {} \<and> Q \<subseteq> {0..numPeers n} - {dbid n}"

definition members_ok :: "Dbnode \<Rightarrow> int set \<Rightarrow> Message \<Rightarrow> (int \<times> Message) list \<Rightarrow> bool" where
  "members_ok n Q mark ms \<longleftrightarrow>
     distinct (map fst ms) \<and> fst ` set ms = insert (dbid n) Q \<and> (dbid n, mark) \<in> set ms"

definition phase :: "Dbnode \<Rightarrow> Message \<Rightarrow> int set \<Rightarrow> mode \<Rightarrow> Messagetype \<Rightarrow> Message \<Rightarrow> Dbnode \<Rightarrow> bool" where
  "phase n req Q M k mark n1 \<longleftrightarrow>
     (\<exists>ms r. n1 = coord n req M ms (int (card Q)) r \<and> knows_nodes r (numPeers n + 1) \<and>
       members_ok n Q mark ms \<and> (\<forall>(i, m) \<in> set ms. i \<noteq> dbid n \<longrightarrow> DemuxKey m \<noteq> k))"

definition benign :: "env \<Rightarrow> bool" where
  "benign e \<longleftrightarrow> calm e \<and> (\<forall>site. valid_order (rangeOrder e site))"

text \<open>One positive answer of type \<open>k\<close> from every node of \<open>Q\<close>, in any order.\<close>

definition collects :: "Messagetype \<Rightarrow> int set \<Rightarrow> Message \<Rightarrow> (env \<times> Message) list \<Rightarrow> bool" where
  "collects k Q req ems \<longleftrightarrow>
     distinct (map (Src \<circ> snd) ems) \<and> Src ` snd ` set ems = Q \<and>
     (\<forall>(e, m) \<in> set ems. benign e \<and> Ok m \<and> DemuxKey m = k \<and> Id' m = Id' req)"

lemma coord_simps [simp]:
  "currentMode (coord n req M ms w r) = M" "currentTxid (coord n req M ms w r) = Id' req"
  "clientRequest (coord n req M ms w r) = req" "quorumMembers (coord n req M ms w r) = Some ms"
  "numWaitingNodes (coord n req M ms w r) = w" "requestRepeater (coord n req M ms w r) = r"
  "dbid (coord n req M ms w r) = dbid n" "numPeers (coord n req M ms w r) = numPeers n"
  "dstore (coord n req M ms w r) = dstore n" "Outgoing (coord n req M ms w r) = Outgoing n"
  "writeQuorumSize (coord n req M ms w r) = writeQuorumSize n"
  "uncommitedTxid (coord n req M ms w r) = uncommitedTxid n"
  "uncommitedKey (coord n req M ms w r) = uncommitedKey n"
  "memberList (coord n req M ms w r) = ms"
  by (simp_all add: coord_def memberList_def)

lemma coord_upd [simp]:
  "(coord n req M ms w r)\<lparr>requestRepeater := r'\<rparr> = coord n req M ms w r'"
  "(coord n req M ms w r)\<lparr>quorumMembers := Some ms'\<rparr> = coord n req M ms' w r"
  "(coord n req M ms w r)\<lparr>numWaitingNodes := w'\<rparr> = coord n req M ms w' r"
  "(coord n req M ms w r)\<lparr>currentMode := M'\<rparr> = coord n req M' ms w r"
  by (simp_all add: coord_def)

lemma member_coord:
  assumes "members_ok n Q mark ms"
  shows "member (coord n req M ms w r) (dbid n) = mark"
proof -
  have "map_of ms (dbid n) = Some mark"
    using assms by (intro map_of_is_SomeI) (simp_all add: members_ok_def)
  then show ?thesis by (simp add: member_def get_or_def)
qed

lemma members_ok_update:
  assumes "members_ok n Q mark ms"
  shows "members_ok n Q mark' (AList.update (dbid n) mark' ms)"
    "(i, m) \<in> set (AList.update (dbid n) mark' ms) \<Longrightarrow> i \<noteq> dbid n \<Longrightarrow> (i, m) \<in> set ms"
proof -
  have d: "distinct (map fst (AList.update (dbid n) mark' ms))"
    using assms by (simp add: members_ok_def distinct_update)
  then have "(dbid n, mark') \<in> set (AList.update (dbid n) mark' ms)"
    by (simp add: AList.update_conv' flip: map_of_eq_Some_iff)
  moreover have "fst ` set (AList.update (dbid n) mark' ms) = insert (dbid n) Q"
    using assms by (simp add: members_ok_def dom_update)
  ultimately show "members_ok n Q mark' (AList.update (dbid n) mark' ms)"
    using d by (simp add: members_ok_def)
  show "(i, m) \<in> set (AList.update (dbid n) mark' ms) \<Longrightarrow> i \<noteq> dbid n \<Longrightarrow> (i, m) \<in> set ms"
    using set_update_subset [of "dbid n" mark' ms] by auto
qed

lemma phase_others:
  assumes "phase n req Q M k mark n1" "quorum_ok n Q"
  shows "other_members n1 = Q"
proof -
  obtain ms r where "n1 = coord n req M ms (int (card Q)) r" "members_ok n Q mark ms"
    using assms(1) unfolding phase_def by blast
  with assms(2) show ?thesis
    by (auto simp: other_members_def members_ok_def quorum_ok_def)
qed

lemma card_collects:
  assumes "collects k Q req ems"
  shows "length ems = card Q"
proof -
  have "Q = set (map (Src \<circ> snd) ems)" using assms by (auto simp: collects_def)
  then show ?thesis
    using assms distinct_card [of "map (Src \<circ> snd) ems"] by (simp add: collects_def)
qed

lemma knows_nodes_ack_all: "knows_nodes (ack_all ms r) N = knows_nodes r N"
  by (induction ms arbitrary: r) (simp_all add: ack_all_def)

lemma tasks_ack_all: "tasks (ack_all ms r) = tasks r"
  by (induction ms arbitrary: r) (simp_all add: ack_all_def)

text \<open>Recording one answer of each member changes the entries of the members and no other.\<close>

lemma record_answers_members:
  assumes "members_ok n Q mark ms" "memberList n1 = ms" "quorum_ok n Q"
    and "distinct (map Src as)" "Src ` set as = Q"
  shows "members_ok n Q mark (record_answers as n1)"
    "\<forall>i m. i \<noteq> dbid n \<longrightarrow> (i, m) \<in> set (record_answers as n1) \<longleftrightarrow> m \<in> set as \<and> Src m = i"
proof -
  have dm: "distinct (map fst (memberList n1))" using assms(1,2) by (simp add: members_ok_def)
  have rec: "(i, m) \<in> set (record_answers as n1) \<longleftrightarrow>
      (if i \<in> Q then m \<in> set as \<and> Src m = i else (i, m) \<in> set ms)" for i m
    using record_answers_set(2) [OF assms(4) dm, of i m] by (simp add: assms(5) [symmetric] assms(2))
  have "i \<in> fst ` set (record_answers as n1) \<longleftrightarrow> i \<in> insert (dbid n) Q" for i
  proof (cases "i \<in> Q")
    case True
    then obtain m where "m \<in> set as" "Src m = i" using assms(5) by auto
    with True rec [of i m] show ?thesis by force
  next
    case False
    then have "i \<in> fst ` set (record_answers as n1) \<longleftrightarrow> i \<in> fst ` set ms"
      using rec [of i] by (auto simp: image_iff Bex_def)
    with False assms(1) show ?thesis by (simp add: members_ok_def)
  qed
  then have keys: "fst ` set (record_answers as n1) = insert (dbid n) Q" by blast
  have "dbid n \<notin> Q" using assms(3) by (auto simp: quorum_ok_def)
  with assms(1) rec [of "dbid n" mark] keys record_answers_set(1) [OF assms(4) dm]
  show "members_ok n Q mark (record_answers as n1)" by (simp add: members_ok_def)
  show "\<forall>i m. i \<noteq> dbid n \<longrightarrow> (i, m) \<in> set (record_answers as n1) \<longleftrightarrow> m \<in> set as \<and> Src m = i"
  proof (intro allI impI)
    fix i m
    assume "i \<noteq> dbid n"
    show "(i, m) \<in> set (record_answers as n1) \<longleftrightarrow> m \<in> set as \<and> Src m = i"
    proof (cases "i \<in> Q")
      case False
      then have "i \<notin> fst ` set ms" using assms(1) \<open>i \<noteq> dbid n\<close> by (auto simp: members_ok_def)
      with False rec [of i m] assms(5) show ?thesis by force
    qed (use rec [of i m] in simp)
  qed
qed

text \<open>When the phase's answers are in, the coordinator goes on with all of them recorded.\<close>

lemma phase_count:
  assumes "phase n req Q M k mark n1" "collects k Q req ems" "quorum_ok n Q"
    and h: "\<And>e m n'. currentTxid n' = Id' m \<Longrightarrow> currentMode n' = M \<Longrightarrow>
      h e m n' = count_answer e m (repeat_ack m n')"
  shows "\<exists>ms r. fold_res (\<lambda>(e, m). h e m) ems n1 =
      continueProcessing (fst (last ems)) (coord n req M ms 0 r) \<and>
    members_ok n Q mark ms \<and> knows_nodes r (numPeers n + 1) \<and> map t_msg (tasks r) = sent n1 \<and>
    benign (fst (last ems)) \<and>
    (\<forall>i m. i \<noteq> dbid n \<longrightarrow> (i, m) \<in> set ms \<longleftrightarrow> m \<in> snd ` set ems \<and> Src m = i)"
proof -
  obtain ms r where n1: "n1 = coord n req M ms (int (card Q)) r"
    and r: "knows_nodes r (numPeers n + 1)" and ms: "members_ok n Q mark ms"
    and key: "\<forall>(i, m) \<in> set ms. i \<noteq> dbid n \<longrightarrow> DemuxKey m \<noteq> k"
    using assms(1) unfolding phase_def by blast
  let ?as = "map snd ems"
  have as: "distinct (map Src ?as)" "Src ` set ?as = Q"
    "\<forall>m \<in> set ?as. Ok m \<and> DemuxKey m = k \<and> Id' m = Id' req"
    using assms(2) by (auto simp: collects_def)
  have ne: "ems \<noteq> []" using assms(3) as(2) by (auto simp: quorum_ok_def)
  have "DemuxKey (member n1 i) \<noteq> k" if "i \<in> Q" for i
  proof -
    have "i \<in> fst ` set ms" "i \<noteq> dbid n"
      using that ms assms(3) by (auto simp: members_ok_def quorum_ok_def)
    then obtain m where "map_of ms i = Some m" "(i, m) \<in> set ms"
      by (metis map_of_eq_None_iff map_of_SomeD not_Some_eq)
    with key \<open>i \<noteq> dbid n\<close> show ?thesis by (auto simp: member_def n1 get_or_def)
  qed
  then have "\<forall>m \<in> set ?as. DemuxKey (member n1 (Src m)) \<noteq> k" using as(2) by blast
  moreover have "numWaitingNodes n1 = int (length ?as)" "quorumMembers n1 \<noteq> None"
    using card_collects [OF assms(2)] by (simp_all add: n1)
  ultimately have "answering k ?as n1"
    using as(1,3) unfolding answering_def by blast
  moreover have "h e m n' = count_answer e m (repeat_ack m n')"
    if "(e, m) \<in> set ems" "currentTxid n' = currentTxid n1" "currentMode n' = currentMode n1" for e m n'
  proof (rule h)
    have "m \<in> set ?as" using that(1) by force
    with as(3) have "Id' m = Id' req" by blast
    with that(2,3) show "currentTxid n' = Id' m" "currentMode n' = M" by (simp_all add: n1)
  qed
  ultimately have "fold_res (\<lambda>(e, m). h e m) ems n1 = continueProcessing (fst (last ems))
      (n1\<lparr>requestRepeater := ack_all ?as (requestRepeater n1),
         quorumMembers := Some (record_answers ?as n1), numWaitingNodes := 0\<rparr>)"
    by (rule count_phase [OF _ ne])
  then have run: "fold_res (\<lambda>(e, m). h e m) ems n1 = continueProcessing (fst (last ems))
      (coord n req M (record_answers ?as n1) 0 (ack_all ?as r))"
    by (simp add: n1)
  have "memberList n1 = ms" by (simp add: n1)
  note members = record_answers_members [OF ms this assms(3) as(1,2)]
  have "benign (fst (last ems))"
    using assms(2) last_in_set [OF ne] by (auto simp: collects_def case_prod_beta)
  with run members r show ?thesis
    by (intro exI [of _ "record_answers ?as n1"] exI [of _ "ack_all ?as r"])
      (simp add: knows_nodes_ack_all tasks_ack_all sent_def n1)
qed

text \<open>
  The loop over the other members sends each of them one message. \<open>sends n mk Q n1 n2\<close>:
  between \<open>n1\<close> and \<open>n2\<close> every node of \<open>Q\<close> was sent \<open>mk\<close> of it, and nothing else was sent.
\<close>

definition sends :: "(int \<Rightarrow> Message) \<Rightarrow> int set \<Rightarrow> Dbnode \<Rightarrow> Dbnode \<Rightarrow> bool" where
  "sends mk Q n1 n2 \<longleftrightarrow> (\<exists>ks. distinct ks \<and> set ks = Q \<and> sent n2 = sent n1 @ map mk ks)"

definition message_free :: "(Dbnode \<Rightarrow> int \<Rightarrow> Message \<Rightarrow> Message) \<Rightarrow> bool" where
  "message_free mk \<longleftrightarrow> (\<forall>n k m. mk n k m = mk n k zeroMessage)"

lemma message_free_msgs [simp]:
  "message_free (unlock_msg b)" "message_free get_request_msg"
  "message_free timestamp_request_msg" "message_free (put_request_msg ts)"
  by (simp_all add: message_free_def unlock_msg_def get_request_msg_def
      timestamp_request_msg_def put_request_msg_def)

lemma members_other:
  "quorum_ok n Q \<Longrightarrow> members_ok n Q mark ms \<Longrightarrow> fst ` set ms - {dbid n} = Q"
  by (auto simp: members_ok_def quorum_ok_def)

lemma phase_send:
  assumes "members_ok n Q mark ms" "quorum_ok n Q" "knows_nodes r (numPeers n + 1)"
    and "repeater_free mk" "message_free mk" "benign e"
    and "\<And>n' i m. sendable n (mk n' i m) = in_system n i"
  shows "\<exists>r' ks. send_members e site mk u (coord n req M ms w r) = Inr (coord n req M ms w r') \<and>
    knows_nodes r' (numPeers n + 1) \<and> distinct ks \<and> set ks = Q \<and>
    map t_msg (tasks r') = map t_msg (tasks r) @ map (\<lambda>i. mk (coord n req M ms w r) i zeroMessage) ks"
proof -
  let ?n = "coord n req M ms w r"
  have ord: "valid_order (rangeOrder e site)" using assms(6) by (simp add: benign_def)
  have om: "other_members ?n = Q"
    using members_other [OF assms(2,1)] by (simp add: other_members_def)
  have kn: "knows_nodes (requestRepeater ?n) (numPeers ?n + 1)" using assms(3) by simp
  have sys: "\<And>k m. k \<in> other_members ?n \<Longrightarrow> sendable ?n (mk ?n k m)"
    using assms(2,7) om by (auto simp: sendable_def in_system_def quorum_ok_def)
  let ?ps = "filter (\<lambda>(k, _). k \<noteq> dbid ?n) (range_members e site ?n)"
  obtain r' where r': "send_members e site mk u ?n = Inr (?n\<lparr>requestRepeater := r'\<rparr>)"
    "sending ?n (map (\<lambda>(k, m). mk ?n k m) ?ps) r'"
    using send_members_ok [OF assms(4) kn ord sys, of u] by blast
  have mset: "mset (range_members e site ?n) = mset ms"
    by (simp add: range_members_def mset_go_range [OF ord])
  have "distinct (map fst (range_members e site ?n))"
    using assms(1) mset by (metis members_ok_def mset_eq_imp_distinct_iff mset_map)
  then have "distinct (map fst ?ps)" by (rule distinct_keys_filter)
  moreover have "set (map fst ?ps) = Q"
    using mset_eq_setD [OF mset] members_other [OF assms(2,1)] by force
  moreover have "map (\<lambda>(k, m). mk ?n k m) ?ps = map (\<lambda>i. mk ?n i zeroMessage) (map fst ?ps)"
    using assms(5) by (auto simp: message_free_def)
  ultimately show ?thesis
    using r' by (intro exI [of _ r'] exI [of _ "map fst ?ps"]) (simp add: sending_def sent_def)
qed

lemma coord_set_member:
  "set_member (dbid n) m (coord n req M ms w r) = Inr (coord n req M (AList.update (dbid n) m ms) w r)"
  by (simp add: set_member_def)

section \<open>Locking\<close>

text \<open>Starting a write asks a quorum for its locks.\<close>

definition lock_mark :: Message where
  "lock_mark = zeroMessage\<lparr>DemuxKey := NodeTimestampRequest\<rparr>"

lemma start_write:
  assumes "wired n" "quorumMembers n = None" "perm_ok e n"
    and "DemuxKey req \<in> {ClientWriteRequest, ClientStrongWriteRequest}"
    and "2 \<le> writeQuorumSize n" "writeQuorumSize n \<le> numPeers n + 1"
  shows "\<exists>n1 Q. start_transaction e req n = Inr n1 \<and> quorum_ok n Q \<and>
    int (card Q) + 1 = writeQuorumSize n \<and>
    phase n req Q assemblingQuorum NodeLockResponse lock_mark n1 \<and>
    sends (request_msg NodeLockRequestNoTimeout n1) Q n n1"
proof -
  let ?k = NodeLockRequestNoTimeout
  let ?n0 = "n\<lparr>currentTxid := Id' req, clientRequest := req, currentMode := assemblingQuorum\<rparr>"
  let ?W = "writeQuorumSize n"
  have w: "wired ?n0" "perm_ok e ?n0"
    using assms(1,3) by (simp_all add: wired_def in_system_def perm_ok_def)
  have f: "chosen e ?W ?n0 = chosen e ?W n" by (simp add: chosen_def peer_node_def)
  have W: "1 \<le> ?W" "?W \<le> numPeers ?n0 + 1" using assms(5,6) by simp_all
  from assembleQuorum_ok [OF w W, of ?k] obtain r where r:
    "assembleQuorum e ?W ?k ?n0 = Inr (?n0\<lparr>quorumMembers := Some (quorum_map e ?W ?k ?n0),
        requestRepeater := r, numWaitingNodes := ?W - 1\<rparr>)"
    "sending ?n0 (map (request_msg ?k ?n0) (chosen e ?W n)) r"
    by (auto simp: f)
  let ?Q = "set (chosen e ?W n)"
  let ?ms = "quorum_map e ?W ?k ?n0"
  let ?n1 = "coord n req assemblingQuorum ?ms (?W - 1) r"
  have "in_system n (dbid n)" using assms(1) by (simp add: wired_def)
  note ch = chosen_ok [OF assms(3) this W(1) assms(6)]
  have card: "int (card ?Q) = ?W - 1" using ch(1,3) by (simp add: distinct_card)
  have Q: "quorum_ok n ?Q"
    using ch(2) card assms(5) by (auto simp: quorum_ok_def)
  have ms: "?ms = map (\<lambda>p. (p, request_msg ?k ?n0 p)) (chosen e ?W n) @ [(dbid n, lock_mark)]"
    by (simp add: quorum_map_def f marker_def lock_mark_def)
  have "start_transaction e req n = Inr ?n1"
    using assms(2,4) r(1)
    by (auto simp: start_transaction_def Let_def continueProcessing_def coord_def)
  moreover have "members_ok n ?Q lock_mark ?ms"
    using ch(1,2) by (auto simp: members_ok_def ms comp_def image_image)
  then have "phase n req ?Q assemblingQuorum NodeLockResponse lock_mark ?n1"
    unfolding phase_def
    by (intro exI [of _ ?ms] exI [of _ r])
      (use r(2) card in \<open>auto simp: ms sending_def request_msg_def\<close>)
  moreover have "request_msg ?k ?n1 = request_msg ?k ?n0"
    by (simp add: fun_eq_iff request_msg_def)
  moreover have "sent ?n1 = sent n @ map (request_msg ?k ?n0) (chosen e ?W n)"
    using r(2) by (simp add: sending_def sent_def)
  ultimately show ?thesis
    using Q card ch(1) by (intro exI [of _ ?n1] exI [of _ ?Q]) (auto simp: sends_def)
qed

section \<open>Asking for timestamps\<close>

definition put_mark :: Message where
  "put_mark = zeroMessage\<lparr>DemuxKey := NodePutRequest\<rparr>"

text \<open>The messages of the later phases do not depend on the bookkeeping of the phase.\<close>

lemma msgs_coord:
  "timestamp_request_msg (coord n req M ms w r) = timestamp_request_msg (n\<lparr>clientRequest := req\<rparr>)"
  "put_request_msg ts (coord n req M ms w r) = put_request_msg ts (n\<lparr>clientRequest := req\<rparr>)"
  "unlock_msg b (coord n req M ms w r) = unlock_msg b (n\<lparr>clientRequest := req\<rparr>)"
  by (simp_all add: fun_eq_iff timestamp_request_msg_def put_request_msg_def unlock_msg_def)

lemma phase_next:
  assumes "members_ok n Q mark ms" "knows_nodes r (numPeers n + 1)"
    and "\<And>i m. i \<noteq> dbid n \<Longrightarrow> (i, m) \<in> set ms \<Longrightarrow> DemuxKey m \<noteq> k"
  shows "phase n req Q M k mark' (coord n req M (AList.update (dbid n) mark' ms) (int (card Q)) r)"
proof -
  have "\<forall>(i, m) \<in> set (AList.update (dbid n) mark' ms). i \<noteq> dbid n \<longrightarrow> DemuxKey m \<noteq> k"
    using members_ok_update(2) [OF assms(1)] assms(3) by blast
  with members_ok_update(1) [OF assms(1)] assms(2) show ?thesis
    unfolding phase_def by blast
qed

lemma locks_collected:
  assumes "phase n req Q assemblingQuorum NodeLockResponse lock_mark n1" "quorum_ok n Q"
    and "int (card Q) + 1 = writeQuorumSize n" "collects NodeLockResponse Q req ems"
  shows "\<exists>n2. fold_res (\<lambda>(e, m). handleLockRes e m) ems n1 = Inr n2 \<and>
    phase n req Q coordinatingWrite NodeGetResponse put_mark n2 \<and>
    sends (\<lambda>i. timestamp_request_msg (n\<lparr>clientRequest := req\<rparr>) i zeroMessage) Q n1 n2"
proof -
  let ?e = "fst (last ems)"
  have "handleLockRes e m n' = count_answer e m (repeat_ack m n')"
    if "currentTxid n' = Id' m" "currentMode n' = assemblingQuorum" for e m n'
    using that by (simp add: handleLockRes_def repeat_ack_def)
  from phase_count [OF assms(1,4,2) this] obtain ms r where
    run: "fold_res (\<lambda>(e, m). handleLockRes e m) ems n1 =
      continueProcessing ?e (coord n req assemblingQuorum ms 0 r)"
    and ms: "members_ok n Q lock_mark ms" and r: "knows_nodes r (numPeers n + 1)"
    and sent1: "map t_msg (tasks r) = sent n1" and e: "benign ?e"
    and rec: "\<forall>i m. i \<noteq> dbid n \<longrightarrow> (i, m) \<in> set ms \<longleftrightarrow> m \<in> snd ` set ems \<and> Src m = i"
    by blast
  let ?n = "coord n req coordinatingWrite ms 0 r"
  obtain r' ks where s: "send_members ?e 4 timestamp_request_msg True ?n =
      Inr (coord n req coordinatingWrite ms 0 r')" "knows_nodes r' (numPeers n + 1)"
    "distinct ks" "set ks = Q"
    "map t_msg (tasks r') = map t_msg (tasks r) @ map (\<lambda>i. timestamp_request_msg ?n i zeroMessage) ks"
    using phase_send [OF ms assms(2) r _ _ e, where mk = timestamp_request_msg and site = 4 and
        req = req and M = coordinatingWrite and w = 0 and u = True] by auto
  let ?n2 = "coord n req coordinatingWrite (AList.update (dbid n) put_mark ms) (int (card Q)) r'"
  have "continueProcessing ?e (coord n req assemblingQuorum ms 0 r) = write_ask ?e ?n"
    by (simp add: continueProcessing_def continueWrite_def member_coord [OF ms] lock_mark_def)
  also have "\<dots> = Inr ?n2"
    using s(1) assms(3) by (simp add: write_ask_def coord_set_member put_mark_def flip: assms(3))
  finally have run2: "fold_res (\<lambda>(e, m). handleLockRes e m) ems n1 = Inr ?n2" using run by simp
  have "DemuxKey m \<noteq> NodeGetResponse" if "i \<noteq> dbid n" "(i, m) \<in> set ms" for i m
    using rec that assms(4) by (force simp: collects_def)
  with phase_next [OF ms s(2)]
  have "phase n req Q coordinatingWrite NodeGetResponse put_mark ?n2" by blast
  moreover have "sends (\<lambda>i. timestamp_request_msg (n\<lparr>clientRequest := req\<rparr>) i zeroMessage) Q n1 ?n2"
    using s(3-5) sent1 by (auto simp: sends_def sent_def msgs_coord)
  ultimately show ?thesis using run2 by blast
qed

section \<open>Staging\<close>

lemma latest_timestamp_bounds:
  "t0 \<le> latest_timestamp self t0 ms \<and>
   (\<forall>(i, m) \<in> set ms. i \<noteq> self \<longrightarrow> Timestamp m \<le> latest_timestamp self t0 ms) \<and>
   (latest_timestamp self t0 ms = t0 \<or>
    (\<exists>(i, m) \<in> set ms. i \<noteq> self \<and> latest_timestamp self t0 ms = Timestamp m))"
proof (induction ms arbitrary: t0)
  case Nil
  then show ?case by (simp add: latest_timestamp_def)
next
  case (Cons p ms)
  obtain i m where p: "p = (i, m)" by (cases p)
  let ?t = "if i = self then t0 else if Timestamp m > t0 then Timestamp m else t0"
  have "latest_timestamp self t0 (p # ms) = latest_timestamp self ?t ms"
    by (simp add: latest_timestamp_def p)
  moreover have "t0 \<le> ?t" "i \<noteq> self \<longrightarrow> Timestamp m \<le> ?t" "?t = t0 \<or> i \<noteq> self \<and> ?t = Timestamp m"
    by auto
  ultimately show ?case
    using Cons [of ?t] by (auto simp: p simp del: if_split)
qed

text \<open>The timestamp of the write: one more than any the quorum knows.\<close>

definition next_ts :: "Dbnode \<Rightarrow> Message \<Rightarrow> (env \<times> Message) list \<Rightarrow> 64 word" where
  "next_ts n req ems =
     Max (insert (fst (lookup n (raw (Key req)))) (Timestamp ` snd ` set ems)) + 1"

lemma latest_timestamp_Max:
  assumes "set ps = set ms" "\<forall>i m. i \<noteq> self \<longrightarrow> (i, m) \<in> set ms \<longleftrightarrow> m \<in> A \<and> Src m = i"
    and "self \<notin> Src ` A" "finite A"
  shows "latest_timestamp self t0 ps = Max (insert t0 (Timestamp ` A))"
proof -
  note b = latest_timestamp_bounds [of t0 self ps]
  have A: "m \<in> A \<longleftrightarrow> (Src m, m) \<in> set ps \<and> Src m \<noteq> self" for m
    using assms(1-3) by auto
  show ?thesis
  proof (rule Max_eqI [symmetric])
    show "finite (insert t0 (Timestamp ` A))" using assms(4) by simp
    show "t \<le> latest_timestamp self t0 ps" if "t \<in> insert t0 (Timestamp ` A)" for t
      using that b A by fastforce
    show "latest_timestamp self t0 ps \<in> insert t0 (Timestamp ` A)"
    proof (cases "latest_timestamp self t0 ps = t0")
      case False
      with b obtain i m where "(i, m) \<in> set ps" "i \<noteq> self" "latest_timestamp self t0 ps = Timestamp m"
        by auto
      with assms(1,2) show ?thesis by auto
    qed simp
  qed
qed

definition commit_mark :: "64 word \<Rightarrow> Message" where
  "commit_mark ts = zeroMessage\<lparr>DemuxKey := NodeUnlockRequest, Timestamp := ts\<rparr>"

definition stage :: "Dbnode \<Rightarrow> Message \<Rightarrow> Store \<Rightarrow> 64 word \<Rightarrow> Dbnode" where
  "stage n req st tx = n\<lparr>dstore := st, uncommitedTxid := tx, uncommitedKey := Key req\<rparr>"

lemma stage_simps [simp]:
  "dbid (stage n req st tx) = dbid n" "numPeers (stage n req st tx) = numPeers n"
  "writeQuorumSize (stage n req st tx) = writeQuorumSize n" "Outgoing (stage n req st tx) = Outgoing n"
  "dstore (stage n req st tx) = st" "uncommitedTxid (stage n req st tx) = tx"
  "uncommitedKey (stage n req st tx) = Key req"
  "members_ok (stage n req st tx) = members_ok n" "quorum_ok (stage n req st tx) = quorum_ok n"
  by (simp_all add: stage_def members_ok_def quorum_ok_def fun_eq_iff)

lemma coord_stage:
  "(coord n req M ms w r)\<lparr>dstore := st, uncommitedTxid := tx, uncommitedKey := Key req\<rparr> =
    coord (stage n req st tx) req M ms w r"
  by (simp add: coord_def stage_def)

text \<open>Reading the local timestamp, and the timestamp computed from it and the answers.\<close>

lemma local_timestamp:
  assumes "node_ok n"
  obtains x u where "Store_Get no_fault (dstore n) k = Inr (x, False)"
    "(if length (raw x) > 0 then decodeTimestampVal x else Inr (0, None)) =
      Inr (fst (lookup n (raw k)), u)"
proof -
  obtain x where x: "Store_Get no_fault (dstore n) k = Inr (x, False)"
    "raw x = store_content (dstore n) (raw k)"
    using store.Get_content [of "dstore n" k] assms by (auto simp: node_ok_def)
  have "decodable x" using assms x(2) by (auto simp: node_ok_def decodable_def)
  from decode_entry [OF this] obtain v where "decodeTimestampVal x = Inr (fst (lookup n (raw k)), v)"
    by (auto simp: lookup_def x(2))
  then have "\<exists>u. (if length (raw x) > 0 then decodeTimestampVal x else Inr (0, None)) =
      Inr (fst (lookup n (raw k)), u)"
    by (cases "raw x") (auto simp: decodeTimestampVal_def)
  with x(1) that show thesis by blast
qed

lemma quorum_next_ts:
  assumes rec: "\<forall>i m. i \<noteq> dbid n \<longrightarrow> (i, m) \<in> set ms \<longleftrightarrow> m \<in> snd ` set ems \<and> Src m = i"
    and src: "dbid n \<notin> Src ` snd ` set ems" and ord: "valid_order (rangeOrder e 5)"
  shows "latest_timestamp (dbid n) (fst (lookup n (raw (Key req))))
      (range_members e 5 (coord n req M ms w r)) + 1 = next_ts n req ems"
proof -
  have sr: "set (range_members e 5 (coord n req M ms w r)) = set ms"
    using set_go_range [OF ord, of ms] by (simp add: range_members_def)
  show ?thesis
    unfolding next_ts_def by (subst latest_timestamp_Max [OF sr rec src]) simp_all
qed

lemma write_put_ok:
  assumes "members_ok n Q put_mark ms" "quorum_ok n Q" "knows_nodes r (numPeers n + 1)"
    and "int (card Q) + 1 = writeQuorumSize n" "node_ok n" "fits (Key req) (Value req)" "benign e"
    and rec: "\<forall>i m. i \<noteq> dbid n \<longrightarrow> (i, m) \<in> set ms \<longleftrightarrow> m \<in> snd ` set ems \<and> Src m = i"
    and src: "dbid n \<notin> Src ` snd ` set ems"
    and strong: "DemuxKey req = ClientStrongWriteRequest \<Longrightarrow> Timestamp req = next_ts n req ems"
  shows "\<exists>st tx r' ks. Store_Put no_fault (dstore n) (Key req)
      (encodeTimestampVal (next_ts n req ems) (Value req)) = Inr (st, tx) \<and>
    write_put e (coord n req coordinatingWrite ms 0 r) = Inr (coord (stage n req st tx) req
      coordinatingWrite (AList.update (dbid n) (commit_mark (next_ts n req ems)) ms) (int (card Q)) r') \<and>
    knows_nodes r' (numPeers n + 1) \<and> distinct ks \<and> set ks = Q \<and>
    map t_msg (tasks r') = map t_msg (tasks r) @
      map (\<lambda>i. put_request_msg (next_ts n req ems) (n\<lparr>clientRequest := req\<rparr>) i zeroMessage) ks"
proof -
  let ?n = "coord n req coordinatingWrite ms 0 r"
  let ?ts = "next_ts n req ems"
  have e: "calm e" "valid_order (rangeOrder e 5)" using assms(7) by (simp_all add: benign_def)
  obtain x u where x: "Store_Get no_fault (dstore n) (Key req) = Inr (x, False)"
    and u: "(if length (raw x) > 0 then decodeTimestampVal x else Inr (0, None)) =
      Inr (fst (lookup n (raw (Key req))), u)"
    by (rule local_timestamp [OF assms(5)])
  note ts = quorum_next_ts [OF rec src e(2), of req]
  have inv: "store_invar (dstore n)" using assms(5) by (simp add: node_ok_def)
  obtain st tx where p: "Store_Put no_fault (dstore n) (Key req) (encodeTimestampVal ?ts (Value req)) =
      Inr (st, tx)"
    using store.Put_total [OF inv fits_disk [OF assms(6)]] by blast
  let ?s = "stage n req st tx"
  obtain r' ks where s: "send_members e 6 (put_request_msg ?ts) True (coord ?s req coordinatingWrite ms 0 r) =
      Inr (coord ?s req coordinatingWrite ms 0 r')" "knows_nodes r' (numPeers n + 1)"
    "distinct ks" "set ks = Q" "map t_msg (tasks r') = map t_msg (tasks r) @
      map (\<lambda>i. put_request_msg ?ts (coord ?s req coordinatingWrite ms 0 r) i zeroMessage) ks"
    using phase_send [of ?s Q put_mark ms r "put_request_msg ?ts" e, where site = 6 and
        req = req and M = coordinatingWrite and w = 0 and u = True] assms(1-3,7) by auto
  have pm: "put_request_msg ?ts (coord ?s req coordinatingWrite ms 0 r) =
      put_request_msg ?ts (n\<lparr>clientRequest := req\<rparr>)"
    by (simp add: fun_eq_iff put_request_msg_def)
  have nostrong: "\<not> (DemuxKey req = ClientStrongWriteRequest \<and> Timestamp req \<noteq> ?ts)"
    using strong by blast
  have "write_put e ?n = Inr (coord ?s req coordinatingWrite
      (AList.update (dbid n) (commit_mark ?ts) ms) (int (card Q)) r')"
    using e(1) x u p s(1) nostrong assms(4)
    by (simp add: write_put_def calm_def ts Let_def coord_stage commit_mark_def set_member_def
        flip: assms(4)) blast
  with p s(2-4) s(5) [unfolded pm] show ?thesis by blast
qed

lemma timestamps_collected:
  assumes "phase n req Q coordinatingWrite NodeGetResponse put_mark n1" "quorum_ok n Q"
    and "int (card Q) + 1 = writeQuorumSize n" "collects NodeGetResponse Q req ems"
    and "node_ok n" "fits (Key req) (Value req)"
    and strong: "DemuxKey req = ClientStrongWriteRequest \<Longrightarrow> Timestamp req = next_ts n req ems"
  shows "\<exists>n2 st tx. fold_res (\<lambda>(e, m). handleGetRes e m) ems n1 = Inr n2 \<and>
    Store_Put no_fault (dstore n) (Key req) (encodeTimestampVal (next_ts n req ems) (Value req)) =
      Inr (st, tx) \<and>
    phase (stage n req st tx) req Q coordinatingWrite NodePutResponse
      (commit_mark (next_ts n req ems)) n2 \<and>
    sends (\<lambda>i. put_request_msg (next_ts n req ems) (n\<lparr>clientRequest := req\<rparr>) i zeroMessage) Q n1 n2"
proof -
  let ?e = "fst (last ems)" and ?ts = "next_ts n req ems"
  have "handleGetRes e m n' = count_answer e m (repeat_ack m n')"
    if "currentTxid n' = Id' m" "currentMode n' = coordinatingWrite" for e m n'
    using that by (simp add: handleGetRes_def repeat_ack_def)
  from phase_count [OF assms(1,4,2) this] obtain ms r where
    run: "fold_res (\<lambda>(e, m). handleGetRes e m) ems n1 =
      continueProcessing ?e (coord n req coordinatingWrite ms 0 r)"
    and ms: "members_ok n Q put_mark ms" and r: "knows_nodes r (numPeers n + 1)"
    and sent1: "map t_msg (tasks r) = sent n1" and e: "benign ?e"
    and rec: "\<forall>i m. i \<noteq> dbid n \<longrightarrow> (i, m) \<in> set ms \<longleftrightarrow> m \<in> snd ` set ems \<and> Src m = i"
    by blast
  have src: "dbid n \<notin> Src ` snd ` set ems"
    using assms(2,4) by (auto simp: collects_def quorum_ok_def)
  from write_put_ok [OF ms assms(2) r assms(3,5,6) e rec src strong] obtain st tx r' ks where
    p: "Store_Put no_fault (dstore n) (Key req) (encodeTimestampVal ?ts (Value req)) = Inr (st, tx)"
    and w: "write_put ?e (coord n req coordinatingWrite ms 0 r) = Inr (coord (stage n req st tx) req
      coordinatingWrite (AList.update (dbid n) (commit_mark ?ts) ms) (int (card Q)) r')"
    and r': "knows_nodes r' (numPeers n + 1)" and ks: "distinct ks" "set ks = Q"
    and sent2: "map t_msg (tasks r') = map t_msg (tasks r) @
      map (\<lambda>i. put_request_msg ?ts (n\<lparr>clientRequest := req\<rparr>) i zeroMessage) ks"
    by blast
  let ?n2 = "coord (stage n req st tx) req coordinatingWrite
    (AList.update (dbid n) (commit_mark ?ts) ms) (int (card Q)) r'"
  have run2: "fold_res (\<lambda>(e, m). handleGetRes e m) ems n1 = Inr ?n2"
    using run w by (simp add: continueProcessing_def continueWrite_def member_coord [OF ms] put_mark_def)
  have "DemuxKey m \<noteq> NodePutResponse" if "i \<noteq> dbid n" "(i, m) \<in> set ms" for i m
    using rec that assms(4) by (force simp: collects_def)
  then have "phase (stage n req st tx) req Q coordinatingWrite NodePutResponse (commit_mark ?ts) ?n2"
    using phase_next [of "stage n req st tx" Q put_mark ms r'] ms r' by simp
  moreover have "sends (\<lambda>i. put_request_msg ?ts (n\<lparr>clientRequest := req\<rparr>) i zeroMessage) Q n1 ?n2"
    using ks sent1 sent2 by (auto simp: sends_def sent_def)
  ultimately show ?thesis using run2 p by blast
qed

section \<open>Committing\<close>

definition write_ok_answer :: "Dbnode \<Rightarrow> Message \<Rightarrow> 64 word \<Rightarrow> Message" where
  "write_ok_answer n req ts =
     zeroMessage\<lparr>Id' := Id' req, Src := dbid n, Dest := Src req, DemuxKey := ClientWriteResponse,
       Key := Key req, Value := Value req, Timestamp := ts, Ok := True\<rparr>"

text \<open>What the coordinator's state is after a commit, and what it has sent.\<close>

definition committed :: "Dbnode \<Rightarrow> Message \<Rightarrow> 64 word \<Rightarrow> Dbnode \<Rightarrow> bool" where
  "committed n req ts n2 \<longleftrightarrow>
     currentMode n2 = idle \<and> currentTxid n2 = -1 \<and> quorumMembers n2 = None \<and>
     uncommitedKey n2 = None \<and> node_ok n2 \<and>
     lookup n2 = (lookup n)(raw (Key req) := (ts, raw (Value req))) \<and>
     Outgoing n2 = Outgoing n @ [write_ok_answer n req ts]"

lemma write_commit_ok:
  assumes "node_ok n" "fits (Key req) (Value req)"
    and put: "Store_Put no_fault (dstore n) (Key req) (encodeTimestampVal ts (Value req)) = Inr (st, tx)"
    and ms: "members_ok n Q (commit_mark ts) ms" and Q: "quorum_ok n Q"
    and r: "knows_nodes r (numPeers n + 1)" and e: "benign e"
  shows "\<exists>n2 ks. continueProcessing e (coord (stage n req st tx) req coordinatingWrite ms 0 r) = Inr n2 \<and>
    committed n req ts n2 \<and> distinct ks \<and> set ks = Q \<and>
    sent n2 = map t_msg (tasks r) @ map (\<lambda>i. unlock_msg True (n\<lparr>clientRequest := req\<rparr>) i zeroMessage) ks"
proof -
  let ?s = "stage n req st tx"
  have inv: "store_invar (dstore n)" using assms(1) by (simp add: node_ok_def)
  obtain st' where c: "Store_Commit no_fault st (Key req) tx = (st', True)" "store_invar st'"
    "store_content st' = (store_content (dstore n))(raw (Key req) := raw (encodeTimestampVal ts (Value req)))"
    using store.Put_Commit [OF inv fits_disk [OF assms(2)] put] by blast
  let ?c = "n\<lparr>dstore := st', uncommitedKey := None, uncommitedTxid := 0\<rparr>"
  let ?n = "coord ?c req coordinatingWrite ms 0 r"
  have base: "(coord ?s req coordinatingWrite ms 0 r)\<lparr>dstore := st', uncommitedKey := None,
      uncommitedTxid := 0\<rparr> = ?n"
    by (simp add: coord_def stage_def)
  have msc: "members_ok ?c Q (commit_mark ts) ms" "quorum_ok ?c Q" "knows_nodes r (numPeers ?c + 1)"
    using ms Q r by (simp_all add: members_ok_def quorum_ok_def)
  obtain r' ks where s: "send_members e 7 (unlock_msg True) True ?n =
      Inr (coord ?c req coordinatingWrite ms 0 r')" "distinct ks" "set ks = Q"
    "map t_msg (tasks r') = map t_msg (tasks r) @ map (\<lambda>i. unlock_msg True ?n i zeroMessage) ks"
    using phase_send [OF msc _ _ e, where mk = "unlock_msg True" and site = 7 and
        req = req and M = coordinatingWrite and w = 0 and u = True] by auto
  have um: "unlock_msg True ?n = unlock_msg True (n\<lparr>clientRequest := req\<rparr>)"
    by (simp add: fun_eq_iff unlock_msg_def)
  let ?n3 = "emit (write_ok_answer n req ts) (coord ?c req coordinatingWrite ms 0 r')"
  let ?n2 = "to_idle (?n3\<lparr>backgroundWriteDaemon := map_option
    (\<lambda>p. propagateTransaction p (Id' req) (map fst ms) (Key req) (Value req) ts)
    (backgroundWriteDaemon ?n3)\<rparr>)"
  have mem: "member (coord ?c req coordinatingWrite ms 0 r') (dbid n) = commit_mark ts"
    "member (coord ?s req coordinatingWrite ms 0 r) (dbid n) = commit_mark ts"
    using member_coord [OF msc(1)] member_coord [of ?s] ms by simp_all
  have "write_commit e (coord ?s req coordinatingWrite ms 0 r) = Inr ?n2"
    using c(1) e s(1) base mem(1)
    by (simp add: write_commit_def benign_def calm_def Let_def write_ok_answer_def commit_mark_def
        emit_def memberList_def)
  then have run: "continueProcessing e (coord ?s req coordinatingWrite ms 0 r) = Inr ?n2"
    using mem(2) by (simp add: continueProcessing_def continueWrite_def commit_mark_def)
  have "node_ok (n\<lparr>dstore := st'\<rparr>) \<and>
      lookup (n\<lparr>dstore := st'\<rparr>) = (lookup n)(raw (Key req) := (ts, raw (Value req)))"
    using assms(1) c(2,3) by (auto simp: node_ok_def decodable_def encode_length lookup_def fun_eq_iff)
  moreover have "dstore ?n2 = st'" by (simp add: to_idle_def emit_def)
  ultimately have "node_ok ?n2" "lookup ?n2 = (lookup n)(raw (Key req) := (ts, raw (Value req)))"
    using lookup_cong [of ?n2 "n\<lparr>dstore := st'\<rparr>"] by simp_all
  then have "committed n req ts ?n2"
    by (simp add: committed_def to_idle_def emit_def coord_def)
  moreover have "sent ?n2 =
      map t_msg (tasks r) @ map (\<lambda>i. unlock_msg True (n\<lparr>clientRequest := req\<rparr>) i zeroMessage) ks"
    using s(4) um by (simp add: sent_def to_idle_def emit_def)
  ultimately show ?thesis using run s(2,3) by blast
qed

lemma puts_collected:
  assumes "node_ok n" "fits (Key req) (Value req)"
    and put: "Store_Put no_fault (dstore n) (Key req) (encodeTimestampVal ts (Value req)) = Inr (st, tx)"
    and "phase (stage n req st tx) req Q coordinatingWrite NodePutResponse (commit_mark ts) n1"
    and "quorum_ok n Q" "collects NodePutResponse Q req ems"
  shows "\<exists>n2. fold_res (\<lambda>(e, m). handlePutRes e m) ems n1 = Inr n2 \<and> committed n req ts n2 \<and>
    sends (\<lambda>i. unlock_msg True (n\<lparr>clientRequest := req\<rparr>) i zeroMessage) Q n1 n2"
proof -
  let ?e = "fst (last ems)" and ?s = "stage n req st tx"
  have Q: "quorum_ok ?s Q" using assms(5) by simp
  have "handlePutRes e m n' = count_answer e m (repeat_ack m n')"
    if "currentTxid n' = Id' m" "currentMode n' = coordinatingWrite" for e m n'
    using that by (simp add: handlePutRes_def repeat_ack_def)
  from phase_count [OF assms(4,6) Q this] obtain ms r where
    run: "fold_res (\<lambda>(e, m). handlePutRes e m) ems n1 =
      continueProcessing ?e (coord ?s req coordinatingWrite ms 0 r)"
    and ms: "members_ok ?s Q (commit_mark ts) ms" and r: "knows_nodes r (numPeers ?s + 1)"
    and sent1: "map t_msg (tasks r) = sent n1" and e: "benign ?e"
    by blast
  have "members_ok n Q (commit_mark ts) ms" "knows_nodes r (numPeers n + 1)"
    using ms r by simp_all
  from write_commit_ok [OF assms(1,2) put this(1) assms(5) this(2) e] obtain n2 ks where
    "continueProcessing ?e (coord ?s req coordinatingWrite ms 0 r) = Inr n2" "committed n req ts n2"
    "distinct ks" "set ks = Q"
    "sent n2 = map t_msg (tasks r) @ map (\<lambda>i. unlock_msg True (n\<lparr>clientRequest := req\<rparr>) i zeroMessage) ks"
    by blast
  with run sent1 show ?thesis by (auto simp: sends_def)
qed

section \<open>The whole transaction\<close>

text \<open>
  Answers in any order within each phase: the write commits under a timestamp above every
  timestamp the quorum had, and every member is sent the four requests of the protocol.
\<close>

lemma write_transaction:
  assumes n: "wired n" "node_ok n" "quorumMembers n = None" "perm_ok e n"
    "2 \<le> writeQuorumSize n" "writeQuorumSize n \<le> numPeers n + 1"
    and req: "DemuxKey req \<in> {ClientWriteRequest, ClientStrongWriteRequest}"
      "fits (Key req) (Value req)"
  shows "\<exists>n1 Q. start_transaction e req n = Inr n1 \<and> quorum_ok n Q \<and>
    int (card Q) + 1 = writeQuorumSize n \<and> other_members n1 = Q \<and>
    sends (request_msg NodeLockRequestNoTimeout n1) Q n n1 \<and>
    (\<forall>ls gs ps. collects NodeLockResponse Q req ls \<and> collects NodeGetResponse Q req gs \<and>
        collects NodePutResponse Q req ps \<and>
        (DemuxKey req = ClientStrongWriteRequest \<longrightarrow> Timestamp req = next_ts n req gs) \<longrightarrow>
      (\<exists>n2 n3 n4. fold_res (\<lambda>(e, m). handleLockRes e m) ls n1 = Inr n2 \<and>
        sends (\<lambda>i. timestamp_request_msg (n\<lparr>clientRequest := req\<rparr>) i zeroMessage) Q n1 n2 \<and>
        fold_res (\<lambda>(e, m). handleGetRes e m) gs n2 = Inr n3 \<and> lookup n3 = lookup n \<and>
        sends (\<lambda>i. put_request_msg (next_ts n req gs) (n\<lparr>clientRequest := req\<rparr>) i zeroMessage) Q n2 n3 \<and>
        fold_res (\<lambda>(e, m). handlePutRes e m) ps n3 = Inr n4 \<and>
        committed n req (next_ts n req gs) n4 \<and>
        sends (\<lambda>i. unlock_msg True (n\<lparr>clientRequest := req\<rparr>) i zeroMessage) Q n3 n4))"
proof -
  from start_write [OF n(1,3,4) req(1) n(5,6)] obtain n1 Q where
    1: "start_transaction e req n = Inr n1" "quorum_ok n Q" "int (card Q) + 1 = writeQuorumSize n"
    "phase n req Q assemblingQuorum NodeLockResponse lock_mark n1"
    "sends (request_msg NodeLockRequestNoTimeout n1) Q n n1" by blast
  show ?thesis
  proof (rule exI [of _ n1], rule exI [of _ Q], intro conjI allI impI; (elim conjE)?)
    fix ls gs ps
    assume c: "collects NodeLockResponse Q req ls" "collects NodeGetResponse Q req gs"
      "collects NodePutResponse Q req ps"
      and strong: "DemuxKey req = ClientStrongWriteRequest \<longrightarrow> Timestamp req = next_ts n req gs"
    from locks_collected [OF 1(4,2,3) c(1)] obtain n2 where
      2: "fold_res (\<lambda>(e, m). handleLockRes e m) ls n1 = Inr n2"
      "phase n req Q coordinatingWrite NodeGetResponse put_mark n2"
      "sends (\<lambda>i. timestamp_request_msg (n\<lparr>clientRequest := req\<rparr>) i zeroMessage) Q n1 n2" by blast
    from timestamps_collected [OF 2(2) 1(2,3) c(2) n(2) req(2)] strong obtain n3 st tx where
      3: "fold_res (\<lambda>(e, m). handleGetRes e m) gs n2 = Inr n3"
      and put: "Store_Put no_fault (dstore n) (Key req)
        (encodeTimestampVal (next_ts n req gs) (Value req)) = Inr (st, tx)"
      and ph: "phase (stage n req st tx) req Q coordinatingWrite NodePutResponse
        (commit_mark (next_ts n req gs)) n3"
      and s3: "sends (\<lambda>i. put_request_msg (next_ts n req gs) (n\<lparr>clientRequest := req\<rparr>) i zeroMessage) Q n2 n3"
      by blast
    have "dstore n3 = st" using ph by (auto simp: phase_def)
    then have lk: "lookup n3 = lookup n"
      using Store_Put_any_fault(1) [OF put] by (simp add: lookup_def fun_eq_iff)
    from puts_collected [OF n(2) req(2) put ph 1(2) c(3)] obtain n4 where
      4: "fold_res (\<lambda>(e, m). handlePutRes e m) ps n3 = Inr n4" "committed n req (next_ts n req gs) n4"
      "sends (\<lambda>i. unlock_msg True (n\<lparr>clientRequest := req\<rparr>) i zeroMessage) Q n3 n4" by blast
    show "\<exists>n2 n3 n4. fold_res (\<lambda>(e, m). handleLockRes e m) ls n1 = Inr n2 \<and>
        sends (\<lambda>i. timestamp_request_msg (n\<lparr>clientRequest := req\<rparr>) i zeroMessage) Q n1 n2 \<and>
        fold_res (\<lambda>(e, m). handleGetRes e m) gs n2 = Inr n3 \<and> lookup n3 = lookup n \<and>
        sends (\<lambda>i. put_request_msg (next_ts n req gs) (n\<lparr>clientRequest := req\<rparr>) i zeroMessage) Q n2 n3 \<and>
        fold_res (\<lambda>(e, m). handlePutRes e m) ps n3 = Inr n4 \<and>
        committed n req (next_ts n req gs) n4 \<and>
        sends (\<lambda>i. unlock_msg True (n\<lparr>clientRequest := req\<rparr>) i zeroMessage) Q n3 n4"
      by (rule exI [of _ n2], rule exI [of _ n3], rule exI [of _ n4], intro conjI)
        (fact 2(1) 2(3) 3 lk s3 4)+
  qed (use 1 phase_others [OF 1(4,2)] in simp_all)
qed

end
