(* ===== verification/Dbnode_Read.thy ===== *)
theory Dbnode_Read
  imports Dbnode_Quorum
begin

text \<open>
  The read transaction (\<open>coordinatingFastRead\<close>) from the client's request to its answer, and
  what quorum intersection makes of it.
\<close>

section \<open>The newest answer\<close>

lemma foldl_newer:
  "(\<forall>m \<in> set ms. Timestamp m \<le> fst (foldl newer tv ms)) \<and> fst tv \<le> fst (foldl newer tv ms) \<and>
   (foldl newer tv ms = tv \<or> (\<exists>m \<in> set ms. foldl newer tv ms = (Timestamp m, Value m)))"
proof (induction ms arbitrary: tv)
  case Nil
  then show ?case by simp
next
  case (Cons m ms)
  have "fst tv \<le> fst (newer tv m)" "Timestamp m \<le> fst (newer tv m)"
    "newer tv m = tv \<or> newer tv m = (Timestamp m, Value m)"
    by (auto simp: newer_def)
  with Cons [of "newer tv m"] show ?case by (auto intro: order_trans)
qed

section \<open>The peer's side\<close>

text \<open>\<open>answers_get p q m\<close>: node \<open>p\<close> answers the request \<open>q\<close> with \<open>m\<close>.\<close>

definition answers_get :: "Dbnode \<Rightarrow> Message \<Rightarrow> Message \<Rightarrow> bool" where
  "answers_get p q m \<longleftrightarrow>
     (\<exists>e p'. calm e \<and> handleGetReq e q p = Inr p' \<and> Outgoing p' = Outgoing p @ [m])"

lemma handleGetReq_lookup:
  assumes "node_ok p" "calm e" "uncommitedKey p = None"
  shows "\<exists>v. handleGetReq e q p =
      Inr (emit (get_answer q p v (fst (lookup p (raw (Key q)))) True) p) \<and>
    raw v = snd (lookup p (raw (Key q)))"
proof -
  obtain x v where "Store_Get (getIO e) (dstore p) (Key q) = Inr (x, False)"
    "decodeTimestampVal x = Inr (fst (lookup p (raw (Key q))), v)"
    "raw v = snd (lookup p (raw (Key q)))"
    by (rule Get_lookup [OF assms(1,2), of "Key q"])
  with assms(3) show ?thesis
    by (intro exI [of _ v]) (simp add: handleGetReq_def fastReads_def)
qed

lemma answers_getD:
  assumes "answers_get p q m" "node_ok p" "uncommitedKey p = None"
  shows "Ok m" "DemuxKey m = NodeGetResponse" "Id' m = Id' q" "Src m = dbid p" "Dest m = Src q"
    "(Timestamp m, raw (Value m)) = lookup p (raw (Key q))"
proof -
  obtain e p' where e: "calm e" "handleGetReq e q p = Inr p'" "Outgoing p' = Outgoing p @ [m]"
    using assms(1) by (auto simp: answers_get_def)
  obtain v where "handleGetReq e q p =
      Inr (emit (get_answer q p v (fst (lookup p (raw (Key q)))) True) p)"
    and v: "raw v = snd (lookup p (raw (Key q)))"
    using handleGetReq_lookup [OF assms(2) e(1) assms(3)] by blast
  with e have m: "m = get_answer q p v (fst (lookup p (raw (Key q)))) True"
    by (auto simp: emit_def)
  show "Ok m" "DemuxKey m = NodeGetResponse" "Id' m = Id' q" "Src m = dbid p" "Dest m = Src q"
    "(Timestamp m, raw (Value m)) = lookup p (raw (Key q))"
    by (simp_all add: m get_answer_def v)
qed

section \<open>The coordinator's side\<close>

definition reading :: "Dbnode \<Rightarrow> Message \<Rightarrow> Dbnode \<Rightarrow> bool" where
  "reading n req n1 \<longleftrightarrow>
     (\<exists>r ms. n1 = n\<lparr>currentMode := coordinatingFastRead, currentTxid := Id' req, clientRequest := req,
        quorumMembers := Some ms, numWaitingNodes := readQuorumSize n - 1, requestRepeater := r\<rparr> \<and>
      distinct (map fst ms) \<and> int (length ms) = readQuorumSize n - 1 \<and>
      fst ` set ms \<subseteq> {0..numPeers n} - {dbid n} \<and>
      (\<forall>(k, m) \<in> set ms. m = request_msg NodeGetRequest n1 k) \<and>
      sent n1 = sent n @ map snd ms)"

lemma reading_members:
  assumes "reading n req n1"
  shows "distinct (map fst (memberList n1))" "int (length (memberList n1)) = readQuorumSize n - 1"
    "fst ` set (memberList n1) \<subseteq> {0..numPeers n} - {dbid n}"
    "\<forall>(k, m) \<in> set (memberList n1). Dest m = k \<and> Id' m = Id' req \<and> Key m = Key req"
    "sent n1 = sent n @ map snd (memberList n1)" "clientRequest n1 = req" "dbid n1 = dbid n"
proof -
  obtain r ms where n1: "n1 = n\<lparr>currentMode := coordinatingFastRead, currentTxid := Id' req,
      clientRequest := req, quorumMembers := Some ms, numWaitingNodes := readQuorumSize n - 1,
      requestRepeater := r\<rparr>"
    and ms: "distinct (map fst ms)" "int (length ms) = readQuorumSize n - 1"
      "fst ` set ms \<subseteq> {0..numPeers n} - {dbid n}"
      "\<forall>(k, m) \<in> set ms. m = request_msg NodeGetRequest n1 k" "sent n1 = sent n @ map snd ms"
    using assms unfolding reading_def by blast
  have ml: "memberList n1 = ms" by (simp add: n1 memberList_def)
  show "distinct (map fst (memberList n1))" "int (length (memberList n1)) = readQuorumSize n - 1"
    "fst ` set (memberList n1) \<subseteq> {0..numPeers n} - {dbid n}"
    "sent n1 = sent n @ map snd (memberList n1)" by (simp_all only: ml ms)
  show req: "clientRequest n1 = req" "dbid n1 = dbid n" by (simp_all add: n1)
  have "Id' (request_msg NodeGetRequest n1 k) = Id' req" "Key (request_msg NodeGetRequest n1 k) = Key req" for k
    by (simp_all add: request_msg_def req)
  with ms(4) show "\<forall>(k, m) \<in> set (memberList n1). Dest m = k \<and> Id' m = Id' req \<and> Key m = Key req"
    by (auto simp: ml request_msg_def)
qed

lemma start_fast_read:
  assumes "wired n" "quorumMembers n = None" "DemuxKey req = ClientReadRequest"
    and "perm_ok e n" "1 \<le> readQuorumSize n" "readQuorumSize n \<le> numPeers n + 1"
  shows "\<exists>n1. start_transaction e req n = Inr n1 \<and> reading n req n1"
proof -
  let ?n0 = "n\<lparr>currentTxid := Id' req, clientRequest := req, currentMode := coordinatingFastRead\<rparr>"
  have w: "wired ?n0" "perm_ok e ?n0"
    using assms(1,4) by (simp_all add: wired_def in_system_def perm_ok_def)
  have f: "chosen e (readQuorumSize n) ?n0 = chosen e (readQuorumSize n) n"
    by (simp add: chosen_def peer_node_def)
  have "1 \<le> readQuorumSize n" "readQuorumSize n \<le> numPeers ?n0 + 1" using assms(5,6) by simp_all
  from assembleQuorum_ok [OF w this, of NodeGetRequest] obtain r where r:
    "assembleQuorum e (readQuorumSize n) NodeGetRequest ?n0 =
      Inr (?n0\<lparr>quorumMembers := Some (quorum_map e (readQuorumSize n) NodeGetRequest ?n0),
        requestRepeater := r, numWaitingNodes := readQuorumSize n - 1\<rparr>)"
    "sending ?n0 (map (request_msg NodeGetRequest ?n0) (chosen e (readQuorumSize n) n)) r"
    by (auto simp: f)
  let ?ms = "quorum_map e (readQuorumSize n) NodeGetRequest ?n0"
  let ?n1 = "?n0\<lparr>quorumMembers := Some ?ms, requestRepeater := r,
    numWaitingNodes := readQuorumSize n - 1\<rparr>"
  have ms: "?ms = map (\<lambda>p. (p, request_msg NodeGetRequest ?n0 p)) (chosen e (readQuorumSize n) n)"
    by (simp add: quorum_map_def f marker_def)
  have step: "start_transaction e req n = Inr ?n1"
    using assms(2,3) r(1)
    by (simp add: start_transaction_def Let_def fastReads_def continueProcessing_def
        continueFastRead_def)
  have "in_system n (dbid n)" using assms(1) by (simp add: wired_def)
  note ch = chosen_ok [OF assms(4) this assms(5,6)]
  have "request_msg NodeGetRequest ?n1 = request_msg NodeGetRequest ?n0"
    by (simp add: fun_eq_iff request_msg_def)
  then have "\<forall>(k, m) \<in> set ?ms. m = request_msg NodeGetRequest ?n1 k"
    by (auto simp: ms)
  moreover have "sent ?n1 = sent n @ map snd ?ms"
    using r(2) by (simp add: sending_def sent_def ms comp_def)
  moreover have "distinct (map fst ?ms)" "int (length ?ms) = readQuorumSize n - 1"
    "fst ` set ?ms \<subseteq> {0..numPeers n} - {dbid n}"
    using ch by (auto simp: ms comp_def)
  ultimately have "reading n req ?n1"
    unfolding reading_def by (intro exI [of _ r] exI [of _ ?ms]) simp
  with step show ?thesis by blast
qed

text \<open>Answers from all members, in any order, end the transaction with one response.\<close>

lemma finish_fast_read:
  assumes "reading n req n1" "node_ok n" "2 \<le> readQuorumSize n"
    and env: "\<forall>(e, m) \<in> set ems. calm e \<and> valid_order (rangeOrder e 1)"
    and all: "distinct (map (Src \<circ> snd) ems)" "Src ` snd ` set ems = fst ` set (memberList n1)"
    and ok: "\<forall>(e, m) \<in> set ems. Ok m \<and> DemuxKey m = NodeGetResponse \<and> Id' m = Id' req"
  shows "\<exists>n2 tv. fold_res (\<lambda>(e, m). handleGetRes e m) ems n1 = Inr n2 \<and>
    Outgoing n2 = Outgoing n @ [read_answer n1 tv] \<and> currentMode n2 = idle \<and> currentTxid n2 = -1 \<and>
    dstore n2 = dstore n \<and>
    (\<forall>m \<in> snd ` set ems. Timestamp m \<le> fst tv) \<and> fst (lookup n (raw (Key req))) \<le> fst tv \<and>
    ((fst tv, raw (snd tv)) = lookup n (raw (Key req)) \<or>
     (\<exists>m \<in> snd ` set ems. tv = (Timestamp m, Value m)))"
proof -
  obtain r ms where n1: "n1 = n\<lparr>currentMode := coordinatingFastRead, currentTxid := Id' req,
      clientRequest := req, quorumMembers := Some ms, numWaitingNodes := readQuorumSize n - 1,
      requestRepeater := r\<rparr>"
    and ms: "distinct (map fst ms)" "int (length ms) = readQuorumSize n - 1"
      "\<forall>(k, m) \<in> set ms. m = request_msg NodeGetRequest n1 k"
    using assms(1) unfolding reading_def by blast
  let ?as = "map snd ems"
  have ml: "memberList n1 = ms" by (simp add: n1 memberList_def)
  have len: "length ems = length ms"
  proof -
    have "card (set (map Src ?as)) = card (set (map fst ms))"
      using all(2) ml by (simp add: image_image)
    then show ?thesis
      using distinct_card [of "map Src ?as"] distinct_card [of "map fst ms"] all(1) ms(1)
      by simp
  qed
  then have ne: "ems \<noteq> []" using ms(2) assms(3) by auto
  have key: "DemuxKey (member n1 k) \<noteq> NodeGetResponse" for k
  proof (cases "map_of ms k")
    case (Some m)
    then have "m = request_msg NodeGetRequest n1 k" using ms(3) by (auto dest: map_of_SomeD)
    with Some show ?thesis by (simp add: member_def ml get_or_def request_msg_def)
  qed (simp add: member_def ml get_or_def)
  have "answering NodeGetResponse ?as n1"
    using ok key all(1) len ms(2) by (auto simp: answering_def n1)
  from count_phase [OF this ne, of handleGetRes]
  have run: "fold_res (\<lambda>(e, m). handleGetRes e m) ems n1 = continueProcessing (fst (last ems))
      (n1\<lparr>requestRepeater := ack_all ?as (requestRepeater n1),
         quorumMembers := Some (record_answers ?as n1), numWaitingNodes := 0\<rparr>)"
    using ok by (force simp: handleGetRes_def n1 repeat_ack_def)
  let ?e = "fst (last ems)"
  let ?n2 = "n1\<lparr>requestRepeater := ack_all ?as (requestRepeater n1),
    quorumMembers := Some (record_answers ?as n1), numWaitingNodes := 0\<rparr>"
  have e: "calm ?e" "valid_order (rangeOrder ?e 1)"
    using bspec [OF env last_in_set [OF ne]] by (simp_all add: case_prod_beta)
  obtain x v where x: "Store_Get (getIO ?e) (dstore n) (Key req) = Inr (x, False)"
    "decodeTimestampVal x = Inr (fst (lookup n (raw (Key req))), v)"
    "raw v = snd (lookup n (raw (Key req)))"
    by (rule Get_lookup [OF assms(2) e(1), of "Key req"])
  let ?tv = "foldl newer (fst (lookup n (raw (Key req))), v) (map snd (range_members ?e 1 ?n2))"
  have "continueProcessing ?e ?n2 = Inr (to_idle (emit (read_answer ?n2 ?tv) ?n2))"
    using x by (simp add: continueProcessing_def continueFastRead_def n1)
  moreover have "read_answer ?n2 = read_answer n1"
    by (simp add: fun_eq_iff read_answer_def)
  moreover have "set (map snd (range_members ?e 1 ?n2)) = snd ` set ems"
  proof -
    have "set (range_members ?e 1 ?n2) = set (record_answers ?as n1)"
      using set_go_range [OF e(2)] by (simp add: range_members_def memberList_def)
    also have "snd ` \<dots> = set ?as"
    proof -
      have rec: "(k, m) \<in> set (record_answers ?as n1) \<longleftrightarrow> m \<in> set ?as \<and> Src m = k" for k m
        using record_answers_set(2) [of ?as n1 k m] all ms(1) ml
        by (auto simp: image_image split: if_splits) force+
      then show ?thesis by (force simp: image_iff)
    qed
    finally show ?thesis by simp
  qed
  ultimately show ?thesis
    using run foldl_newer [of "map snd (range_members ?e 1 ?n2)" "(fst (lookup n (raw (Key req))), v)"] x(3)
    by (intro exI [of _ "to_idle (emit (read_answer n1 ?tv) ?n2)"] exI [of _ ?tv])
      (auto simp: to_idle_def emit_def n1 prod_eq_iff)
qed

section \<open>A read quorum meets every write quorum\<close>

lemma quorums_intersect:
  fixes N :: int
  assumes "A \<subseteq> {0..N}" "B \<subseteq> {0..N}" "int (card A) + int (card B) > N + 1" "0 \<le> N"
  shows "A \<inter> B \<noteq> {}"
proof
  assume "A \<inter> B = {}"
  moreover have fin: "finite A" "finite B" using assms(1,2) finite_subset by blast+
  ultimately have "card A + card B = card (A \<union> B)" by (simp add: card_Un_disjoint)
  also have "\<dots> \<le> card {0..N}" by (rule card_mono) (use assms(1,2) in auto)
  finally show False using assms(3,4) by simp
qed

text \<open>
  \<open>answered peers qs ems\<close>: the messages of \<open>ems\<close> are the peers' answers to the requests
  \<open>qs\<close>, one each, in some order; with each comes the environment of its delivery.
\<close>

definition answered :: "(int \<Rightarrow> Dbnode) \<Rightarrow> Message list \<Rightarrow> (env \<times> Message) list \<Rightarrow> bool" where
  "answered peers qs ems \<longleftrightarrow>
     (\<exists>qs'. mset qs' = mset qs \<and>
       list_all2 (\<lambda>q (e, m). answers_get (peers (Dest q)) q m \<and> calm e \<and> valid_order (rangeOrder e 1))
         qs' ems)"

definition readable :: "int \<Rightarrow> Dbnode \<Rightarrow> bool" where
  "readable p n \<longleftrightarrow> node_ok n \<and> dbid n = p \<and> uncommitedKey n = None"

lemma answered_members:
  assumes "answered peers qs ems" "\<forall>q \<in> set qs. readable (Dest q) (peers (Dest q))"
  shows "mset (map (Src \<circ> snd) ems) = mset (map Dest qs)"
    "\<forall>(e, m) \<in> set ems. calm e \<and> valid_order (rangeOrder e 1) \<and>
      (\<exists>q \<in> set qs. Src m = Dest q \<and> Ok m \<and> DemuxKey m = NodeGetResponse \<and> Id' m = Id' q \<and>
        (Timestamp m, raw (Value m)) = lookup (peers (Dest q)) (raw (Key q)))"
proof -
  obtain qs' where qs': "mset qs' = mset qs"
    and la: "list_all2 (\<lambda>q (e, m). answers_get (peers (Dest q)) q m \<and> calm e \<and>
      valid_order (rangeOrder e 1)) qs' ems"
    using assms(1) by (auto simp: answered_def)
  have set: "set qs' = set qs" using qs' by (rule mset_eq_setD)
  have each: "list_all2 (\<lambda>q (e, m). q \<in> set qs \<and> calm e \<and> valid_order (rangeOrder e 1) \<and>
      Src m = Dest q \<and> Ok m \<and> DemuxKey m = NodeGetResponse \<and> Id' m = Id' q \<and>
      (Timestamp m, raw (Value m)) = lookup (peers (Dest q)) (raw (Key q))) qs' ems"
    by (rule list.rel_mono_strong [OF la])
      (use assms(2) set in \<open>auto simp: readable_def dest: answers_getD\<close>)
  then have "map (Src \<circ> snd) ems = map Dest qs'"
    by (induction rule: list_all2_induct) auto
  then show "mset (map (Src \<circ> snd) ems) = mset (map Dest qs)"
    using qs' by (metis mset_map)
  show "\<forall>(e, m) \<in> set ems. calm e \<and> valid_order (rangeOrder e 1) \<and>
      (\<exists>q \<in> set qs. Src m = Dest q \<and> Ok m \<and> DemuxKey m = NodeGetResponse \<and> Id' m = Id' q \<and>
        (Timestamp m, raw (Value m)) = lookup (peers (Dest q)) (raw (Key q)))"
    using each by (induction rule: list_all2_induct) auto
qed

text \<open>The answers of the peers to the requests of a fast read: one of each member, all positive.\<close>

lemma answers_to_fast_read:
  assumes "reading n req n1" "answered peers (map snd (memberList n1)) ems"
    and "\<forall>p. in_system n p \<and> p \<noteq> dbid n \<longrightarrow> readable p (peers p)"
  shows "distinct (map (Src \<circ> snd) ems)" "Src ` snd ` set ems = fst ` set (memberList n1)"
    "\<forall>(e, m) \<in> set ems. calm e \<and> valid_order (rangeOrder e 1)"
    "\<forall>(e, m) \<in> set ems. Ok m \<and> DemuxKey m = NodeGetResponse \<and> Id' m = Id' req"
    "\<forall>m \<in> snd ` set ems. (Timestamp m, raw (Value m)) = lookup (peers (Src m)) (raw (Key req))"
proof -
  let ?ms = "memberList n1"
  note ms = reading_members [OF assms(1)]
  have q: "Dest m = k \<and> Id' m = Id' req \<and> Key m = Key req" if "(k, m) \<in> set ?ms" for k m
    using ms(4) that by auto
  have rdb: "\<forall>q \<in> set (map snd ?ms). readable (Dest q) (peers (Dest q))"
  proof
    fix m assume "m \<in> set (map snd ?ms)"
    then obtain k where k: "(k, m) \<in> set ?ms" by auto
    with ms(3) have "in_system n k" "k \<noteq> dbid n" by (auto simp: in_system_def)
    with q [OF k] assms(3) show "readable (Dest m) (peers (Dest m))" by simp
  qed
  note am = answered_members [OF assms(2) rdb]
  have srcs: "mset (map (Src \<circ> snd) ems) = mset (map fst ?ms)"
  proof -
    have "map Dest (map snd ?ms) = map fst ?ms" using q by auto
    with am(1) show ?thesis by (simp only:)
  qed
  then show "distinct (map (Src \<circ> snd) ems)" using ms(1) by (metis mset_eq_imp_distinct_iff)
  show "Src ` snd ` set ems = fst ` set (memberList n1)"
    using mset_eq_setD [OF srcs] by (simp add: image_comp)
  have each: "calm e \<and> valid_order (rangeOrder e 1) \<and> Ok m \<and> DemuxKey m = NodeGetResponse \<and>
      Id' m = Id' req \<and> (Timestamp m, raw (Value m)) = lookup (peers (Src m)) (raw (Key req))"
    if em: "(e, m) \<in> set ems" for e m
  proof -
    obtain k mm where "(k, mm) \<in> set ?ms" "Src m = Dest mm" "Ok m" "DemuxKey m = NodeGetResponse"
      "Id' m = Id' mm" "(Timestamp m, raw (Value m)) = lookup (peers (Dest mm)) (raw (Key mm))"
      "calm e" "valid_order (rangeOrder e 1)"
      using bspec [OF am(2) em] by auto
    with q [OF this(1)] show ?thesis by auto
  qed
  then show "\<forall>(e, m) \<in> set ems. calm e \<and> valid_order (rangeOrder e 1)"
    "\<forall>(e, m) \<in> set ems. Ok m \<and> DemuxKey m = NodeGetResponse \<and> Id' m = Id' req"
    "\<forall>m \<in> snd ` set ems. (Timestamp m, raw (Value m)) = lookup (peers (Src m)) (raw (Key req))"
    by auto
qed

text \<open>The coordinator and its members are a read quorum, so one of them is in the write quorum.\<close>

lemma reading_meets_quorum:
  assumes "reading n req n1" "wired n" "2 \<le> readQuorumSize n" "readQuorumSize n \<le> numPeers n + 1"
    and "WQ \<subseteq> {0..numPeers n}" "numPeers n + 1 < readQuorumSize n + int (card WQ)"
  shows "\<exists>p \<in> WQ. p = dbid n \<or> p \<in> fst ` set (memberList n1)"
proof -
  let ?ms = "memberList n1"
  note ms = reading_members(1-3) [OF assms(1)]
  let ?RQ = "insert (dbid n) (fst ` set ?ms)"
  have sub: "?RQ \<subseteq> {0..numPeers n}" using ms(3) assms(2) by (auto simp: wired_def in_system_def)
  have "card (fst ` set ?ms) = length ?ms" using distinct_card [OF ms(1)] by simp
  then have card: "int (card ?RQ) = readQuorumSize n" using ms(2,3) by (subst card_insert_disjoint) auto
  have "0 \<le> numPeers n" using assms(3,4) by simp
  with quorums_intersect [OF sub assms(5)] card assms(6) show ?thesis by auto
qed

lemma fast_read_sees_quorum:
  assumes n: "wired n" "node_ok n" "quorumMembers n = None" "perm_ok e n"
    "2 \<le> readQuorumSize n" "readQuorumSize n \<le> numPeers n + 1"
    and req: "DemuxKey req = ClientReadRequest"
    and peers: "peers (dbid n) = n"
      "\<And>p. in_system n p \<Longrightarrow> p \<noteq> dbid n \<Longrightarrow> readable p (peers p)"
    and wq: "WQ \<subseteq> {0..numPeers n}" "numPeers n + 1 < readQuorumSize n + int (card WQ)"
      "\<And>p. p \<in> WQ \<Longrightarrow> ts \<le> fst (lookup (peers p) (raw (Key req)))"
  shows "\<exists>n1 qs. start_transaction e req n = Inr n1 \<and> sent n1 = sent n @ qs \<and>
    (\<forall>ems. answered peers qs ems \<longrightarrow>
      (\<exists>n2 a. fold_res (\<lambda>(e, m). handleGetRes e m) ems n1 = Inr n2 \<and>
        currentMode n2 = idle \<and> Outgoing n2 = Outgoing n @ [a] \<and>
        DemuxKey a = ClientReadResponse \<and> Id' a = Id' req \<and> Dest a = Src req \<and> Ok a \<and>
        ts \<le> Timestamp a \<and>
        (\<exists>p \<in> {0..numPeers n}. (Timestamp a, raw (Value a)) = lookup (peers p) (raw (Key req)))))"
proof -
  have "1 \<le> readQuorumSize n" using n(5) by simp
  with start_fast_read [OF n(1,3) req n(4) _ n(6)] obtain n1 where
    st: "start_transaction e req n = Inr n1" and rd: "reading n req n1" by blast
  note mem = reading_members [OF rd]
  have fin: "\<exists>n2 a. fold_res (\<lambda>(e, m). handleGetRes e m) ems n1 = Inr n2 \<and>
        currentMode n2 = idle \<and> Outgoing n2 = Outgoing n @ [a] \<and>
        DemuxKey a = ClientReadResponse \<and> Id' a = Id' req \<and> Dest a = Src req \<and> Ok a \<and>
        ts \<le> Timestamp a \<and>
        (\<exists>p \<in> {0..numPeers n}. (Timestamp a, raw (Value a)) = lookup (peers p) (raw (Key req)))"
    if "answered peers (map snd (memberList n1)) ems" for ems
  proof -
    have "\<forall>p. in_system n p \<and> p \<noteq> dbid n \<longrightarrow> readable p (peers p)" using peers(2) by blast
    note as = answers_to_fast_read [OF rd that this]
    from finish_fast_read [OF rd n(2,5) as(3,1,2,4)]
    obtain n2 tv where f: "fold_res (\<lambda>(e, m). handleGetRes e m) ems n1 = Inr n2"
      "Outgoing n2 = Outgoing n @ [read_answer n1 tv]" "currentMode n2 = idle"
      "\<forall>m \<in> snd ` set ems. Timestamp m \<le> fst tv" "fst (lookup n (raw (Key req))) \<le> fst tv"
      "(fst tv, raw (snd tv)) = lookup n (raw (Key req)) \<or>
       (\<exists>m \<in> snd ` set ems. tv = (Timestamp m, Value m))"
      by (elim exE conjE) (rule that)
    obtain p where p: "p \<in> WQ" "p = dbid n \<or> p \<in> fst ` set (memberList n1)"
      using reading_meets_quorum [OF rd n(1,5,6) wq(1,2)] by blast
    have "fst (lookup (peers p) (raw (Key req))) \<le> fst tv"
      using p(2)
    proof
      assume "p \<in> fst ` set (memberList n1)"
      then obtain m where m: "m \<in> snd ` set ems" "p = Src m" unfolding as(2) [symmetric] by blast
      with as(5) have "fst (lookup (peers p) (raw (Key req))) = Timestamp m" by (metis fst_conv)
      with bspec [OF f(4) m(1)] show ?thesis by simp
    qed (use f(5) peers(1) in simp)
    with wq(3) [OF p(1)] have "ts \<le> fst tv" by simp
    moreover have "\<exists>p \<in> {0..numPeers n}. (fst tv, raw (snd tv)) = lookup (peers p) (raw (Key req))"
      using f(6)
    proof
      assume "(fst tv, raw (snd tv)) = lookup n (raw (Key req))"
      with peers(1) n(1) show ?thesis by (intro bexI [of _ "dbid n"]) (auto simp: wired_def in_system_def)
    next
      assume "\<exists>m \<in> snd ` set ems. tv = (Timestamp m, Value m)"
      then obtain m where m: "m \<in> snd ` set ems" "tv = (Timestamp m, Value m)" by blast
      then have "Src m \<in> {0..numPeers n}" using as(2) mem(3) by blast
      with m as(5) show ?thesis by (intro bexI [of _ "Src m"]) auto
    qed
    ultimately show ?thesis
      using f(1-3) by (intro exI [of _ n2] exI [of _ "read_answer n1 tv"]) (simp add: read_answer_def mem(6,7))
  qed
  show ?thesis
    by (rule exI [of _ n1], rule exI [of _ "map snd (memberList n1)"]) (use st mem(5) fin in blast)
qed

end
