(* ===== verification/Dbnode_Abort.thy ===== *)
theory Dbnode_Abort
  imports Dbnode_Write Dbnode_Read
begin

text \<open>
  The other end of a write: aborting releases the quorum and answers the client, and a
  strong write under the wrong timestamp is refused that way. And what a quorum of
  timestamps says about the next one.
\<close>

section \<open>Aborting a write\<close>

definition write_failed_answer :: "Dbnode \<Rightarrow> Message \<Rightarrow> Message" where
  "write_failed_answer n req =
     zeroMessage\<lparr>Id' := Id' req, Src := dbid n, Dest := Src req, DemuxKey := ClientWriteResponse,
       Key := Key req, Value := Value req, Timestamp := Timestamp req, Ok := False\<rparr>"

lemma rollback_frame:
  "dbid (rollback_uncommitted e n) = dbid n" "numPeers (rollback_uncommitted e n) = numPeers n"
  "Outgoing (rollback_uncommitted e n) = Outgoing n"
  "rollback_uncommitted e (coord n req M ms w r) = coord (rollback_uncommitted e n) req M ms w r"
  by (simp_all add: rollback_uncommitted_def coord_def)

lemma rollback_lookup: "lookup (rollback_uncommitted e n) = lookup n"
  by (simp add: rollback_uncommitted_def lookup_def fun_eq_iff)

definition released :: "Dbnode \<Rightarrow> Message \<Rightarrow> Dbnode \<Rightarrow> bool" where
  "released n req n2 \<longleftrightarrow>
     currentMode n2 = idle \<and> currentTxid n2 = -1 \<and> quorumMembers n2 = None \<and>
     lookup n2 = lookup n \<and> Outgoing n2 = Outgoing n @ [write_failed_answer n req]"

lemma abort_write:
  assumes "members_ok n Q mark ms" "quorum_ok n Q" "knows_nodes r (numPeers n + 1)" "benign e"
    and "M \<in> {assemblingQuorum, coordinatingWrite}"
  shows "\<exists>n2 ks. abortProcessing e (coord n req M ms w r) = Inr n2 \<and> released n req n2 \<and>
    distinct ks \<and> set ks = Q \<and>
    sent n2 = map t_msg (tasks r) @ map (\<lambda>i. unlock_msg False (n\<lparr>clientRequest := req\<rparr>) i zeroMessage) ks"
proof -
  let ?n = "rollback_uncommitted e n"
  have ms: "members_ok ?n Q mark ms" "quorum_ok ?n Q" "knows_nodes r (numPeers ?n + 1)"
    using assms(1-3) by (simp_all add: members_ok_def quorum_ok_def rollback_frame)
  obtain r' ks where s: "send_members e 0 (unlock_msg False) True (coord ?n req M ms w r) =
      Inr (coord ?n req M ms w r')" "distinct ks" "set ks = Q"
    "map t_msg (tasks r') = map t_msg (tasks r) @
      map (\<lambda>i. unlock_msg False (coord ?n req M ms w r) i zeroMessage) ks"
    using phase_send [OF ms _ _ assms(4), where mk = "unlock_msg False" and site = 0 and
        req = req and M = M and w = w and u = True] by auto
  have um: "unlock_msg False (coord ?n req M ms w r) = unlock_msg False (n\<lparr>clientRequest := req\<rparr>)"
    by (simp add: fun_eq_iff unlock_msg_def rollback_frame)
  let ?n2 = "to_idle (emit (write_failed_answer n req) (coord ?n req M ms w r'))"
  have "abortProcessing e (coord n req M ms w r) = Inr ?n2"
    using s(1) assms(5)
    by (auto simp: abortProcessing_def rollback_frame abort_answer_def write_failed_answer_def)
  moreover have "released n req ?n2"
    using rollback_lookup [of e n] lookup_cong [of "coord ?n req M ms w r'" ?n]
    by (simp add: released_def rollback_frame) (simp add: to_idle_def emit_def rollback_frame)
  moreover have "sent ?n2 = map t_msg (tasks r) @
      map (\<lambda>i. unlock_msg False (n\<lparr>clientRequest := req\<rparr>) i zeroMessage) ks"
    using s(4) um by (simp add: sent_def to_idle_def emit_def)
  ultimately show ?thesis using s(2,3) by blast
qed

text \<open>The timer of the main loop reaches a waiting write this way.\<close>

lemma abort_phase:
  assumes "phase n req Q M k mark n1" "quorum_ok n Q" "benign e"
    and "M \<in> {assemblingQuorum, coordinatingWrite}"
  shows "\<exists>n2. abortProcessing e n1 = Inr n2 \<and> released n req n2 \<and>
    sends (\<lambda>i. unlock_msg False (n\<lparr>clientRequest := req\<rparr>) i zeroMessage) Q n1 n2"
proof -
  obtain ms r where n1: "n1 = coord n req M ms (int (card Q)) r"
    and r: "knows_nodes r (numPeers n + 1)" and ms: "members_ok n Q mark ms"
    using assms(1) unfolding phase_def by blast
  from abort_write [OF ms assms(2) r assms(3,4)] show ?thesis
    unfolding n1 sends_def sent_def coord_simps by blast
qed

section \<open>A strong write at the wrong timestamp\<close>

lemma strong_write_refused:
  assumes "phase n req Q coordinatingWrite NodeGetResponse put_mark n1" "quorum_ok n Q"
    and "collects NodeGetResponse Q req ems" "node_ok n"
    and "DemuxKey req = ClientStrongWriteRequest" "Timestamp req \<noteq> next_ts n req ems"
  shows "\<exists>n2. fold_res (\<lambda>(e, m). handleGetRes e m) ems n1 = Inr n2 \<and>
    released n (req\<lparr>Timestamp := next_ts n req ems\<rparr>) n2 \<and>
    sends (\<lambda>i. unlock_msg False (n\<lparr>clientRequest := req\<rparr>) i zeroMessage) Q n1 n2"
proof -
  let ?e = "fst (last ems)" and ?ts = "next_ts n req ems"
  let ?req = "req\<lparr>Timestamp := ?ts\<rparr>"
  have "handleGetRes e m n' = count_answer e m (repeat_ack m n')"
    if "currentTxid n' = Id' m" "currentMode n' = coordinatingWrite" for e m n'
    using that by (simp add: handleGetRes_def repeat_ack_def)
  from phase_count [OF assms(1,3,2) this] obtain ms r where
    run: "fold_res (\<lambda>(e, m). handleGetRes e m) ems n1 =
      continueProcessing ?e (coord n req coordinatingWrite ms 0 r)"
    and ms: "members_ok n Q put_mark ms" and r: "knows_nodes r (numPeers n + 1)"
    and sent1: "map t_msg (tasks r) = sent n1" and e: "benign ?e"
    and rec: "\<forall>i m. i \<noteq> dbid n \<longrightarrow> (i, m) \<in> set ms \<longleftrightarrow> m \<in> snd ` set ems \<and> Src m = i"
    by blast
  have src: "dbid n \<notin> Src ` snd ` set ems"
    using assms(2,3) by (auto simp: collects_def quorum_ok_def)
  obtain x u where g: "Store_Get no_fault (dstore n) (Key req) = Inr (x, False)"
    "(if length (raw x) > 0 then decodeTimestampVal x else Inr (0, None)) =
      Inr (fst (lookup n (raw (Key req))), u)"
    by (rule local_timestamp [OF assms(4)])
  have "valid_order (rangeOrder ?e 5)" using e by (simp add: benign_def)
  note ts = quorum_next_ts [OF rec src this, of req]
  have base: "(coord n req coordinatingWrite ms 0 r)\<lparr>clientRequest := ?req\<rparr> =
      coord n ?req coordinatingWrite ms 0 r"
    by (simp add: coord_def)
  from abort_write [OF ms assms(2) r e, of coordinatingWrite ?req 0] obtain n2 ks where
    ab: "abortProcessing ?e (coord n ?req coordinatingWrite ms 0 r) = Inr n2" "released n ?req n2"
      "distinct ks" "set ks = Q"
      "sent n2 = map t_msg (tasks r) @ map (\<lambda>i. unlock_msg False (n\<lparr>clientRequest := ?req\<rparr>) i zeroMessage) ks"
    by auto
  have "unlock_msg False (n\<lparr>clientRequest := ?req\<rparr>) = unlock_msg False (n\<lparr>clientRequest := req\<rparr>)"
    by (simp add: fun_eq_iff unlock_msg_def)
  moreover have "write_put ?e (coord n req coordinatingWrite ms 0 r) = Inr n2"
    using g ts e assms(5,6) ab(1) base
    by (simp add: write_put_def benign_def calm_def Let_def)
  ultimately show ?thesis
    using run ab(2-5) sent1
    by (auto simp: continueProcessing_def continueWrite_def member_coord [OF ms] put_mark_def sends_def)
qed

section \<open>The next timestamp is new\<close>

lemma word_less_Suc:
  fixes x :: "64 word"
  assumes "x \<noteq> -1"
  shows "x < x + 1"
proof -
  have "1 + x \<noteq> 0" using assms by (simp add: eq_neg_iff_add_eq_0 add.commute)
  then have "unat (1 + x) = Suc (unat x)" by (rule unatSuc)
  then show ?thesis by (simp add: word_less_nat_alt add.commute)
qed

text \<open>
  When the members answered with their timestamps, the write's timestamp is above that of
  every earlier write that reached enough nodes to meet the quorum.
\<close>

lemma next_ts_fresh:
  assumes "quorum_ok n Q" "in_system n (dbid n)" "collects k Q req gs" "peers (dbid n) = n"
    and honest: "\<And>e m. (e, m) \<in> set gs \<Longrightarrow> Timestamp m = fst (lookup (peers (Src m)) (raw (Key req)))"
    and room: "\<And>p. in_system n p \<Longrightarrow> fst (lookup (peers p) (raw (Key req))) \<noteq> -1"
    and wq: "WQ \<subseteq> {0..numPeers n}" "numPeers n + 1 < int (card Q) + 1 + int (card WQ)"
      "\<And>p. p \<in> WQ \<Longrightarrow> ts \<le> fst (lookup (peers p) (raw (Key req)))"
  shows "ts < next_ts n req gs"
proof -
  let ?t = "\<lambda>p. fst (lookup (peers p) (raw (Key req)))"
  let ?Q = "insert (dbid n) Q"
  have Q: "finite Q" "Q \<subseteq> {0..numPeers n}" "dbid n \<notin> Q" using assms(1) by (auto simp: quorum_ok_def)
  have "Timestamp ` snd ` set gs = ?t ` Src ` snd ` set gs"
    using honest by force
  then have eq: "insert (fst (lookup n (raw (Key req)))) (Timestamp ` snd ` set gs) = ?t ` ?Q"
    using assms(3,4) by (simp add: collects_def)
  have sub: "?Q \<subseteq> {0..numPeers n}" using Q(2) assms(2) by (auto simp: in_system_def)
  have "0 \<le> numPeers n" using assms(2) by (simp add: in_system_def)
  with quorums_intersect [OF sub wq(1)] Q wq(2) obtain p where p: "p \<in> ?Q" "p \<in> WQ" by auto
  have fin: "finite (?t ` ?Q)" using Q(1) by simp
  have "ts \<le> ?t p" using wq(3) [OF p(2)] .
  also have "\<dots> \<le> Max (?t ` ?Q)" using fin p(1) by (intro Max_ge) auto
  finally have le: "ts \<le> Max (?t ` ?Q)" .
  have "Max (?t ` ?Q) \<in> ?t ` ?Q" using fin by (intro Max_in) auto
  then have "Max (?t ` ?Q) \<noteq> -1" using room sub by (auto simp: in_system_def)
  from le_less_trans [OF le word_less_Suc [OF this]] show ?thesis
    unfolding next_ts_def eq .
qed

end
