(* ===== verification/Dbnode_Participant.thy ===== *)
theory Dbnode_Participant
  imports Dbnode_Data
begin

text \<open>
  A node as a participant of another node's write: once it has answered \<open>NodePutResponse\<close>
  it keeps the staged value through every event of its main loop, until the coordinator's
  unlock request arrives, and then commits it.
\<close>

section \<open>The vote\<close>

text \<open>
  The node has staged \<open>enc\<close> at \<open>k\<close> for transaction \<open>t\<close>. \<open>b\<close> bounds the writes still to
  come, so that the store's 64-bit ids stay positive; no request with a client's type has
  the id \<open>t\<close>.
\<close>

definition no_client :: "int \<Rightarrow> Message list \<Rightarrow> bool" where
  "no_client t ms \<longleftrightarrow> (\<forall>m \<in> set ms. \<not> (client_request_type (DemuxKey m) \<and> Id' m = t))"

definition staged_at :: "Store \<Rightarrow> 64 word \<Rightarrow> bytes \<Rightarrow> bytes \<Rightarrow> nat \<Rightarrow> bool" where
  "staged_at st tx k enc b \<longleftrightarrow>
     (\<exists>s. st = Mem s \<and> mem_staged s tx = Some (k, enc) \<and> tx \<le> txid s \<and> unat (txid s) + b < 2 ^ 63)"

definition voted :: "int \<Rightarrow> bytes \<Rightarrow> bytes \<Rightarrow> nat \<Rightarrow> Dbnode \<Rightarrow> bool" where
  "voted t k enc b n \<longleftrightarrow>
     currentMode n = processingWrite \<and> currentTxid n = t \<and> uncommitedKey n = k \<and>
     0 <s uncommitedTxid n \<and> staged_at (dstore n) (uncommitedTxid n) k enc b \<and>
     no_client t (cells n)"

text \<open>The fields \<open>voted\<close> reads.\<close>

lemma voted_cong:
  assumes "voted t k enc b n" "currentMode n' = currentMode n" "currentTxid n' = currentTxid n"
    "uncommitedKey n' = uncommitedKey n" "uncommitedTxid n' = uncommitedTxid n" "dstore n' = dstore n"
    "cells n' = cells n"
  shows "voted t k enc b n'"
  using assms by (simp add: voted_def)

lemma voted_weaken: "voted t k enc (Suc b) n \<Longrightarrow> voted t k enc b n"
  by (auto simp: voted_def staged_at_def)

lemma next_txid_small:
  assumes "unat t + Suc b < 2 ^ 63"
  shows "next_txid t = t + 1" "unat (t + 1) = unat t + 1"
proof -
  have "unat t + unat (1 :: 64 word) < 2 ^ LENGTH(64)" using assms by simp
  from unat_add_lem [THEN iffD1, OF this] show u: "unat (t + 1) = unat t + 1" by simp
  then have "t + 1 \<noteq> 0" by (metis Suc_eq_plus1 nat.distinct(1) unat_0)
  then show "next_txid t = t + 1" by (simp add: next_txid_def)
qed

text \<open>Another write, committed at once, leaves the staged value alone.\<close>

lemma staged_at_write:
  assumes "staged_at st tx k enc (Suc b)" "Store_Put io st key val = Inr (st1, i)"
    "Store_Commit io' st1 key i = (st2, ok)"
  shows "staged_at st2 tx k enc b"
proof -
  obtain s where s: "st = Mem s" "mem_staged s tx = Some (k, enc)" "tx \<le> txid s"
    "unat (txid s) + Suc b < 2 ^ 63"
    using assms(1) by (auto simp: staged_at_def)
  obtain s1 where s1: "memstore_Put s key val = (s1, i)" "st1 = Mem s1"
    using assms(2) s(1) by (auto simp: map_prod_def split: prod.splits)
  obtain s2 where s2: "memstore_Commit s1 key i = (s2, ok)" "st2 = Mem s2"
    using assms(3) s1(2) by (auto simp: map_prod_def split: prod.splits)
  note nx = next_txid_small [OF s(4)]
  have i: "i = txid s + 1" "txid s1 = txid s + 1"
    using s1(1) nx by (auto simp: memstore_Put_def Let_def)
  have tx: "tx < i" using s(3) nx(2) unfolding i(1) by (simp add: word_le_nat_alt word_less_nat_alt)
  have "mem_staged s2 tx = Some (k, enc)"
    using mem.staged_survives_write [where k' = key and v' = val and s = s and i = tx and k = k and
        v = enc and s' = s1 and j = i and s'' = s2 and ok = ok] s(2) s1(1) s2(1) tx by auto
  moreover have "txid s2 = txid s1"
    using s2(1) by (auto simp: memstore_Commit_def Let_def split: if_splits)
  ultimately show ?thesis
    using s2(2) tx i nx(2) s(4) by (auto simp: staged_at_def)
qed

section \<open>The vote is kept\<close>

text \<open>Events that do not concern transaction \<open>t\<close> and do not fail the node.\<close>

fun foreign :: "int \<Rightarrow> event \<Rightarrow> bool" where
  "foreign t (Incoming m) \<longleftrightarrow> DemuxKey m \<noteq> ControlFail \<and>
     \<not> (DemuxKey m \<in> {NodeUnlockRequest, NodePutRequest} \<and> Id' m = t) \<and> no_client t [m]"
| "foreign t (TimedOutLockRequest p) \<longleftrightarrow> True"
| "foreign t StateQueryReq \<longleftrightarrow> True"

lemma emit_core [simp]:
  "voted t k enc b (emit m n) = voted t k enc b n"
  "voted t k enc b (repeat_ack m n) = voted t k enc b n"
  by (simp_all add: voted_def emit_def repeat_ack_def)

lemma repeat_send_voted:
  "repeat_send m u n = Inr n' \<Longrightarrow> voted t k enc b n' = voted t k enc b n"
  by (auto simp: repeat_send_def voted_def)

lemma voted_dstore:
  assumes "voted t k enc b n" "staged_at st (uncommitedTxid n) k enc b'"
  shows "voted t k enc b' (n\<lparr>dstore := st\<rparr>)"
  using assms by (simp add: voted_def)

lemma merge_write_voted:
  assumes "voted t k enc (Suc b) n" "merge_write e m ts v n = Inr n'"
  shows "voted t k enc b n'"
proof (cases "n' = n")
  case False
  with assms(2) obtain st i where p: "Store_Put (putIO e) (dstore n) (Key m)
      (encodeTimestampVal (Timestamp m) (Value m)) = Inr (st, i)"
    "n' = n\<lparr>dstore := fst (Store_Commit (commitIO e) st (Key m) i)\<rparr>"
    by (auto simp: merge_write_def split: if_splits)
  have "staged_at (dstore n) (uncommitedTxid n) k enc (Suc b)"
    using assms(1) by (simp add: voted_def)
  then have "staged_at (fst (Store_Commit (commitIO e) st (Key m) i)) (uncommitedTxid n) k enc b"
    using staged_at_write [OF _ p(1)] by (metis prod.collapse)
  with voted_dstore [OF assms(1)] show ?thesis by (simp add: p(2))
qed (use assms(1) voted_weaken in simp)

lemma processLocalWrite_voted:
  assumes "voted t k enc (Suc b) n" "processLocalWrite e m n = Inr n'"
  shows "voted t k enc b n'"
proof -
  from assms(2) consider m' where "n' = emit m' n"
    | m' key val st i st' ok where "Store_Put (putIO e) (dstore n) key val = Inr (st, i)"
        "Store_Commit (commitIO e) st key i = (st', ok)" "n' = emit m' (n\<lparr>dstore := st'\<rparr>)"
    by (auto simp: processLocalWrite_def Let_def split: if_splits prod.splits)
  then show ?thesis
  proof cases
    case 1
    with voted_weaken [OF assms(1)] show ?thesis by simp
  next
    case 2
    have "staged_at (dstore n) (uncommitedTxid n) k enc (Suc b)"
      using assms(1) by (simp add: voted_def)
    from voted_dstore [OF assms(1) staged_at_write [OF this 2(1,2)]] show ?thesis
      by (simp add: 2(3))
  qed
qed

lemma voted_frame [simp]:
  "voted t k enc b (n\<lparr>backgroundWriteDaemon := d\<rparr>) = voted t k enc b n"
  "voted t k enc b (n\<lparr>unlockTxids := us\<rparr>) = voted t k enc b n"
  "voted t k enc b (n\<lparr>electorCalls := cs\<rparr>) = voted t k enc b n"
  "voted t k enc b (n\<lparr>timeoutCounter := c\<rparr>) = voted t k enc b n"
  "voted t k enc b (n\<lparr>timeoutCounter := c, electorCalls := cs\<rparr>) = voted t k enc b n"
  "voted t k enc b (n\<lparr>internalTimer := ts\<rparr>) = voted t k enc b n"
  "voted t k enc b (n\<lparr>lockRequests := q\<rparr>) = voted t k enc b n"
  "voted t k enc b (n\<lparr>stateQueryRes := qs\<rparr>) = voted t k enc b n"
  "voted t k enc b (enqueue_request p n) = voted t k enc b n"
  "voted t k enc b (cleanUnlockTxids n) = voted t k enc b n"
  "voted t k enc b (recover_node n) = voted t k enc b n"
  by (simp_all add: voted_def enqueue_request_def cleanUnlockTxids_def Let_def recover_node_def)

lemma read_handlers_voted:
  assumes "voted t k enc b n"
  shows "processLocalRead e m n = Inr n' \<Longrightarrow> voted t k enc b n'"
    "handleGetReq e m n = Inr n' \<Longrightarrow> voted t k enc b n'"
    "handleTimestampReq e m n = Inr n' \<Longrightarrow> voted t k enc b n'"
  using assms
  by (auto simp: processLocalRead_def handleGetReq_def handleTimestampReq_def split: if_splits)

lemma response_handlers_voted:
  assumes "voted t k enc b n"
  shows "handleLockRes e m n = Inr n' \<Longrightarrow> voted t k enc b n'"
    "handleGetRes e m n = Inr n' \<Longrightarrow> voted t k enc b n'"
    "handlePutRes e m n = Inr n' \<Longrightarrow> voted t k enc b n'"
    "voted t k enc b (handleUnlockAck m n)"
proof -
  have mode: "currentMode (repeat_ack m n) = processingWrite"
    using assms by (simp add: voted_def repeat_ack_def)
  show "handleLockRes e m n = Inr n' \<Longrightarrow> voted t k enc b n'"
    using mode assms by (auto simp: handleLockRes_def Let_def repeat_send_voted split: if_splits)
  show "handleGetRes e m n = Inr n' \<Longrightarrow> voted t k enc b n'"
    "handlePutRes e m n = Inr n' \<Longrightarrow> voted t k enc b n'"
    "voted t k enc b (handleUnlockAck m n)"
    using mode assms by (auto simp: handleGetRes_def handlePutRes_def handleUnlockAck_def)
qed

lemma request_handlers_voted:
  assumes "voted t k enc b n" "Id' m \<noteq> t"
  shows "voted t k enc b (handleUnlockReq e m n)"
    "handlePutReq e m n = Inr n' \<Longrightarrow> voted t k enc b n'"
proof -
  have "currentTxid n \<noteq> Id' m" using assms by (auto simp: voted_def)
  with assms(1) show "voted t k enc b (handleUnlockReq e m n)"
    "handlePutReq e m n = Inr n' \<Longrightarrow> voted t k enc b n'"
    by (auto simp: handleUnlockReq_def handlePutReq_def Let_def)
qed

lemma background_handlers_voted:
  assumes "voted t k enc (Suc b) n"
  shows "handleBackgroundWriteReq e m n = Inr n' \<Longrightarrow> voted t k enc b n'"
    "handleBackgroundWriteRes e m n = Inr n' \<Longrightarrow> voted t k enc b n'"
proof -
  assume "handleBackgroundWriteReq e m n = Inr n'"
  then obtain ts v n1 a where "merge_write e m ts v n = Inr n1" "n' = emit a n1"
    by (auto simp: handleBackgroundWriteReq_def)
  with merge_write_voted [OF assms] show "voted t k enc b n'" by simp
next
  assume "handleBackgroundWriteRes e m n = Inr n'"
  then have "(\<exists>d. n' = n\<lparr>backgroundWriteDaemon := d\<rparr>) \<or>
      (\<exists>d ts v. merge_write e m ts v (n\<lparr>backgroundWriteDaemon := d\<rparr>) = Inr n')"
    by (auto simp: handleBackgroundWriteRes_def Let_def split: if_splits)
  then show "voted t k enc b n'"
    using merge_write_voted [of t k enc b "n\<lparr>backgroundWriteDaemon := d\<rparr>" for d] assms
      voted_weaken [OF assms] by force
qed

lemma dispatch_voted:
  assumes "voted t k enc (Suc b) n" "foreign t (Incoming m)" "dispatch e p m n = Inr n'"
  shows "voted t k enc b n'"
proof -
  note w = voted_weaken [OF assms(1)]
  note d = assms(3) [unfolded dispatch_def]
  show ?thesis
    by (cases "DemuxKey m")
      (use d assms(2) w in \<open>auto split: if_splits
        intro: processLocalWrite_voted [OF assms(1)] read_handlers_voted [OF w]
          response_handlers_voted [OF w] request_handlers_voted [OF w]
          background_handlers_voted [OF assms(1)]\<close>)
qed

lemma serve_voted: "voted t k enc b n \<Longrightarrow> serve e p n = Inr n"
  by (simp add: serve_def voted_def)

lemma on_timer_voted:
  assumes "voted t k enc b n" "on_timer e m n = Inr n'"
  shows "voted t k enc b n'"
  using assms by (auto simp: on_timer_def voted_def split: if_splits)

lemma on_incoming_voted:
  assumes "voted t k enc (Suc b) n" "foreign t (Incoming m)" "on_incoming e m n = Inr n'"
  shows "voted t k enc b n'"
proof -
  let ?n = "n\<lparr>cells := cells n @ [m]\<rparr>"
  have v: "voted t k enc (Suc b) ?n"
    using assms(1,2) by (auto simp: voted_def no_client_def)
  show ?thesis
  proof (cases "disabled ?n \<or> DemuxKey m = ControlRecover")
    case True
    with assms(3) v voted_weaken [OF v] show ?thesis
      by (auto simp: on_incoming_def alloc_def Let_def split: if_splits)
  next
    case False
    with assms(2,3) obtain n1 n2 where s: "on_timer e m ?n = Inr n1"
      "dispatch e (length (cells n)) m (if DemuxKey m = ElectionElect then cleanUnlockTxids n1 else n1) = Inr n2"
      "serve e (length (cells n)) n2 = Inr n'"
      by (auto simp: on_incoming_def alloc_def Let_def split: if_splits)
    have "voted t k enc (Suc b) (if DemuxKey m = ElectionElect then cleanUnlockTxids n1 else n1)"
      using on_timer_voted [OF v s(1)] by simp
    from dispatch_voted [OF this assms(2) s(2)] serve_voted s(3) show ?thesis by auto
  qed
qed

lemma on_lock_timeout_voted:
  assumes "voted t k enc b n" "on_lock_timeout e p n = Inr n'"
  shows "voted t k enc b n'"
proof (cases "disabled n")
  case True
  with assms show ?thesis by (simp add: on_lock_timeout_def)
next
  case False
  obtain q found where q: "queue_remove (lockRequests n) p = (q, found)" by (cases "queue_remove (lockRequests n) p")
  from False assms(2) q obtain m where m: "deref (cells n) p = Inr m"
    and n': "(if found then Inr (emit (timeout_answer m n) (n\<lparr>lockRequests := q\<rparr>))
      else if Id' m = currentTxid n \<and> client_request_type (DemuxKey m) then abortProcessing e n
      else Inr n) = Inr n'"
    by (auto simp: on_lock_timeout_def)
  have "m \<in> set (cells n)" using m by (auto simp: deref_def split: if_splits)
  then have "\<not> (Id' m = currentTxid n \<and> client_request_type (DemuxKey m))"
    using assms(1) by (auto simp: voted_def no_client_def)
  with n' assms(1) show ?thesis by (auto split: if_splits)
qed

lemma step_voted:
  assumes "voted t k enc (Suc b) n" "foreign t ev" "handleRequests_step e ev n = Inr n'"
  shows "voted t k enc b n'"
  using assms(2,3) on_incoming_voted [OF assms(1)] on_lock_timeout_voted [OF voted_weaken [OF assms(1)]]
    voted_weaken [OF assms(1)]
  by (cases ev) auto

lemma run_voted:
  assumes "voted t k enc (length evs + b) n" "\<forall>(e, ev) \<in> set evs. foreign t ev"
    and "handleRequests_run evs n = Inr n'"
  shows "voted t k enc b n'"
  using assms
proof (induction evs arbitrary: n)
  case Nil
  then show ?case by (simp add: handleRequests_run_def)
next
  case (Cons p evs)
  obtain e ev where p: "p = (e, ev)" by (cases p)
  from Cons.prems(3) obtain n1 where "handleRequests_step e ev n = Inr n1"
    "handleRequests_run evs n1 = Inr n'"
    by (auto simp: handleRequests_run_def p)
  with Cons.IH [of n1] step_voted [of t k enc "length evs + b" n ev e n1] Cons.prems(1,2)
  show ?case by (simp add: p)
qed

section \<open>Casting and honouring the vote\<close>

lemma handlePutReq_votes:
  assumes "currentMode n = processingWrite" "currentTxid n = Id' m" "no_client (Id' m) (cells n)"
    and "dstore n = Mem s" "unat (txid s) + Suc (Suc b) < 2 ^ 63"
  shows "\<exists>n'. handlePutReq e m n = Inr n' \<and>
    voted (Id' m) (Key m) (encodeTimestampVal (Timestamp m) (Value m)) b n' \<and>
    lookup n' = lookup n \<and> Outgoing n' = Outgoing n @ [put_answer m n True]"
proof -
  let ?enc = "encodeTimestampVal (Timestamp m) (Value m)"
  note nx = next_txid_small [of "txid s" "Suc b"] 
  obtain s1 i where p: "memstore_Put s (Key m) ?enc = (s1, i)" by (cases "memstore_Put s (Key m) ?enc")
  then have i: "i = txid s + 1" "txid s1 = i" "mem_content s1 = mem_content s"
    "mem_staged s1 i = Some (Key m, ?enc)"
    using nx assms(5) memstore_Put_staged [of s "Key m" ?enc]
    by (auto simp: memstore_Put_def Let_def)
  have u: "unat i = unat (txid s) + 1" using nx(2) assms(5) i(1) by simp
  have "unat i < 2 ^ 63" using u assms(5) by simp
  then have "int (unat i) < int (2 ^ 63)" by (simp only: of_nat_less_iff)
  then have "uint i < 2 ^ 63" by simp
  then have "sint i = int (unat i)"
    by (simp add: sint_uint signed_take_bit_int_eq_self order_trans [OF _ uint_ge_0])
  then have pos: "0 <s i" using u by (simp add: word_sless_alt add_pos_nonneg)
  let ?n' = "emit (put_answer m n True) (n\<lparr>dstore := Mem s1, uncommitedTxid := i, uncommitedKey := Key m\<rparr>)"
  have "handlePutReq e m n = Inr ?n'"
    using assms(1,2,4) p pos by (simp add: handlePutReq_def Let_def)
  moreover have "lookup ?n' = lookup n"
    using i(3) assms(4) by (simp add: lookup_def fun_eq_iff emit_def)
  moreover have "voted (Id' m) (Key m) ?enc b ?n'"
    unfolding emit_core using assms(1-3,5) pos i u by (simp add: voted_def staged_at_def)
  ultimately show ?thesis by (intro exI [of _ ?n']) (simp add: emit_def)
qed

lemma handleUnlockReq_commits:
  assumes "voted t k (encodeTimestampVal ts v) b n" "Id' m = t" "Ok m"
  shows "lookup (handleUnlockReq e m n) = (lookup n)(raw k := (ts, raw v))"
    "currentMode (handleUnlockReq e m n) = idle" "currentTxid (handleUnlockReq e m n) = -1"
    "uncommitedKey (handleUnlockReq e m n) = None"
proof -
  obtain s where s: "dstore n = Mem s"
    "mem_staged s (uncommitedTxid n) = Some (k, encodeTimestampVal ts v)"
    using assms(1) by (auto simp: voted_def staged_at_def)
  obtain s' where s': "memstore_Commit s k (uncommitedTxid n) = (s', True)"
    "mem_content s' = (mem_content s)(raw k := raw (encodeTimestampVal ts v))"
    using mem.Commit_staged [OF _ s(2)] by auto
  have f: "currentTxid n = Id' m" "0 <s uncommitedTxid n" "uncommitedKey n = k"
    using assms(1,2) by (auto simp: voted_def)
  have "dstore (handleUnlockReq e m n) = Mem s'"
    using f s(1) s'(1) assms(3) by (simp add: handleUnlockReq_def Let_def emit_def)
  then show "lookup (handleUnlockReq e m n) = (lookup n)(raw k := (ts, raw v))"
    using s(1) s'(2) by (auto simp: lookup_def fun_eq_iff)
  show "currentMode (handleUnlockReq e m n) = idle" "currentTxid (handleUnlockReq e m n) = -1"
    "uncommitedKey (handleUnlockReq e m n) = None"
    using f assms(3) by (simp_all add: handleUnlockReq_def Let_def emit_def)
qed

end
