(* ===== verification/Dbnode_Races.thy ===== *)
theory Dbnode_Races
  imports Dbnode_Write Dbnode_Participant
begin

text \<open>
  Orders of events the code allows and does not survive as its comments say: an answer of
  an earlier phase counted in a later one, an aborted write that blocks reads, a late commit
  that undoes a newer background write, a lock request overwritten in the queue.
\<close>

section \<open>A repeated timestamp answer counts as a put answer\<close>

text \<open>
  Answers are told apart by the type recorded for their sender. After the put answer of a
  node, a second copy of its timestamp answer differs from what is recorded, and counts.
\<close>

lemma members_ok_answer:
  assumes "members_ok n Q mark ms" "Src m \<in> Q" "quorum_ok n Q"
  shows "members_ok n Q mark (AList.update (Src m) m ms)"
proof -
  have ne: "Src m \<noteq> dbid n" using assms(2,3) by (auto simp: quorum_ok_def)
  have d: "distinct (map fst (AList.update (Src m) m ms))"
    using assms(1) by (simp add: members_ok_def distinct_update)
  have "map_of ms (dbid n) = Some mark" using assms(1) by (simp add: members_ok_def)
  then have "map_of (AList.update (Src m) m ms) (dbid n) = Some mark"
    using ne by (simp add: AList.update_conv')
  then have "(dbid n, mark) \<in> set (AList.update (Src m) m ms)" by (rule map_of_SomeD)
  with d assms(1,2) show ?thesis by (auto simp: members_ok_def dom_update)
qed

lemma member_coord_get: "member (coord n req M ms w r) i = get_or zeroMessage ms i"
  by (simp add: member_def)

text \<open>
  With a quorum of two others, one put answer and a stale answer of the same node commit the
  write: the other member has not answered, and may hold nothing.
\<close>

lemma commit_without_quorum:
  assumes "node_ok n" "fits (Key req) (Value req)"
    and put: "Store_Put no_fault (dstore n) (Key req) (encodeTimestampVal ts (Value req)) = Inr (st, tx)"
    and ph: "phase (stage n req st tx) req Q coordinatingWrite NodePutResponse (commit_mark ts) n1"
    and Q: "quorum_ok n Q" "card Q = 2" "Src m1 \<in> Q" "Src m2 = Src m1"
    and m1: "Ok m1" "DemuxKey m1 = NodePutResponse" "Id' m1 = Id' req"
    and m2: "Ok m2" "DemuxKey m2 = NodeGetResponse" "Id' m2 = Id' req"
    and e: "benign e2"
  shows "\<exists>n2 n3. handlePutRes e1 m1 n1 = Inr n2 \<and> handleGetRes e2 m2 n2 = Inr n3 \<and>
    committed n req ts n3"
proof -
  let ?s = "stage n req st tx"
  obtain ms r where n1: "n1 = coord ?s req coordinatingWrite ms 2 r"
    and r: "knows_nodes r (numPeers n + 1)" and ms: "members_ok n Q (commit_mark ts) ms"
    and key: "\<forall>(i, m) \<in> set ms. i \<noteq> dbid n \<longrightarrow> DemuxKey m \<noteq> NodePutResponse"
    using ph Q(2) unfolding phase_def by auto
  have ne: "Src m1 \<noteq> dbid n" using Q(1,3) by (auto simp: quorum_ok_def)
  have "Src m1 \<in> fst ` set ms" using ms Q(3) by (auto simp: members_ok_def)
  then obtain a where "map_of ms (Src m1) = Some a" "(Src m1, a) \<in> set ms"
    by (metis map_of_eq_None_iff map_of_SomeD not_Some_eq)
  with key ne have first: "DemuxKey (get_or zeroMessage ms (Src m1)) \<noteq> NodePutResponse"
    by (auto simp: get_or_def)
  let ?ms1 = "AList.update (Src m1) m1 ms" and ?r1 = "Repeater_Ack r m1"
  let ?n2 = "coord ?s req coordinatingWrite ?ms1 1 ?r1"
  have 1: "handlePutRes e1 m1 n1 = Inr ?n2"
    using m1 first by (simp add: handlePutRes_def repeat_ack_def n1 count_answer_def set_member_def Let_def
        member_coord_get)
  let ?ms2 = "AList.update (Src m2) m2 ?ms1" and ?r2 = "Repeater_Ack ?r1 m2"
  have ms2: "members_ok n Q (commit_mark ts) ?ms2" "knows_nodes ?r2 (numPeers n + 1)"
    using members_ok_answer [of n Q _ ?ms1 m2] members_ok_answer [OF ms Q(3,1)] Q r by simp_all
  have 2: "handleGetRes e2 m2 ?n2 = continueProcessing e2 (coord ?s req coordinatingWrite ?ms2 0 ?r2)"
    using m1 m2 Q(4)
    by (simp add: handleGetRes_def repeat_ack_def count_answer_def set_member_def Let_def member_coord_get)
  from write_commit_ok [OF assms(1,2) put ms2(1) Q(1) ms2(2) e] 1 2 show ?thesis by auto
qed

section \<open>An aborted write blocks reads\<close>

text \<open>
  A negative unlock request frees the participant but leaves its \<open>uncommitedKey\<close>: until
  another write commits there, it refuses the reads of every coordinator.
\<close>

lemma abort_blocks_reads:
  assumes "voted t k enc b n" "k \<noteq> None" "Id' u = t" "\<not> Ok u"
  shows "currentMode (handleUnlockReq e u n) = idle"
    "handleGetReq e' q (handleUnlockReq e u n) =
      Inr (emit (get_answer q n None 0 False) (handleUnlockReq e u n))"
proof -
  have f: "currentTxid n = Id' u" "uncommitedKey n = k"
    using assms(1,3) by (auto simp: voted_def)
  show "currentMode (handleUnlockReq e u n) = idle"
    using f(1) by (simp add: handleUnlockReq_def Let_def emit_def)
  have "uncommitedKey (handleUnlockReq e u n) = k" "currentMode (handleUnlockReq e u n) \<noteq> processingRead"
    using f assms(4) by (simp_all add: handleUnlockReq_def Let_def emit_def)
  moreover have "get_answer q (handleUnlockReq e u n) = get_answer q n"
    by (simp add: fun_eq_iff get_answer_def handleUnlockReq_def Let_def emit_def)
  ultimately show "handleGetReq e' q (handleUnlockReq e u n) =
      Inr (emit (get_answer q n None 0 False) (handleUnlockReq e u n))"
    using assms(2) by (auto simp: handleGetReq_def)
qed

section \<open>A late commit goes back in time\<close>

text \<open>
  A background write newer than the staged value is stored at once; the unlock request of
  the older write then replaces it.
\<close>

lemma late_unlock_regresses:
  assumes "voted t k (encodeTimestampVal ts v) (Suc b) n" "node_ok n" "calm e"
    and "fits (Key w) (Value w)" "raw (Key w) = raw k" "ts < Timestamp w"
    and "fst (lookup n (raw k)) < Timestamp w" "Id' u = t" "Ok u"
  shows "\<exists>n1. handleBackgroundWriteReq e w n = Inr n1 \<and>
    lookup n1 (raw k) = (Timestamp w, raw (Value w)) \<and>
    lookup (handleUnlockReq e' u n1) (raw k) = (ts, raw v)"
proof -
  have "agree (lookup n (raw (Key w))) (entry_of_msg w)"
    using assms(5,7) by (auto simp: agree_def entry_of_msg_def)
  from handleBackgroundWriteReq_lookup [OF assms(2-4) this] obtain n1 where
    n1: "handleBackgroundWriteReq e w n = Inr n1"
    "lookup n1 = (lookup n)(raw (Key w) := merge_entry (lookup n (raw (Key w))) (entry_of_msg w))"
    by blast
  have "lookup n1 (raw k) = (Timestamp w, raw (Value w))"
    using assms(5,7) n1(2) by (simp add: merge_entry_def entry_of_msg_def)
  moreover have "voted t k (encodeTimestampVal ts v) b n1"
    using background_handlers_voted(1) [OF assms(1) n1(1)] .
  then have "lookup (handleUnlockReq e' u n1) (raw k) = (ts, raw v)"
    using handleUnlockReq_commits(1) assms(8,9) by simp
  ultimately show ?thesis using n1(1) by blast
qed

section \<open>A queued lock request is overwritten\<close>

text \<open>
  The main loop stores the dequeued message into the variable whose address it has just
  queued. If the node is idle with an older request still queued, the new request is lost:
  the queue's new entry holds the older request a second time.
\<close>

lemma lock_request_overwritten:
  assumes "currentMode n = idle" "\<not> disabled n" "qvalues (lockRequests n) = q # rest"
    and "q < length (cells n)" "\<forall>p \<in> set (q # rest). p < length (cells n)"
    and "DemuxKey (cells n ! q) = NodeLockRequestNoTimeout"
    and "Id' (cells n ! q) \<notin> set (unlockTxids n)"
    and "DemuxKey m = NodeLockRequestNoTimeout" "Dest m = dbid n"
  shows "\<exists>n'. on_incoming e m n = Inr n' \<and>
    qvalues (lockRequests n') = rest @ [length (cells n)] \<and>
    cells n' = cells n @ [cells n ! q] \<and>
    currentMode n' = processingWrite \<and> currentTxid n' = Id' (cells n ! q)"
proof -
  have new: "length (cells n) \<notin> set (q # rest)" using assms(5) by blast
  have enq: "enqueue (lockRequests n) (length (cells n)) =
      (lockRequests n)\<lparr>qvalues := q # rest @ [length (cells n)]\<rparr>"
    using new assms(3) by (simp add: enqueue_def queue_contains_def list_ex_iff)
  have nth: "(cells n @ [m]) ! q = cells n ! q" using assms(4) by (simp add: nth_append)
  show ?thesis
    using assms nth
    by (simp add: on_incoming_def alloc_def Let_def on_timer_def dispatch_def enqueue_request_def enq
        serve_def queue_empty_def dequeue_def deref_def start_transaction_def emit_def)
qed

end
