(* ===== verification/Dbnode_Unlock.thy ===== *)
theory Dbnode_Unlock
  imports Dbnode_Loop
begin

text \<open>
  \<open>unlockTxids\<close> guards against an unlock request that overtakes its lock request: once a
  node has seen the unlock of a transaction, nothing in its main loop locks for it again.
\<close>

section \<open>What the handlers may do to the current transaction\<close>

text \<open>The failures and recoveries the elector has been told of.\<close>

fun control_call :: "elector_call \<Rightarrow> bool" where
  "control_call (ProcessMsg m) \<longleftrightarrow> DemuxKey m \<in> {ControlFail, ControlRecover}"
| "control_call (ForwardToLeader m) \<longleftrightarrow> False"

definition controls :: "elector_call list \<Rightarrow> elector_call list" where
  "controls cs = filter control_call cs"

lemma controls_simps [simp]:
  "controls [] = []" "controls (cs @ ds) = controls cs @ controls ds"
  "controls (c # cs) = (if control_call c then [c] else []) @ controls cs"
  by (simp_all add: controls_def)

text \<open>
  No handler but that of an unlock request marks a transaction, none touches the timer or tells
  the elector of a failure.
\<close>

definition keeps :: "Dbnode \<Rightarrow> Dbnode \<Rightarrow> bool" where
  "keeps n n' \<longleftrightarrow> unlockTxids n' = unlockTxids n \<and> currentTxid n' \<in> {currentTxid n, -1} \<and>
     internalTimer n' = internalTimer n \<and> disabled n' = disabled n \<and>
     controls (electorCalls n') = controls (electorCalls n)"

lemma keeps_refl [simp, intro]: "keeps n n"
  by (simp add: keeps_def)

lemma keeps_trans [trans]: "keeps n n1 \<Longrightarrow> keeps n1 n2 \<Longrightarrow> keeps n n2"
  by (auto simp: keeps_def)

named_theorems keeps_frame \<open>updates that change none of these\<close>

lemma keeps_upd [keeps_frame]:
  "keeps n (n1\<lparr>requestRepeater := r\<rparr>) = keeps n n1"
  "keeps n (n1\<lparr>quorumMembers := ms\<rparr>) = keeps n n1"
  "keeps n (n1\<lparr>numWaitingNodes := w\<rparr>) = keeps n n1"
  "keeps n (n1\<lparr>dstore := st\<rparr>) = keeps n n1"
  "keeps n (n1\<lparr>currentMode := m\<rparr>) = keeps n n1"
  "keeps n (n1\<lparr>clientRequest := c\<rparr>) = keeps n n1"
  "keeps n (n1\<lparr>uncommitedKey := k\<rparr>) = keeps n n1"
  "keeps n (n1\<lparr>uncommitedTxid := i\<rparr>) = keeps n n1"
  "keeps n (n1\<lparr>backgroundWriteDaemon := d\<rparr>) = keeps n n1"
  "controls (electorCalls n1) = controls cs \<Longrightarrow> keeps n (n1\<lparr>electorCalls := cs\<rparr>) = keeps n n1"
  "keeps n (n1\<lparr>timeoutCounter := c1\<rparr>) = keeps n n1"
  "keeps n (n1\<lparr>lockRequests := q\<rparr>) = keeps n n1"
  "keeps n (n1\<lparr>lockTimers := lt\<rparr>) = keeps n n1"
  "keeps n (n1\<lparr>stateQueryRes := qs\<rparr>) = keeps n n1"
  "keeps n (n1\<lparr>cells := h\<rparr>) = keeps n n1"
  "keeps n (emit m' n1) = keeps n n1"
  "keeps n (repeat_ack m' n1) = keeps n n1"
  by (simp_all add: keeps_def emit_def repeat_ack_def)

lemma keeps_idle [keeps_frame]: "keeps n n1 \<Longrightarrow> keeps n (to_idle n1)"
  by (simp add: keeps_def to_idle_def)

lemma keeps_send: "repeat_send m u n1 = Inr n2 \<Longrightarrow> keeps n n2 = keeps n n1"
  by (auto simp: repeat_send_def keeps_frame)

lemma keeps_set_member: "set_member k m n1 = Inr n2 \<Longrightarrow> keeps n n2 = keeps n n1"
  by (auto simp: set_member_def keeps_frame split: option.splits)

lemma keeps_send_members: "send_members e site mk u n = Inr n' \<Longrightarrow> keeps n n'"
  unfolding send_members_def
  by (erule fold_res_invariant) (auto simp: keeps_send split: if_splits)

lemma keeps_abort: "abortProcessing e n = Inr n' \<Longrightarrow> keeps n n'"
proof -
  assume "abortProcessing e n = Inr n'"
  then obtain n1 where n1: "send_members e 0 (unlock_msg False) True (rollback_uncommitted e n) = Inr n1"
    "n' = to_idle (abort_answer n1)"
    by (auto simp: abortProcessing_def)
  have "keeps n (rollback_uncommitted e n)" by (simp add: rollback_uncommitted_def keeps_frame)
  with keeps_send_members [OF n1(1)] have "keeps n n1" by (rule keeps_trans [rotated])
  then show ?thesis by (simp add: n1(2) abort_answer_def keeps_frame)
qed

lemma keeps_assemble: "assembleQuorum e qs k n = Inr n' \<Longrightarrow> keeps n n'"
proof -
  assume a: "assembleQuorum e qs k n = Inr n'"
  then obtain n1 where f: "fold_res (add_peer k) (take (nat (qs - 1)) (peersPerm e))
      (n\<lparr>quorumMembers := Some []\<rparr>) = Inr n1"
    and r: "keeps n n' = keeps n n1"
    by (auto simp: assembleQuorum_def keeps_set_member keeps_frame split: if_splits)
  have "keeps n n1"
    by (rule fold_res_invariant [OF f])
      (auto simp: add_peer_def Let_def keeps_send keeps_set_member keeps_frame)
  with r show ?thesis by simp
qed

lemma keeps_fast_read: "continueFastRead e n = Inr n' \<Longrightarrow> keeps n n'"
  by (auto simp: continueFastRead_def keeps_frame intro: keeps_assemble keeps_abort split: if_splits)

lemma keeps_read_unlock:
  assumes "fold_res read_unlock xs s = Inr t" "keeps n (fst s)"
  shows "keeps n (fst t)"
  by (rule fold_res_invariant [where P = "\<lambda>s. keeps n (fst s)", OF assms])
    (auto simp: read_unlock_def keeps_send split: if_splits prod.splits)

lemma keeps_read: "continueRead e n = Inr n' \<Longrightarrow> keeps n n'"
  using keeps_read_unlock [where n = n and s = "(n, _)"] keeps_send_members
  by (auto simp: continueRead_def keeps_frame keeps_set_member intro: keeps_assemble keeps_abort
      split: if_splits prod.splits)

lemma keeps_write_ask: "write_ask e n = Inr n' \<Longrightarrow> keeps n n'"
  using keeps_send_members by (auto simp: write_ask_def keeps_frame keeps_set_member)

lemma keeps_write_put: "write_put e n = Inr n' \<Longrightarrow> keeps n n'"
proof -
  assume w: "write_put e n = Inr n'"
  have ab: "abortProcessing e (n\<lparr>clientRequest := c\<rparr>) = Inr n' \<Longrightarrow> keeps n n'" for c
    using keeps_abort [of e "n\<lparr>clientRequest := c\<rparr>" n'] by (simp add: keeps_def)
  have sm: "send_members e 6 mk True (n\<lparr>dstore := st, uncommitedTxid := i, uncommitedKey := k\<rparr>) = Inr n2 \<Longrightarrow>
      keeps n n2" for mk st i k n2
    using keeps_send_members [of e 6 mk True "n\<lparr>dstore := st, uncommitedTxid := i, uncommitedKey := k\<rparr>" n2]
    by (simp add: keeps_def)
  show ?thesis
    using w keeps_abort ab sm
    by (auto simp: write_put_def Let_def keeps_set_member keeps_frame split: if_splits)
qed

lemma keeps_write_commit: "write_commit e n = Inr n' \<Longrightarrow> keeps n n'"
proof -
  assume w: "write_commit e n = Inr n'"
  obtain st ok where c: "Store_Commit (commitIO e) (dstore n) (uncommitedKey n) (uncommitedTxid n) = (st, ok)"
    by (cases "Store_Commit (commitIO e) (dstore n) (uncommitedKey n) (uncommitedTxid n)")
  have ab: "abortProcessing e (n\<lparr>dstore := st\<rparr>) = Inr n' \<Longrightarrow> keeps n n'"
    using keeps_abort [of e "n\<lparr>dstore := st\<rparr>" n'] by (simp add: keeps_def)
  have sm: "send_members e 7 mk True (n\<lparr>dstore := st, uncommitedKey := k, uncommitedTxid := i\<rparr>) = Inr n2 \<Longrightarrow>
      keeps n n2" for mk i k n2
    using keeps_send_members [of e 7 mk True "n\<lparr>dstore := st, uncommitedKey := k, uncommitedTxid := i\<rparr>" n2]
    by (simp add: keeps_def)
  show ?thesis
    using w c ab sm by (auto simp: write_commit_def Let_def keeps_frame split: if_splits)
qed

lemma keeps_continueWrite: "continueWrite e n = Inr n' \<Longrightarrow> keeps n n'"
  using keeps_write_ask keeps_write_put keeps_write_commit
  by (auto simp: continueWrite_def split: Messagetype.splits)

lemma keeps_continue: "continueProcessing e n = Inr n' \<Longrightarrow> keeps n n'"
proof -
  assume c: "continueProcessing e n = Inr n'"
  have w: "continueWrite e (n\<lparr>currentMode := m\<rparr>) = Inr n' \<Longrightarrow> keeps n n'" for m
    using keeps_continueWrite [of e "n\<lparr>currentMode := m\<rparr>" n'] by (simp add: keeps_def)
  show ?thesis
    using c w keeps_continueWrite keeps_fast_read keeps_read keeps_assemble
    by (auto simp: continueProcessing_def split: mode.splits if_splits)
qed

section \<open>The handlers and the main loop\<close>

lemma keeps_count: "count_answer e m n = Inr n' \<Longrightarrow> keeps n n'"
proof -
  assume c: "count_answer e m n = Inr n'"
  have k: "keeps n n'" if "set_member i m n = Inr n1"
    "continueProcessing e (n1\<lparr>numWaitingNodes := w\<rparr>) = Inr n'" for i n1 w
    using keeps_continue [OF that(2)] keeps_set_member [OF that(1), of n]
    by (auto simp: keeps_def)
  show ?thesis
    using c k by (auto simp: count_answer_def Let_def keeps_frame keeps_set_member keeps_abort split: if_splits)
qed

lemma keeps_count_acked:
  "count_answer e m (repeat_ack m n) = Inr n' \<Longrightarrow> keeps n n'"
  using keeps_count [of e m "repeat_ack m n" n'] by (simp add: keeps_def repeat_ack_def)

lemma keeps_handlers:
  "processLocalRead e m n = Inr n' \<Longrightarrow> keeps n n'"
  "processLocalWrite e m n = Inr n' \<Longrightarrow> keeps n n'"
  "handleLockRes e m n = Inr n' \<Longrightarrow> keeps n n'"
  "handleGetRes e m n = Inr n' \<Longrightarrow> keeps n n'"
  "handlePutRes e m n = Inr n' \<Longrightarrow> keeps n n'"
  "keeps n (handleUnlockAck m n)"
  "handleGetReq e m n = Inr n' \<Longrightarrow> keeps n n'"
  "handlePutReq e m n = Inr n' \<Longrightarrow> keeps n n'"
  "handleTimestampReq e m n = Inr n' \<Longrightarrow> keeps n n'"
  by (auto simp: processLocalRead_def processLocalWrite_def handleLockRes_def handleGetRes_def
      handlePutRes_def handleUnlockAck_def handleGetReq_def handlePutReq_def handleTimestampReq_def
      Let_def keeps_frame keeps_send keeps_count_acked split: if_splits prod.splits)

lemma keeps_merge: "merge_write e m ts v n1 = Inr n' \<Longrightarrow> keeps n n' = keeps n n1"
  by (auto simp: merge_write_def keeps_frame split: if_splits)

lemma keeps_background:
  "handleBackgroundWriteReq e m n = Inr n' \<Longrightarrow> keeps n n'"
  "handleBackgroundWriteRes e m n = Inr n' \<Longrightarrow> keeps n n'"
  by (auto simp: handleBackgroundWriteReq_def handleBackgroundWriteRes_def Let_def keeps_frame
      keeps_merge split: if_splits)

text \<open>Transaction \<open>t\<close> has been unlocked here, no newer unlock was more than 50 ids later.\<close>

definition barred :: "int \<Rightarrow> Dbnode \<Rightarrow> bool" where
  "barred t n \<longleftrightarrow> t \<in> set (unlockTxids n) \<and> (\<forall>i \<in> set (unlockTxids n). i \<le> t + 50) \<and>
     currentTxid n \<noteq> t"

fun recent_unlock :: "int \<Rightarrow> event \<Rightarrow> bool" where
  "recent_unlock t (Incoming m) \<longleftrightarrow> (DemuxKey m = NodeUnlockRequest \<longrightarrow> Id' m \<le> t + 50)"
| "recent_unlock t _ \<longleftrightarrow> True"

lemma barred_keeps: "barred t n \<Longrightarrow> 0 \<le> t \<Longrightarrow> keeps n n' \<Longrightarrow> barred t n'"
  by (auto simp: barred_def keeps_def)

lemma unlock_bars:
  "barred t n \<Longrightarrow> 0 \<le> t \<Longrightarrow> Id' m \<le> t + 50 \<Longrightarrow> barred t (handleUnlockReq e m n)"
  by (auto simp: barred_def handleUnlockReq_def Let_def emit_def)

lemma foldl_max_le:
  fixes z :: int
  shows "z \<le> b \<Longrightarrow> \<forall>i \<in> set is. i \<le> b \<Longrightarrow> foldl (\<lambda>t i. if i > t then i else t) z is \<le> b"
  by (induction "is" arbitrary: z) auto

lemma clean_barred:
  assumes "barred t n" "0 \<le> t"
  shows "barred t (cleanUnlockTxids n)"
proof -
  have "foldl (\<lambda>t i. if i > t then i else t) 0 (unlockTxids n) \<le> t + 50"
    by (rule foldl_max_le) (use assms in \<open>auto simp: barred_def\<close>)
  with assms show ?thesis by (auto simp: barred_def cleanUnlockTxids_def Let_def)
qed

lemma serve_barred:
  assumes "barred t n" "0 \<le> t" "serve e p n = Inr n'"
  shows "barred t n'"
proof (cases "n' = n")
  case False
  with assms(3) obtain q rest m where n1: "dequeue (lockRequests n) = Inr (q, rest)"
    "(if Id' m \<in> set (unlockTxids n) then Inr (n\<lparr>lockRequests := rest, cells := (cells n)[p := m]\<rparr>)
      else start_transaction e m (n\<lparr>lockRequests := rest, cells := (cells n)[p := m]\<rparr>)) = Inr n'"
    by (auto simp: serve_def Let_def split: if_splits)
  show ?thesis
  proof (cases "Id' m \<in> set (unlockTxids n)")
    case True
    with n1(2) assms(1) show ?thesis by (auto simp: barred_def)
  next
    case new: False
    let ?n = "n\<lparr>lockRequests := rest, cells := (cells n)[p := m], currentTxid := Id' m, clientRequest := m\<rparr>"
    have b: "barred t ?n" using assms(1) new by (auto simp: barred_def)
    have c: "barred t n'" if "continueProcessing e (?n\<lparr>currentMode := M\<rparr>) = Inr n'" for M
      using barred_keeps [OF b assms(2)] keeps_continue [OF that] by (simp add: keeps_def)
    have l: "barred t (emit a (?n\<lparr>currentMode := M\<rparr>))" for a M
      using b by (simp add: barred_def emit_def)
    show ?thesis
      using n1(2) new c l by (auto simp: start_transaction_def Let_def split: Messagetype.splits)
  qed
qed (use assms(1) in simp)

lemma dispatch_barred:
  assumes "barred t n" "0 \<le> t" "dispatch e p m n = Inr n'" "recent_unlock t (Incoming m)"
  shows "barred t n'"
proof (cases "DemuxKey m = NodeUnlockRequest")
  case True
  with assms(3,4) unlock_bars [OF assms(1,2)] show ?thesis by (auto simp: dispatch_def)
next
  case False
  with assms(3) have "keeps n n'"
    by (cases "DemuxKey m")
      (auto simp: dispatch_def enqueue_request_def keeps_frame
        intro: keeps_handlers keeps_background split: if_splits)
  then show ?thesis by (rule barred_keeps [OF assms(1,2)])
qed

lemma on_timer_keeps:
  assumes "on_timer e m n = Inr n'"
  obtains n1 ts where "keeps n n1" "n' = n1 \<or> n' = n1\<lparr>internalTimer := internalTimer n @ [ts]\<rparr>"
    "DemuxKey m \<noteq> InternalTimerSignal \<Longrightarrow> n' = n1"
proof (cases "DemuxKey m = InternalTimerSignal")
  case True
  with assms obtain n1 where "n1 = n \<or> abortProcessing e n = Inr n1"
    "n' = n1\<lparr>internalTimer := internalTimer n1 @ [timeoutCounter n1]\<rparr>"
    by (auto simp: on_timer_def split: if_splits)
  moreover from this(1) have "keeps n n1" by (auto simp: keeps_abort)
  ultimately show ?thesis using that True by (auto simp: keeps_def)
next
  case False
  with assms that [of n'] show ?thesis by (auto simp: on_timer_def keeps_frame)
qed

lemma on_timer_barred:
  assumes "barred t n" "0 \<le> t" "on_timer e m n = Inr n'"
  shows "barred t n'"
proof -
  obtain n1 ts where n1: "keeps n n1" "n' = n1 \<or> n' = n1\<lparr>internalTimer := internalTimer n @ [ts]\<rparr>"
    by (rule on_timer_keeps [OF assms(3)]) blast
  have "barred t n1" by (rule barred_keeps [OF assms(1,2) n1(1)])
  with n1(2) show ?thesis by (auto simp: barred_def)
qed

lemma on_incoming_barred:
  assumes "barred t n" "0 \<le> t" "on_incoming e m n = Inr n'" "recent_unlock t (Incoming m)"
  shows "barred t n'"
proof -
  let ?n = "n\<lparr>cells := cells n @ [m]\<rparr>"
  have b: "barred t ?n" using assms(1) by (simp add: barred_def)
  show ?thesis
  proof (cases "disabled ?n \<or> DemuxKey m \<in> {ControlRecover, ControlFail}")
    case True
    with assms(2,3) b show ?thesis
      by (auto simp: on_incoming_def alloc_def Let_def recover_node_def fail_node_def barred_def
          split: if_splits)
  next
    case False
    with assms(3) obtain n1 n2 where s: "on_timer e m ?n = Inr n1"
      "dispatch e (length (cells n)) m (if DemuxKey m = ElectionElect then cleanUnlockTxids n1 else n1) = Inr n2"
      "serve e (length (cells n)) n2 = Inr n'"
      by (auto simp: on_incoming_def alloc_def Let_def split: if_splits)
    have "barred t n1" using on_timer_barred [OF b assms(2) s(1)] .
    with clean_barred assms(2)
    have "barred t (if DemuxKey m = ElectionElect then cleanUnlockTxids n1 else n1)" by simp
    from serve_barred [OF dispatch_barred [OF this assms(2) s(2) assms(4)] assms(2) s(3)]
    show ?thesis .
  qed
qed

lemma on_lock_timeout_keeps: "on_lock_timeout e p n = Inr n' \<Longrightarrow> keeps n n'"
  by (auto simp: on_lock_timeout_def keeps_frame keeps_abort split: if_splits prod.splits)

lemma step_barred:
  assumes "barred t n" "0 \<le> t" "handleRequests_step e ev n = Inr n'" "recent_unlock t ev"
  shows "barred t n'"
proof (cases ev)
  case (Incoming m)
  with assms on_incoming_barred show ?thesis by simp
next
  case (TimedOutLockRequest p)
  with assms(3) have "keeps n n'" by (simp add: on_lock_timeout_keeps)
  then show ?thesis by (rule barred_keeps [OF assms(1,2)])
next
  case StateQueryReq
  with assms(1,3) show ?thesis by (auto simp: barred_def)
qed

lemma run_barred:
  assumes "barred t n" "0 \<le> t" "handleRequests_run evs n = Inr n'"
    and "\<forall>(e, ev) \<in> set evs. recent_unlock t ev"
  shows "barred t n'"
  by (rule fold_res_invariant [where P = "barred t", OF assms(3) [unfolded handleRequests_run_def] assms(1)])
    (use assms(2,4) step_barred in auto)

end
