(* ===== verification/Dbnode_Background.thy ===== *)
theory Dbnode_Background
  imports Dbnode_Data
begin

text \<open>
  Eventual consistency: what a set of background writes does to a node does not depend on
  their order or repetition.
\<close>

text \<open>\<open>V k ts\<close> is the value that the writes to \<open>k\<close> with timestamp \<open>ts\<close> carry.\<close>

definition follows :: "(byte list \<Rightarrow> 64 word \<Rightarrow> byte list) \<Rightarrow> Dbnode \<Rightarrow> bool" where
  "follows V n \<longleftrightarrow> (\<forall>k. snd (lookup n k) = V k (fst (lookup n k)))"

definition write_of :: "(byte list \<Rightarrow> 64 word \<Rightarrow> byte list) \<Rightarrow> env \<times> Message \<Rightarrow> bool" where
  "write_of V = (\<lambda>(e, m). calm e \<and> fits (Key m) (Value m) \<and>
     raw (Value m) = V (raw (Key m)) (Timestamp m))"

definition background_run :: "(env \<times> Message) list \<Rightarrow> Dbnode \<Rightarrow> Dbnode res" where
  "background_run = fold_res (\<lambda>(e, m). handleBackgroundWriteReq e m)"

definition newest :: "byte list \<Rightarrow> 64 word \<Rightarrow> Message set \<Rightarrow> 64 word" where
  "newest k t ms = Max (insert t (Timestamp ` {m \<in> ms. raw (Key m) = k}))"

lemma Max_insert_two:
  "finite B \<Longrightarrow> Max (insert t (insert s B)) = Max (insert (max s t) B)"
  by (cases "B = {}") (simp_all add: max.commute max.left_commute)

lemma newest_insert:
  assumes "finite ms"
  shows "newest k t (insert m ms) =
    newest k (if raw (Key m) = k then max (Timestamp m) t else t) ms"
proof (cases "raw (Key m) = k")
  case True
  then have "{x \<in> insert m ms. raw (Key x) = k} = insert m {x \<in> ms. raw (Key x) = k}" by auto
  then have "newest k t (insert m ms) =
      Max (insert t (insert (Timestamp m) (Timestamp ` {x \<in> ms. raw (Key x) = k})))"
    by (simp add: newest_def)
  also have "\<dots> = Max (insert (max (Timestamp m) t) (Timestamp ` {x \<in> ms. raw (Key x) = k}))"
    by (rule Max_insert_two) (use assms in simp)
  finally show ?thesis using True by (simp add: newest_def)
next
  case False
  then have "{x \<in> insert m ms. raw (Key x) = k} = {x \<in> ms. raw (Key x) = k}" by auto
  with False show ?thesis by (simp add: newest_def)
qed

lemma background_step:
  assumes "node_ok n" "follows V n" "write_of V (e, m)"
  shows "\<exists>n'. handleBackgroundWriteReq e m n = Inr n' \<and> node_ok n' \<and> follows V n' \<and>
    (\<forall>k. fst (lookup n' k) =
      (if raw (Key m) = k then max (Timestamp m) (fst (lookup n k)) else fst (lookup n k)))"
proof -
  let ?k = "raw (Key m)"
  have w: "calm e" "fits (Key m) (Value m)" "raw (Value m) = V ?k (Timestamp m)"
    using assms(3) by (simp_all add: write_of_def)
  have "agree (lookup n ?k) (entry_of_msg m)"
    using assms(2) w(3) by (simp add: agree_def follows_def entry_of_msg_def)
  from handleBackgroundWriteReq_lookup [OF assms(1) w(1,2) this] obtain n' where
    n': "handleBackgroundWriteReq e m n = Inr n'" "node_ok n'"
    "lookup n' = (lookup n)(?k := merge_entry (lookup n ?k) (entry_of_msg m))" by blast
  have "follows V n'"
    using assms(2) w(3) by (simp add: follows_def n'(3) merge_entry_def entry_of_msg_def)
  moreover have "\<forall>k. fst (lookup n' k) =
      (if ?k = k then max (Timestamp m) (fst (lookup n k)) else fst (lookup n k))"
    by (auto simp: n'(3) merge_entry_def entry_of_msg_def max_def)
  ultimately show ?thesis using n'(1,2) by blast
qed

lemma background_run_newest:
  assumes "node_ok n" "follows V n" "\<forall>w \<in> set ws. write_of V w"
  shows "\<exists>n'. background_run ws n = Inr n' \<and> node_ok n' \<and> follows V n' \<and>
    (\<forall>k. fst (lookup n' k) = newest k (fst (lookup n k)) (snd ` set ws))"
  using assms
proof (induction ws arbitrary: n)
  case Nil
  then show ?case by (simp add: background_run_def newest_def)
next
  case (Cons w ws)
  obtain e m where w: "w = (e, m)" by (cases w)
  from background_step [OF Cons.prems(1,2), of e m] Cons.prems(3) w obtain n1 where
    n1: "handleBackgroundWriteReq e m n = Inr n1" "node_ok n1" "follows V n1"
    "\<forall>k. fst (lookup n1 k) =
      (if raw (Key m) = k then max (Timestamp m) (fst (lookup n k)) else fst (lookup n k))" by auto
  from Cons.IH [OF n1(2,3)] Cons.prems(3) obtain n' where
    n': "background_run ws n1 = Inr n'" "node_ok n'" "follows V n'"
    "\<forall>k. fst (lookup n' k) = newest k (fst (lookup n1 k)) (snd ` set ws)" by auto
  have "fst (lookup n' k) = newest k (fst (lookup n k)) (snd ` set (w # ws))" for k
    using n'(4) n1(4) by (simp add: w newest_insert)
  with n'(1-3) n1(1) show ?case by (auto simp: background_run_def w)
qed

lemma background_run_converges:
  assumes "node_ok n" "follows V n" "node_ok m" "follows V m" "lookup n = lookup m"
    and "\<forall>w \<in> set ws. write_of V w" "\<forall>w \<in> set us. write_of V w" "snd ` set ws = snd ` set us"
  shows "\<exists>n' m'. background_run ws n = Inr n' \<and> background_run us m = Inr m' \<and>
    lookup n' = lookup m' \<and>
    (\<forall>k. lookup n' k = (newest k (fst (lookup n k)) (snd ` set ws),
       V k (newest k (fst (lookup n k)) (snd ` set ws))))"
proof -
  obtain n' where n': "background_run ws n = Inr n'" "follows V n'"
    "\<forall>k. fst (lookup n' k) = newest k (fst (lookup n k)) (snd ` set ws)"
    using background_run_newest [OF assms(1,2,6)] by blast
  obtain m' where m': "background_run us m = Inr m'" "follows V m'"
    "\<forall>k. fst (lookup m' k) = newest k (fst (lookup m k)) (snd ` set us)"
    using background_run_newest [OF assms(3,4,7)] by blast
  have "lookup n' k = (newest k (fst (lookup n k)) (snd ` set ws),
       V k (newest k (fst (lookup n k)) (snd ` set ws)))"
    "lookup n' k = lookup m' k" for k
    using n'(2,3) m'(2,3) assms(5,8) by (simp_all add: follows_def prod_eq_iff)
  with n'(1) m'(1) show ?thesis by blast
qed

end
