(* ===== verification/Props_Node.thy ===== *)
theory Props_Node
  imports Dbnode_Abort Dbnode_Races Dbnode_Unlock Dbnode_Background
begin

text \<open>
  The properties of the database node, each with an application to a small system: three
  nodes on in-memory stores, quorums of two.
\<close>

section \<open>A concrete system\<close>

definition ex_env :: env where
  "ex_env = \<lparr>leaderAnswer = 0, peersPerm = [0, 1], rangeOrder = (\<lambda>_. in_order), getIO = no_fault,
     putIO = no_fault, commitIO = no_fault, rollbackIO = no_fault\<rparr>"

definition ex_node :: "int \<Rightarrow> Dbnode" where
  "ex_node i = New (\<lambda>_. []) 3 i False 2 2 False"

text \<open>A node that holds the value 7 under timestamp 1 at key 1.\<close>

definition ex_store :: memstore where
  "ex_store = \<lparr>root = trie_insert [1] (encodeTimestampVal 1 (Some [7])) empty_trie,
     uncommitted = (\<lambda>_. None), txid = 1\<rparr>"

definition ex_peers :: "int \<Rightarrow> Dbnode" where
  "ex_peers p = (if p = 0 then ex_node 0 else (ex_node p)\<lparr>dstore := Mem ex_store\<rparr>)"

definition ex_read :: Message where
  "ex_read = zeroMessage\<lparr>Id' := 5, Src := 3, Dest := 0, DemuxKey := ClientReadRequest,
     Key := Some [1], Ok := True\<rparr>"

definition ex_write :: Message where
  "ex_write = zeroMessage\<lparr>Id' := 6, Src := 3, Dest := 0, DemuxKey := ClientWriteRequest,
     Key := Some [1], Value := Some [9], Ok := True\<rparr>"

lemma ex_env_simps [simp]:
  "calm ex_env" "benign ex_env" "valid_order (rangeOrder ex_env s)" "peersPerm ex_env = [0, 1]"
  by (simp_all add: calm_def benign_def ex_env_def)

lemma ex_node_simps [simp]:
  "dbid (ex_node i) = i" "numPeers (ex_node i) = 2" "quorumMembers (ex_node i) = None"
  "readQuorumSize (ex_node i) = 2" "writeQuorumSize (ex_node i) = 2" "uncommitedKey (ex_node i) = None"
  "node_ok (ex_node i)" "lookup (ex_node i) k = (0, [])" "Outgoing (ex_node i) = []"
  "sent (ex_node i) = []" "currentMode (ex_node i) = idle"
  by (simp_all add: ex_node_def node_ok_New) (simp_all add: New_def sent_def new_Repeater_def)

lemma ex_wired: "0 \<le> i \<Longrightarrow> i < 3 \<Longrightarrow> wired (ex_node i)"
  by (simp add: ex_node_def wired_New)

lemma ex_perm: "perm_ok ex_env (ex_node i)"
  by (auto simp: perm_ok_def)

lemma ex_store_lookup:
  "node_ok ((ex_node p)\<lparr>dstore := Mem ex_store\<rparr>)"
  "lookup ((ex_node p)\<lparr>dstore := Mem ex_store\<rparr>) k = (if k = [1] then (1, [7]) else (0, []))"
  by (simp_all add: node_ok_def lookup_def ex_store_def mem_content_def trie_get_insert
      decodable_def encode_length) (simp_all add: entry_def)

lemma ex_peers_simps:
  "ex_peers 0 = ex_node 0" "in_system (ex_node 0) p \<Longrightarrow> p \<noteq> 0 \<Longrightarrow> readable p (ex_peers p)"
  "lookup (ex_peers p) k = (if p \<noteq> 0 \<and> k = [1] then (1, [7]) else (0, []))"
  by (simp_all add: ex_peers_def readable_def ex_store_lookup)

section \<open>Reads\<close>


lemma ex_read_start:
  "\<exists>n1. start_transaction ex_env ex_read (ex_node 0) = Inr n1 \<and>
     sent n1 = [ex_read\<lparr>Src := 0, Dest := 2, DemuxKey := NodeGetRequest\<rparr>]"
  by (simp add: start_transaction_def ex_read_def fastReads_def continueProcessing_def
      continueFastRead_def assembleQuorum_def add_peer_def set_member_def repeat_send_def Let_def
      ex_node_def New_def Repeater_Send_def new_Repeater_def sent_def)

lemma ex_answer:
  "answers_get (ex_peers 2) (ex_read\<lparr>Src := 0, Dest := 2, DemuxKey := NodeGetRequest\<rparr>)
     (get_answer (ex_read\<lparr>Src := 0\<rparr>) (ex_peers 2) (Some [7]) 1 True)"
  unfolding answers_get_def
  by (rule exI [of _ ex_env])
    (simp add: handleGetReq_def fastReads_def ex_peers_def ex_store_def memstore_Get_def ex_read_def
      trie_get_insert emit_def get_answer_def)


section \<open>Writes\<close>

text \<open>C3: a write transaction commits. Its coordinator locks a write quorum; whatever the
  order of the members' lock, timestamp and put answers, it sends every member the four
  requests of the protocol, leaves its own data alone until the commit, and then holds the
  value under one more than the largest timestamp of the quorum and tells the client so. A
  strong write must have named that timestamp.\<close>

theorem write_commits_at_quorum:
  assumes "wired n" "node_ok n" "quorumMembers n = None" "perm_ok e n"
    and "2 \<le> writeQuorumSize n" "writeQuorumSize n \<le> numPeers n + 1"
    and "DemuxKey req \<in> {ClientWriteRequest, ClientStrongWriteRequest}"
    and "fits (Key req) (Value req)"
    and "start_transaction e req n = Inr n1" "Q = other_members n1"
    and "collects NodeLockResponse Q req ls" "collects NodeGetResponse Q req gs"
    and "collects NodePutResponse Q req ps"
    and "DemuxKey req = ClientStrongWriteRequest \<Longrightarrow> Timestamp req = next_ts n req gs"
  shows "int (card Q) + 1 = writeQuorumSize n \<and>
    sends (request_msg NodeLockRequestNoTimeout n1) Q n n1 \<and>
    (\<exists>n2 n3 n4. fold_res (\<lambda>(e, m). handleLockRes e m) ls n1 = Inr n2 \<and>
      sends (\<lambda>i. timestamp_request_msg (n\<lparr>clientRequest := req\<rparr>) i zeroMessage) Q n1 n2 \<and>
      fold_res (\<lambda>(e, m). handleGetRes e m) gs n2 = Inr n3 \<and> lookup n3 = lookup n \<and>
      sends (\<lambda>i. put_request_msg (next_ts n req gs) (n\<lparr>clientRequest := req\<rparr>) i zeroMessage) Q n2 n3 \<and>
      fold_res (\<lambda>(e, m). handlePutRes e m) ps n3 = Inr n4 \<and>
      committed n req (next_ts n req gs) n4 \<and>
      sends (\<lambda>i. unlock_msg True (n\<lparr>clientRequest := req\<rparr>) i zeroMessage) Q n3 n4)"
proof -
  from write_transaction [OF assms(1-8)] obtain n1' Q' where
    w: "start_transaction e req n = Inr n1'" "int (card Q') + 1 = writeQuorumSize n"
      "other_members n1' = Q'" "sends (request_msg NodeLockRequestNoTimeout n1') Q' n n1'"
    and step: "\<forall>ls gs ps. collects NodeLockResponse Q' req ls \<and> collects NodeGetResponse Q' req gs \<and>
        collects NodePutResponse Q' req ps \<and>
        (DemuxKey req = ClientStrongWriteRequest \<longrightarrow> Timestamp req = next_ts n req gs) \<longrightarrow>
      (\<exists>n2 n3 n4. fold_res (\<lambda>(e, m). handleLockRes e m) ls n1' = Inr n2 \<and>
        sends (\<lambda>i. timestamp_request_msg (n\<lparr>clientRequest := req\<rparr>) i zeroMessage) Q' n1' n2 \<and>
        fold_res (\<lambda>(e, m). handleGetRes e m) gs n2 = Inr n3 \<and> lookup n3 = lookup n \<and>
        sends (\<lambda>i. put_request_msg (next_ts n req gs) (n\<lparr>clientRequest := req\<rparr>) i zeroMessage) Q' n2 n3 \<and>
        fold_res (\<lambda>(e, m). handlePutRes e m) ps n3 = Inr n4 \<and>
        committed n req (next_ts n req gs) n4 \<and>
        sends (\<lambda>i. unlock_msg True (n\<lparr>clientRequest := req\<rparr>) i zeroMessage) Q' n3 n4)"
    by (elim exE conjE) (rule that)
  have "n1' = n1" "Q' = Q" using w(1,3) assms(9,10) by simp_all
  with w(2,4) step [rule_format, of ls gs ps] assms(11-14) show ?thesis by simp
qed

definition ex_reply :: "Messagetype \<Rightarrow> Message \<Rightarrow> 64 word \<Rightarrow> Message" where
  "ex_reply k req ts = zeroMessage\<lparr>Id' := Id' req, Src := 2, Dest := 0, DemuxKey := k,
     Timestamp := ts, Ok := True\<rparr>"

lemma ex_collects: "collects k {2} req [(ex_env, ex_reply k req ts)]"
  by (simp add: collects_def ex_reply_def)

lemma ex_write_start:
  "\<exists>n1. start_transaction ex_env ex_write (ex_node 0) = Inr n1 \<and> other_members n1 = {2}"
  by (simp add: start_transaction_def ex_write_def continueProcessing_def
      assembleQuorum_def add_peer_def set_member_def repeat_send_def Let_def
      ex_node_def New_def Repeater_Send_def new_Repeater_def other_members_def memberList_def)
    (auto simp: image_iff)

lemma ex_write_simps:
  "DemuxKey ex_write = ClientWriteRequest" "fits (Key ex_write) (Value ex_write)"
  "Id' ex_write = 6" "Key ex_write = Some [1]" "Value ex_write = Some [9]" "Src ex_write = 3"
  "fits (Some [1]) (Some [9])"
  by (simp_all add: ex_write_def fits_def)

lemma ex_next_ts:
  "next_ts (ex_node 0) ex_write [(ex_env, ex_reply k ex_write 1)] = 2"
  by (simp add: next_ts_def ex_reply_def)

theorem write_commits_at_quorum_ex:
  "\<exists>n1 n2 n3 n4. start_transaction ex_env ex_write (ex_node 0) = Inr n1 \<and>
     fold_res (\<lambda>(e, m). handleLockRes e m) [(ex_env, ex_reply NodeLockResponse ex_write 0)] n1 = Inr n2 \<and>
     fold_res (\<lambda>(e, m). handleGetRes e m) [(ex_env, ex_reply NodeGetResponse ex_write 1)] n2 = Inr n3 \<and>
     fold_res (\<lambda>(e, m). handlePutRes e m) [(ex_env, ex_reply NodePutResponse ex_write 2)] n3 = Inr n4 \<and>
     lookup n4 [1] = (2, [9]) \<and> Outgoing n4 = [write_ok_answer (ex_node 0) ex_write 2]"
proof -
  obtain n1 where n1: "start_transaction ex_env ex_write (ex_node 0) = Inr n1" "{2} = other_members n1"
    using ex_write_start by auto
  have "0 \<le> (0::int)" "(0::int) < 3" by simp_all
  from write_commits_at_quorum [OF ex_wired [OF this] _ _ ex_perm _ _ _ _ n1
      ex_collects [of _ _ 0] ex_collects [of _ _ 1] ex_collects [of _ _ 2]]
  have "\<exists>n2 n3 n4. fold_res (\<lambda>(e, m). handleLockRes e m) [(ex_env, ex_reply NodeLockResponse ex_write 0)] n1 = Inr n2 \<and>
      fold_res (\<lambda>(e, m). handleGetRes e m) [(ex_env, ex_reply NodeGetResponse ex_write 1)] n2 = Inr n3 \<and>
      fold_res (\<lambda>(e, m). handlePutRes e m) [(ex_env, ex_reply NodePutResponse ex_write 2)] n3 = Inr n4 \<and>
      committed (ex_node 0) ex_write 2 n4"
    unfolding ex_next_ts by (auto simp: ex_write_simps)
  with n1(1) show ?thesis
    by (auto simp: committed_def ex_write_simps)
qed

section \<open>Aborting and refusing\<close>

text \<open>C23: an abort in any phase of a write (a timeout, a negative answer) releases
  everything: every member of the quorum is sent a negative unlock request, the client a
  negative answer, the data stays as it was, and the node is idle.\<close>

theorem abort_releases_quorum:
  assumes "phase n req Q M k mark n1" "quorum_ok n Q" "benign e"
    and "M \<in> {assemblingQuorum, coordinatingWrite}"
  shows "\<exists>n2. abortProcessing e n1 = Inr n2 \<and> released n req n2 \<and>
    sends (\<lambda>i. unlock_msg False (n\<lparr>clientRequest := req\<rparr>) i zeroMessage) Q n1 n2"
  using abort_phase [OF assms] .

definition ex_coord :: "mode \<Rightarrow> Message \<Rightarrow> Message \<Rightarrow> Dbnode" where
  "ex_coord M req mark = coord (ex_node 0) req M [(2, zeroMessage), (0, mark)] 1 (new_Repeater 3 3)"

lemma ex_phase:
  "k \<noteq> NoMessagetype \<Longrightarrow> phase (ex_node 0) req {2} M k mark (ex_coord M req mark)"
  unfolding phase_def ex_coord_def
  by (intro exI [of _ "[(2, zeroMessage), (0, mark)]"] exI [of _ "new_Repeater 3 3"])
    (auto simp: members_ok_def)

lemma ex_quorum: "quorum_ok (ex_node 0) {2}"
  by (simp add: quorum_ok_def)

theorem abort_releases_quorum_ex:
  "\<exists>n2. abortProcessing ex_env (ex_coord coordinatingWrite ex_write put_mark) = Inr n2 \<and>
     currentMode n2 = idle \<and> Outgoing n2 = [write_failed_answer (ex_node 0) ex_write]"
  using abort_releases_quorum [OF ex_phase [of NodeGetResponse ex_write coordinatingWrite put_mark]
      ex_quorum, of ex_env]
  by (auto simp: released_def)



text \<open>C22: a strong write is a compare-and-set on the quorum's timestamp: under any other
  timestamp it changes nothing, releases the quorum and answers the client negatively with
  the timestamp it should have named.\<close>

theorem strong_write_is_compare_and_set:
  assumes "phase n req Q coordinatingWrite NodeGetResponse put_mark n1" "quorum_ok n Q"
    and "collects NodeGetResponse Q req gs" "node_ok n"
    and "DemuxKey req = ClientStrongWriteRequest" "Timestamp req \<noteq> next_ts n req gs"
  shows "\<exists>n2. fold_res (\<lambda>(e, m). handleGetRes e m) gs n1 = Inr n2 \<and>
    released n (req\<lparr>Timestamp := next_ts n req gs\<rparr>) n2 \<and>
    sends (\<lambda>i. unlock_msg False (n\<lparr>clientRequest := req\<rparr>) i zeroMessage) Q n1 n2"
  using strong_write_refused [OF assms] .

definition ex_strong :: "64 word \<Rightarrow> Message" where
  "ex_strong ts = ex_write\<lparr>DemuxKey := ClientStrongWriteRequest, Timestamp := ts\<rparr>"

theorem strong_write_is_compare_and_set_ex:
  "\<exists>n2. fold_res (\<lambda>(e, m). handleGetRes e m) [(ex_env, ex_reply NodeGetResponse (ex_strong 1) 1)]
     (ex_coord coordinatingWrite (ex_strong 1) put_mark) = Inr n2 \<and> currentMode n2 = idle \<and>
     (\<exists>a. Outgoing n2 = [a] \<and> \<not> Ok a \<and> Timestamp a = 2)"
proof -
  have ts: "next_ts (ex_node 0) (ex_strong 1) [(ex_env, ex_reply NodeGetResponse (ex_strong 1) 1)] = 2"
    by (simp add: next_ts_def ex_reply_def)
  show ?thesis
    using strong_write_is_compare_and_set [OF ex_phase ex_quorum
        ex_collects [of NodeGetResponse "ex_strong 1" 1], unfolded ts]
    by (auto simp: released_def ex_strong_def write_failed_answer_def)
qed

section \<open>Participants\<close>


definition ex_locked :: Dbnode where
  "ex_locked = (ex_node 2)\<lparr>currentMode := processingWrite, currentTxid := 6\<rparr>"

definition ex_put :: Message where
  "ex_put = zeroMessage\<lparr>Id' := 6, Src := 0, Dest := 2, DemuxKey := NodePutRequest,
     Key := Some [1], Value := Some [9], Timestamp := 2, Ok := True\<rparr>"

definition ex_foreign :: "(env \<times> event) list" where
  "ex_foreign = [(ex_env, Incoming (timer_signal ex_locked 0)),
     (ex_env, Incoming (zeroMessage\<lparr>Id' := 7, Src := 1, Dest := 2, DemuxKey := NodeLockRequestNoTimeout\<rparr>))]"

lemmas node_eval = handleRequests_run_def on_incoming_def alloc_def Let_def on_timer_def
  ex_node_def New_def dispatch_def enqueue_request_def enqueue_def queue_contains_def empty_queue_def
  serve_def queue_empty_def dequeue_def deref_def start_transaction_def fastReads_def
  continueProcessing_def continueFastRead_def assembleQuorum_def add_peer_def set_member_def
  repeat_send_def Repeater_Send_def new_Repeater_def on_lock_timeout_def queue_remove_def
  client_request_type_def abortProcessing_def rollback_uncommitted_def send_members_def
  range_members_def memberList_def to_idle_def abort_answer_def unlock_msg_def emit_def
  lock_answer_def ex_env_def handleUnlockReq_def



definition ex_unlock :: Message where
  "ex_unlock = zeroMessage\<lparr>Id' := 6, Src := 1, Dest := 0, DemuxKey := NodeUnlockRequest, Ok := True\<rparr>"

definition ex_lock :: "int \<Rightarrow> int \<Rightarrow> Message" where
  "ex_lock i src = zeroMessage\<lparr>Id' := i, Src := src, Dest := 0,
     DemuxKey := NodeLockRequestNoTimeout, Ok := True\<rparr>"


text \<open>Reads and writes at quorum size 1 are linear at the node: a local write stores the
  next timestamp, and a local strong write is a compare-and-set on it that changes nothing
  when it fails.\<close>

theorem local_write_compare_and_set:
  assumes "node_ok n" "calm e" "raw (uncommitedKey n) = []" "fits (Key msg) (Value msg)"
    and "lookup n (raw (Key msg)) = (t, old)"
  shows "\<exists>n' v. processLocalWrite e msg n = Inr n' \<and> node_ok n' \<and>
    (if DemuxKey msg = ClientStrongWriteRequest \<and> Timestamp msg \<noteq> t + 1
     then lookup n' = lookup n \<and> raw v = old \<and>
       Outgoing n' = Outgoing n @ [local_write_answer msg n v (t + 1) False]
     else lookup n' = (lookup n)(raw (Key msg) := (t + 1, raw (Value msg))) \<and>
       Outgoing n' = Outgoing n @ [local_write_answer msg n (Value msg) (t + 1) True])"
  using processLocalWrite_lookup [OF assms(1-4)] assms(5) by simp

theorem local_write_compare_and_set_ex:
  "\<exists>n'. processLocalWrite ex_env (ex_strong 1) (ex_node 0) = Inr n' \<and> lookup n' [1] = (1, [9])"
proof -
  have "node_ok (ex_node 0)" "calm ex_env" "raw (uncommitedKey (ex_node 0)) = []"
    "fits (Key (ex_strong 1)) (Value (ex_strong 1))"
    "lookup (ex_node 0) (raw (Key (ex_strong 1))) = (0, [])"
    by (simp_all add: ex_strong_def ex_write_simps)
  from local_write_compare_and_set [OF this] show ?thesis
    by (auto simp: ex_strong_def ex_write_simps)
qed

section \<open>Background writes\<close>


definition ex_background :: "64 word \<Rightarrow> byte list \<Rightarrow> env \<times> Message" where
  "ex_background ts v = (ex_env, zeroMessage\<lparr>Id' := 3, Src := 1, DemuxKey := NodeBackgroundWriteRequest,
     Key := Some [1], Value := Some v, Timestamp := ts, Ok := True\<rparr>)"


section \<open>Orders of events the code gets wrong\<close>

text \<open>A write can commit without its quorum. With two other members, one member's put
  answer followed by a repeated copy of the same member's timestamp answer makes the
  coordinator commit and tell the client of success, although the other member has not
  answered.\<close>

theorem stale_answer_commits_without_quorum:
  assumes "node_ok n" "fits (Key req) (Value req)"
    and "Store_Put no_fault (dstore n) (Key req) (encodeTimestampVal ts (Value req)) = Inr (st, tx)"
    and "phase (stage n req st tx) req Q coordinatingWrite NodePutResponse (commit_mark ts) n1"
    and "quorum_ok n Q" "card Q = 2" "Src m1 \<in> Q" "Src m2 = Src m1"
    and "Ok m1" "DemuxKey m1 = NodePutResponse" "Id' m1 = Id' req"
    and "Ok m2" "DemuxKey m2 = NodeGetResponse" "Id' m2 = Id' req"
    and "benign e2"
  shows "\<exists>n2 n3. handlePutRes e1 m1 n1 = Inr n2 \<and> handleGetRes e2 m2 n2 = Inr n3 \<and>
    committed n req ts n3"
  using commit_without_quorum [OF assms] .

definition ex_five :: Dbnode where
  "ex_five = New (\<lambda>_. []) 5 0 False 3 3 False"

definition ex_staged :: Dbnode where
  "ex_staged = stage ex_five ex_write
     (Mem (fst (memstore_Put new_memstore (Some [1]) (encodeTimestampVal 2 (Some [9]))))) 1"

theorem stale_answer_commits_without_quorum_ex:
  "\<exists>n2 n3. handlePutRes ex_env (ex_reply NodePutResponse ex_write 2)
       (coord ex_staged ex_write coordinatingWrite [(1, zeroMessage), (2, zeroMessage), (0, commit_mark 2)]
         2 (new_Repeater 5 3)) = Inr n2 \<and>
     handleGetRes ex_env (ex_reply NodeGetResponse ex_write 1) n2 = Inr n3 \<and>
     lookup n3 [1] = (2, [9]) \<and> Outgoing n3 = [write_ok_answer ex_five ex_write 2]"
proof -
  let ?n1 = "coord ex_staged ex_write coordinatingWrite
    [(1, zeroMessage), (2, zeroMessage), (0, commit_mark 2)] 2 (new_Repeater 5 3)"
  have five: "node_ok ex_five" "numPeers ex_five = 4" "dbid ex_five = 0" "Outgoing ex_five = []"
    "dstore ex_five = Mem new_memstore"
    by (simp_all add: ex_five_def node_ok_New) (simp_all add: New_def new_Store_def)
  have put: "Store_Put no_fault (dstore ex_five) (Key ex_write) (encodeTimestampVal 2 (Value ex_write)) =
      Inr (Mem (fst (memstore_Put new_memstore (Some [1]) (encodeTimestampVal 2 (Some [9])))), 1)"
    by (simp add: five ex_write_simps memstore_Put_def new_memstore_def next_txid_def)
  have ph: "phase ex_staged ex_write {1, 2} coordinatingWrite NodePutResponse (commit_mark 2) ?n1"
    unfolding phase_def
    by (intro exI [of _ "[(1, zeroMessage), (2, zeroMessage), (0, commit_mark 2)]"]
        exI [of _ "new_Repeater 5 3"]) (auto simp: members_ok_def ex_staged_def five)
  have fits: "fits (Key ex_write) (Value ex_write)" by (simp add: ex_write_simps)
  have q: "quorum_ok ex_five {1, 2}" "card {1, 2 :: int} = 2"
    "Src (ex_reply NodePutResponse ex_write 2) \<in> {1, 2}"
    "Src (ex_reply NodeGetResponse ex_write 1) = Src (ex_reply NodePutResponse ex_write 2)"
    by (simp_all add: quorum_ok_def five ex_reply_def)
  have "\<exists>n2 n3. handlePutRes ex_env (ex_reply NodePutResponse ex_write 2) ?n1 = Inr n2 \<and>
      handleGetRes ex_env (ex_reply NodeGetResponse ex_write 1) n2 = Inr n3 \<and>
      committed ex_five ex_write 2 n3"
    by (rule stale_answer_commits_without_quorum [OF five(1) fits put _ q, folded ex_staged_def])
      (simp_all add: ph ex_reply_def)
  then show ?thesis by (auto simp: committed_def five ex_write_simps)
qed

definition ex_overwriting :: "(env \<times> event) list" where
  "ex_overwriting = [(ex_env, Incoming ex_read), (ex_env, Incoming (ex_lock 7 1)),
     (ex_env, TimedOutLockRequest 0), (ex_env, Incoming (ex_lock 8 2))]"

text \<open>A lock request can be lost. In this run from a fresh node a read is served, a lock
  request (7) queues behind it, the read times out, and a second lock request (8) arrives. The
  main loop writes request 7 over the variable that holds request 8, so the queue is left with
  a second copy of 7 and no trace of 8.\<close>

theorem lock_request_lost:
  "\<exists>n. handleRequests_run ex_overwriting (ex_node 0) = Inr n \<and>
     currentMode n = processingWrite \<and> currentTxid n = 7 \<and>
     map (\<lambda>p. Id' (cells n ! p)) (qvalues (lockRequests n)) = [7]"
  by (simp add: node_eval ex_overwriting_def ex_read_def ex_lock_def)

text \<open>A commit can go back in time. A participant that has voted for a write stores a
  newer background write of the same key at once; the unlock request of the older write then
  replaces the newer value by the older one.\<close>

theorem late_commit_regresses:
  assumes "voted t k (encodeTimestampVal ts v) (Suc b) n" "node_ok n" "calm e"
    and "fits (Key w) (Value w)" "raw (Key w) = raw k" "ts < Timestamp w"
    and "fst (lookup n (raw k)) < Timestamp w" "Id' u = t" "Ok u"
  shows "\<exists>n1. handleBackgroundWriteReq e w n = Inr n1 \<and>
    lookup n1 (raw k) = (Timestamp w, raw (Value w)) \<and>
    lookup (handleUnlockReq e' u n1) (raw k) = (ts, raw v)"
  using late_unlock_regresses [OF assms] .

definition ex_voted :: Dbnode where
  "ex_voted = ex_locked\<lparr>dstore := Mem (fst (memstore_Put new_memstore (Some [1])
     (encodeTimestampVal 2 (Some [9])))), uncommitedTxid := 1, uncommitedKey := Some [1]\<rparr>"

lemma ex_voted_ok: "voted 6 (Some [1]) (encodeTimestampVal 2 (Some [9])) 5 ex_voted"
  "node_ok ex_voted" "lookup ex_voted k = (0, [])"
  by (simp_all add: voted_def ex_voted_def ex_locked_def ex_node_def New_def staged_at_def
      mem_staged_def memstore_Put_def new_memstore_def next_txid_def Let_def no_client_def
      node_ok_def lookup_def mem_content_def decodable_def entry_def word_sless_alt)

theorem late_commit_regresses_ex:
  "\<exists>n1. handleBackgroundWriteReq ex_env (snd (ex_background 3 [8])) ex_voted = Inr n1 \<and>
     lookup n1 [1] = (3, [8]) \<and> lookup (handleUnlockReq ex_env ex_unlock n1) [1] = (2, [9])"
proof -
  have v: "voted 6 (Some [1]) (encodeTimestampVal 2 (Some [9])) (Suc 4) ex_voted"
    using ex_voted_ok(1) by simp
  from late_commit_regresses [OF v ex_voted_ok(2), of ex_env "snd (ex_background 3 [8])" ex_unlock ex_env]
  show ?thesis by (auto simp: ex_background_def ex_unlock_def ex_voted_ok(3) fits_def)
qed

text \<open>An aborted write blocks reads. A negative unlock request frees the participant's
  mode but not its \<open>uncommitedKey\<close>: it then refuses the read of every coordinator, for any
  key, until some later write commits on it.\<close>

theorem aborted_write_blocks_reads:
  assumes "voted t k enc b n" "k \<noteq> None" "Id' u = t" "\<not> Ok u"
  shows "currentMode (handleUnlockReq e u n) = idle \<and>
    handleGetReq e' q (handleUnlockReq e u n) =
      Inr (emit (get_answer q n None 0 False) (handleUnlockReq e u n))"
  using abort_blocks_reads [OF assms] by simp

theorem aborted_write_blocks_reads_ex:
  "handleGetReq ex_env ex_read (handleUnlockReq ex_env (ex_unlock\<lparr>Ok := False\<rparr>) ex_voted) =
     Inr (emit (get_answer ex_read ex_voted None 0 False)
       (handleUnlockReq ex_env (ex_unlock\<lparr>Ok := False\<rparr>) ex_voted))"
  using aborted_write_blocks_reads [OF ex_voted_ok(1), of "ex_unlock\<lparr>Ok := False\<rparr>" ex_env ex_env ex_read]
  by (simp add: ex_unlock_def)

end
