(* ===== verification/Props_Store.thy ===== *)
theory Props_Store
  imports Datastore Codec
begin

text \<open>
  The properties of the local stores and of the encoding of stored values.
\<close>

section \<open>The store interface\<close>

definition ex_disk :: Store where
  "ex_disk = new_Store (\<lambda>_. []) [100]"

lemma ex_disk_ok: "store_invar ex_disk" "store_content ex_disk = (\<lambda>_. [])"
  by (simp_all add: ex_disk_def)

lemma small_simps: "small []" "small [x]" "small [x, y]"
  by (simp_all add: small_def)

text \<open>C20: what a store returns after a write. For the in-memory store and for the on-disk
  store under every hash function (colliding ones included), a put whose system calls succeed
  can be committed, and afterwards a read of any key returns the new value for the key written
  and the old value for every other key, also for one on the same page.\<close>

theorem store_reads_what_was_committed:
  assumes "store_invar s" "disk_fits k v"
  shows "\<exists>s1 i s2. Store_Put no_fault s k v = Inr (s1, i) \<and> i \<noteq> 0 \<and>
    Store_Commit no_fault s1 k i = (s2, True) \<and> store_invar s2 \<and>
    (\<forall>k'. \<exists>x. Store_Get no_fault s2 k' = Inr (x, False) \<and>
       raw x = (if raw k' = raw k then raw v else store_content s (raw k')))"
proof -
  obtain s1 i where p: "Store_Put no_fault s k v = Inr (s1, i)"
    using store.Put_total [OF assms] by blast
  obtain s2 where c: "Store_Commit no_fault s1 k i = (s2, True)" "store_invar s2"
    using store.Put_Commit [OF assms p] by blast
  show ?thesis
    using p c store.Put_id [OF assms p] store.Get_after_write [OF assms p c(1)] by blast
qed

theorem store_reads_what_was_committed_ex:
  "\<exists>s1 i s2 x y. Store_Put no_fault ex_disk (Some [1]) (Some [7]) = Inr (s1, i) \<and>
     Store_Commit no_fault s1 (Some [1]) i = (s2, True) \<and>
     Store_Get no_fault s2 (Some [1]) = Inr (x, False) \<and> raw x = [7] \<and>
     Store_Get no_fault s2 (Some [2]) = Inr (y, False) \<and> raw y = []"
proof -
  have "disk_fits (Some [1]) (Some [7])" by (simp add: disk_fits_def small_simps)
  from store_reads_what_was_committed [OF ex_disk_ok(1) this] obtain s1 i s2 where
    s: "Store_Put no_fault ex_disk (Some [1]) (Some [7]) = Inr (s1, i)"
      "Store_Commit no_fault s1 (Some [1]) i = (s2, True)"
    and g: "\<forall>k'. \<exists>x. Store_Get no_fault s2 k' = Inr (x, False) \<and>
       raw x = (if raw k' = raw (Some [1]) then raw (Some [7]) else store_content ex_disk (raw k'))"
    by blast
  from g [rule_format, of "Some [1]"] g [rule_format, of "Some [2]"] s show ?thesis
    by (auto simp: ex_disk_ok(2))
qed

text \<open>C21: writes are atomic. Whatever system calls fail, and after however many bytes a
  write is cut short, a put neither crashes nor changes what any key reads, and a rollback
  does not either: only a successful commit replaces a page.\<close>

theorem failed_writes_change_nothing:
  assumes "disk_invar s"
  shows "\<exists>s1 i. persistent_Put io s k v = Inr (s1, i) \<and> i \<in> {0, next_txid (ptxid s)} \<and>
    disk_invar s1 \<and> disk_content s1 = disk_content s \<and>
    disk_content (persistent_Rollback io' s1 i) = disk_content s \<and>
    (\<forall>s2. persistent_Commit io' s1 k i = (s2, False) \<longrightarrow> disk_content s2 = disk_content s)"
proof -
  obtain s1 i where p: "persistent_Put io s k v = Inr (s1, i)"
    using Put_total_any_fault [OF assms] by blast
  have "only_tx s s1 \<and> i \<in> {0, next_txid (ptxid s)}" using Put_any_fault [OF p] .
  moreover from this have f: "disk_content s1 = disk_content s" "disk_invar s1"
    using only_tx_frame assms by auto
  moreover have "disk_content (persistent_Rollback io' s1 i) = disk_content s"
    by (simp add: persistent_Rollback_def f(1))
  moreover have "\<forall>s2. persistent_Commit io' s1 k i = (s2, False) \<longrightarrow> disk_content s2 = disk_content s"
    using f(1) by (auto simp: persistent_Commit_def split: option.splits if_splits)
  ultimately show ?thesis using p by blast
qed

definition ex_torn :: iofault where
  "ex_torn = no_fault\<lparr>write_fails := (\<lambda>_. Some 3)\<rparr>"

theorem failed_writes_change_nothing_ex:
  "\<exists>s1 i. persistent_Put ex_torn (new_persistentstore (\<lambda>_. [])) (Some [1]) (Some [7]) = Inr (s1, i) \<and>
     disk_content s1 = (\<lambda>_. [])"
  using failed_writes_change_nothing [OF disk_new(1) [of "\<lambda>_. []"], of ex_torn "Some [1]" "Some [7]" no_fault]
  by (auto simp: disk_new(2))

text \<open>C31: the page format round-trips. Reading a key from a printed page gives the value of
  its record; rewriting the page for a key gives the printed page with that record replaced or
  added.\<close>

theorem page_format_round_trip:
  assumes "page_ok recs" "small key" "small val"
  shows "scan_page k (print_page recs) = Inr (map_of recs k) \<and>
    page_ok (put_recs key val recs) \<and>
    scan_page k (print_page (put_recs key val recs)) = Inr (((map_of recs)(key \<mapsto> val)) k) \<and>
    (\<exists>w. copy_page no_fault key val (print_page recs) \<lparr>page = [], writes = 0\<rparr> False =
      Inr (w, key \<in> fst ` set recs, True) \<and> page w = print_page (upd_recs key val recs))"
  using scan_print_page [OF assms(1)] page_ok_put [OF assms]
    scan_print_page [OF page_ok_put [OF assms]] map_of_put_recs
    copy_page_no_fault [OF assms(1), of key val "\<lparr>page = [], writes = 0\<rparr>" False]
  by auto

theorem page_format_round_trip_ex:
  "scan_page [1] (print_page [([1], [7]), ([2], [])]) = Inr (Some [7])"
  using page_format_round_trip [of "[([1], [7]), ([2], [])]" "[3]" "[4]" "[1]"]
  by (simp add: page_ok_def small_simps)

text \<open>C32: the in-memory store keeps transactions apart. A staged write survives any other
  put and commit, and can then be committed with exactly its own effect; so it also overwrites
  what was committed to its key in between.\<close>

theorem memstore_staged_write_survives:
  assumes "mem_staged s i = Some (k, v)" "memstore_Put s k' v' = (s1, j)" "j \<noteq> i"
    and "memstore_Commit s1 k' j = (s2, ok)"
  shows "\<exists>s3. memstore_Commit s2 k i = (s3, True) \<and>
    mem_content s3 = (mem_content s2)(raw k := raw v) \<and>
    mem_content s2 = (mem_content s)(raw k' := raw v')"
proof -
  have "mem_staged s2 i = Some (k, v)"
    using mem.staged_survives_write [where k' = k' and v' = v' and s = s and i = i and k = k and
        v = v and s' = s1 and j = j and s'' = s2 and ok = ok] assms by simp
  moreover have "mem_content s2 = (mem_content s)(raw k' := raw v')"
    using mem.write_content(3) [where s = s and k = k' and v = v' and s' = s1 and i = j and
        s'' = s2 and ok = ok] assms by simp
  ultimately show ?thesis
    using mem.Commit_staged [where s = s2 and i = i and k = k and v = v] by auto
qed

theorem memstore_staged_write_survives_ex:
  "\<exists>s1 s2 s3. memstore_Put (fst (memstore_Put new_memstore (Some [1]) (Some [7]))) (Some [1]) (Some [8]) =
       (s1, 2) \<and> memstore_Commit s1 (Some [1]) 2 = (s2, True) \<and> mem_content s2 [1] = [8] \<and>
     memstore_Commit s2 (Some [1]) 1 = (s3, True) \<and> mem_content s3 [1] = [7]"
proof -
  let ?s = "fst (memstore_Put new_memstore (Some [1]) (Some [7]))"
  have s: "mem_staged ?s 1 = Some (Some [1], Some [7])"
    by (simp add: memstore_Put_def new_memstore_def next_txid_def mem_staged_def Let_def)
  obtain s1 where p: "memstore_Put ?s (Some [1]) (Some [8]) = (s1, 2)"
    by (simp add: memstore_Put_def new_memstore_def next_txid_def Let_def)
  then obtain s2 where c: "memstore_Commit s1 (Some [1]) 2 = (s2, True)"
    by (auto simp: memstore_Put_def new_memstore_def next_txid_def Let_def memstore_Commit_def)
  from memstore_staged_write_survives [OF s p _ c] p c show ?thesis by auto
qed

section \<open>Timestamps\<close>

text \<open>Encoding a timestamp with a value is a bijection onto the byte strings of at least
  eight bytes: decoding gives back both parts, encoding what was decoded gives back the bytes,
  and the only inputs the decoder rejects are those of one to seven bytes.\<close>

theorem timestamp_codec_round_trip:
  "decodeTimestampVal (encodeTimestampVal ts v) = Inr (ts, Some (raw v)) \<and>
   (decodeTimestampVal x = Inl Fatal \<longleftrightarrow> length (raw x) \<in> {1..<8}) \<and>
   (8 \<le> length (raw x) \<longrightarrow>
     (\<exists>t u. decodeTimestampVal x = Inr (t, u) \<and> raw (encodeTimestampVal t u) = raw x))"
proof -
  have "\<exists>t u. decodeTimestampVal x = Inr (t, u) \<and> raw (encodeTimestampVal t u) = raw x"
    if len: "8 \<le> length (raw x)"
  proof -
    obtain t u where d: "decodeTimestampVal x = Inr (t, u)"
      using len decodable_iff [of x] by (auto simp: decodable_def)
    moreover have "raw x \<noteq> []" using len by auto
    ultimately show ?thesis using encode_decode by blast
  qed
  moreover have "decodeTimestampVal x = Inl Fatal \<longleftrightarrow> length (raw x) \<in> {1..<8}"
    by (auto simp: decodeTimestampVal_def Suc_le_eq)
  ultimately show ?thesis by simp
qed

theorem timestamp_codec_round_trip_ex:
  "decodeTimestampVal (encodeTimestampVal 3 (Some [7])) = Inr (3, Some [7]) \<and>
   decodeTimestampVal (Some [0]) = Inl Fatal"
  using timestamp_codec_round_trip [of 3 "Some [7]" "Some [0]"] by simp

section \<open>Where the stores fall short of their comments\<close>

lemma wrapped_end:
  assumes "2 ^ 32 - 4 \<le> length v" "length v < 2 ^ 32"
  shows "unat (get_be (put_be 4 (of_nat (length v) :: 32 word)) + 4 :: 32 word) < 4"
proof -
  have "unat (of_nat (length v + 4) :: 32 word) = (length v + 4) mod 2 ^ 32"
    by (simp add: unat_of_nat del: of_nat_add)
  also have "\<dots> = length v + 4 - 2 ^ 32"
    using assms by (subst le_mod_geq) auto
  also have "\<dots> < 4" using assms by simp
  finally show ?thesis by (simp add: get_put_be)
qed

text \<open>C33: a value whose length is among the last four a \<open>uint32\<close> can represent is stored,
  but its end offset wraps around: reading it back panics.\<close>

theorem oversized_value_panics:
  assumes "2 ^ 32 - 4 \<le> length v" "length v < 2 ^ 32" "small (raw k)"
  shows "\<exists>s1 i s2. persistent_Put no_fault (new_persistentstore h) k (Some v) = Inr (s1, i) \<and>
    i \<noteq> 0 \<and> persistent_Commit no_fault s1 k i = (s2, True) \<and>
    persistent_Get no_fault s2 k = Inl Panic"
proof -
  let ?s = "new_persistentstore h"
  let ?pg = "u32_field (raw k) @ u32_field v"
  let ?s1 = "?s\<lparr>ptxid := 1, files := (files ?s)(tx_name 1 \<mapsto> ?pg)\<rparr>"
  have put: "persistent_Put no_fault ?s k (Some v) = Inr (?s1, 1)"
    by (simp add: persistent_Put_def putNew_def Let_def new_persistentstore_def no_fault_def
        next_txid_def write_page_def)
  let ?s2 = "?s1\<lparr>files := ((files ?s1)(tx_name 1 := None))(page_name ?s1 (raw k) \<mapsto> ?pg)\<rparr>"
  have commit: "persistent_Commit no_fault ?s1 k 1 = (?s2, True)"
    by (simp add: persistent_Commit_def no_fault_def)
  have "subslice 4 (unat (get_be (put_be 4 (of_nat (length v) :: 32 word)) + 4 :: 32 word)) (u32_field v) =
      Inl Panic"
    using wrapped_end [OF assms(1,2)] by (simp add: subslice_def)
  then have "scan_page (raw k) ?pg = Inl Panic"
    using assms(3) u32_field_slices(1) [of v "[]"]
    by (subst scan_page.simps) (simp add: u32_field_slices u32_field_end Let_def)
  then have "persistent_Get no_fault ?s2 k = Inl Panic"
    by (simp add: persistent_Get_def no_fault_def)
  with put commit show ?thesis by (metis one_neq_zero)
qed

theorem oversized_value_panics_ex:
  "\<exists>s1 i s2. persistent_Put no_fault (new_persistentstore (\<lambda>_. [])) (Some [1])
       (Some (replicate (2 ^ 32 - 4) 0)) = Inr (s1, i) \<and>
     persistent_Commit no_fault s1 (Some [1]) i = (s2, True) \<and>
     persistent_Get no_fault s2 (Some [1]) = Inl Panic"
proof -
  have l: "length (replicate (2 ^ 32 - 4) (0 :: byte)) = 2 ^ 32 - 4" by (rule length_replicate)
  have "2 ^ 32 - 4 \<le> length (replicate (2 ^ 32 - 4) (0 :: byte))"
    "length (replicate (2 ^ 32 - 4) (0 :: byte)) < 2 ^ 32"
    unfolding l by simp_all
  from oversized_value_panics [OF this, of "Some [1]" "\<lambda>_. []"] show ?thesis
    by (auto simp only: raw_simps small_simps simp_thms)
qed

text \<open>Committing an id that was never handed out succeeds on the in-memory store when
  the key is empty, and erases the value of the empty key: a missing entry reads as a pair
  with a nil key, and nil equals empty.\<close>

lemma memstore_commits_unknown_id:
  assumes "uncommitted s i = None" "raw k = []"
  shows "\<exists>s1. memstore_Commit s k i = (s1, True) \<and> mem_content s1 = (mem_content s)([] := [])"
  using assms by (auto simp: memstore_Commit_def bytes_Equal_def mem_content_def trie_get_insert)

lemma memstore_commits_unknown_id_ex:
  "\<exists>s1. memstore_Commit (new_memstore\<lparr>root := Node (Some [7]) (\<lambda>_. None)\<rparr>) (Some []) 42 = (s1, True) \<and>
     mem_content s1 [] = []"
  using memstore_commits_unknown_id [of "new_memstore\<lparr>root := Node (Some [7]) (\<lambda>_. None)\<rparr>" 42 "Some []"]
  by (auto simp: new_memstore_def)

end
