(* ===== verification/Ring.thy ===== *)
theory Ring
  imports Packet Strconv
begin

text \<open>
  \<open>src/dbnode/elector/ring.go\<close>: the ring-based leader election. The state is the Go struct,
  with its channels as logs of what was sent on them; one \<open>ring_step\<close> is one iteration of
  \<open>mainLoop\<close>. Token values are byte strings of three-digit ids; here they are immutable
  values. The clock is an argument, in nanoseconds.
\<close>

section \<open>Ids as bytes\<close>

definition idAsBytes :: "int \<Rightarrow> byte list res" where
  "idAsBytes i =
     (let b = itoa i
      in if length b = 1 then Inr ([48, 48] @ b)
         else if length b = 2 then Inr ([48] @ b)
         else if length b = 3 then Inr b
         else Inl Fatal)"

definition bytesAsId :: "byte list \<Rightarrow> int res" where
  "bytesAsId b = (case atoi b of (i, ok) \<Rightarrow> if ok then Inr i else Inl Fatal)"

definition addId :: "bytes \<Rightarrow> int \<Rightarrow> bytes res" where
  "addId b i = bind_res (idAsBytes i) (\<lambda>e. Inr (Some (raw b @ e)))"

text \<open>The loop of \<open>removeId\<close>, three bytes at a time; only the first match is cut out.\<close>

function remove_scan :: "byte list \<Rightarrow> int \<Rightarrow> byte list res" where
  "remove_scan b i =
     (if b = [] then Inr []
      else bind_res (subslice 0 3 b) (\<lambda>x.
        bind_res (bytesAsId x) (\<lambda>j.
          if j = i then Inr (drop 3 b)
          else bind_res (remove_scan (drop 3 b) i) (\<lambda>r. Inr (take 3 b @ r)))))"
  by pat_completeness auto
termination
  by (relation "measure (\<lambda>(b, i). length b)") auto

declare remove_scan.simps [simp del]

definition removeId :: "bytes \<Rightarrow> int \<Rightarrow> bytes res" where
  "removeId b i = bind_res (remove_scan (raw b) i) (\<lambda>r. Inr (map_option (\<lambda>_. r) b))"

function max_scan :: "byte list \<Rightarrow> int \<Rightarrow> int res" where
  "max_scan b mx =
     (if b = [] then Inr mx
      else bind_res (subslice 0 3 b) (\<lambda>x.
        bind_res (bytesAsId x) (\<lambda>j. max_scan (drop 3 b) (if j > mx then j else mx))))"
  by pat_completeness auto
termination
  by (relation "measure (\<lambda>(b, m). length b)") auto

declare max_scan.simps [simp del]

definition highestId :: "bytes \<Rightarrow> int res" where
  "highestId b = (if length (raw b) mod 3 > 0 then Inl Fatal else max_scan (raw b) (-1))"

text \<open>
  \<open>containsId\<close>, which nothing calls: it expects ids separated by zero bytes. \<open>i\<close> is the
  start of a segment, \<open>j\<close> its end.
\<close>

definition next_zero :: "byte list \<Rightarrow> nat \<Rightarrow> nat" where
  "next_zero b j = j + length (takeWhile (\<lambda>c. c \<noteq> 0) (drop j b))"

function contains_scan :: "byte list \<Rightarrow> int \<Rightarrow> nat \<Rightarrow> nat \<Rightarrow> bool res" where
  "contains_scan b k i j =
     (if i < length b
      then bind_res (subslice i (next_zero b j) b) (\<lambda>x.
        bind_res (bytesAsId x) (\<lambda>v.
          if v = k then Inr True else contains_scan b k (next_zero b j + 1) (next_zero b j)))
      else Inr False)"
  by pat_completeness auto
termination
  by (relation "measure (\<lambda>(b, k, i, j). length b - i)") (auto dest!: subslice_InrD)

declare contains_scan.simps [simp del]

definition containsId :: "bytes \<Rightarrow> int \<Rightarrow> bool res" where
  "containsId b k = contains_scan (raw b) k 0 0"

section \<open>State\<close>

record ring =
  r_id :: int
  r_n :: int
  r_outgoing :: "Message list"
  leader :: int
  nextInRing :: int
  token :: Message
  leaderQueryRes :: "int list"
  requestsToForward :: "Message list"
  r_disabled :: bool
  r_internalTimer :: "int list"
  tokenSentLast :: "int option"
  r_timeoutCounter :: int

text \<open>\<open>timeout / 5\<close> with the timeout of 50 ms; \<open>tokenSentLast\<close> is \<open>None\<close> at the zero time.\<close>

definition tokenGap :: int where
  "tokenGap = 10000000"

definition forwardToken :: "int \<Rightarrow> ring \<Rightarrow> ring" where
  "forwardToken now r =
     (if (case tokenSentLast r of None \<Rightarrow> True | Some t \<Rightarrow> now - t > tokenGap)
      then r\<lparr>r_outgoing := r_outgoing r @ [token r], tokenSentLast := Some now\<rparr>
      else r)"

text \<open>Buffered client requests go to the leader, in order.\<close>

definition forwardRequests :: "ring \<Rightarrow> ring" where
  "forwardRequests r =
     r\<lparr>r_outgoing := r_outgoing r @ map (\<lambda>m. m\<lparr>Dest := leader r\<rparr>) (requestsToForward r),
       requestsToForward := []\<rparr>"

definition wrap_next :: "int \<Rightarrow> int \<Rightarrow> int" where
  "wrap_next n i = (if i + 1 = n then 0 else i + 1)"

definition newRing :: "int \<Rightarrow> int \<Rightarrow> ring" where
  "newRing i n =
     \<lparr>r_id = i, r_n = n, r_outgoing = [], leader = -1, nextInRing = wrap_next n i,
      token = zeroMessage\<lparr>Id' := -1, Src := i, Dest := wrap_next n i, DemuxKey := ElectionElect,
                Ok := True\<rparr>,
      leaderQueryRes = [], requestsToForward = [], r_disabled = False, r_internalTimer = [],
      tokenSentLast = None, r_timeoutCounter = 0\<rparr>"

text \<open>What \<open>mainLoop\<close> does before its loop.\<close>

definition ring_start :: "int \<Rightarrow> ring \<Rightarrow> ring res" where
  "ring_start now r0 =
     (let r = r0\<lparr>r_timeoutCounter := 0, r_internalTimer := r_internalTimer r0 @ [0]\<rparr>
      in if r_id r = r_n r - 1
         then bind_res (addId (Value (token r)) (r_id r)) (\<lambda>v.
                Inr (forwardToken now (r\<lparr>token := (token r)\<lparr>Value := v\<rparr>\<rparr>)))
         else Inr r)"

section \<open>The main loop\<close>

text \<open>A timer signal that no message has overtaken: the node last tried is taken for dead.\<close>

definition ring_timeout :: "int \<Rightarrow> ring \<Rightarrow> ring res" where
  "ring_timeout now r =
     bind_res
       (if leader r = nextInRing r - 1
        then bind_res (removeId (Value (token r)) (leader r)) (\<lambda>v.
               bind_res (highestId v) (\<lambda>l.
                 Inr (r\<lparr>token := (token r)\<lparr>Value := v\<rparr>, leader := l\<rparr>)))
        else Inr r)
       (\<lambda>r1.
         let r2 = forwardToken now
               (r1\<lparr>token := (token r1)\<lparr>Src := r_id r1, Dest := nextInRing r1\<rparr>\<rparr>)
         in Inr (r2\<lparr>nextInRing := wrap_next (r_n r2) (nextInRing r2)\<rparr>))"

definition ring_elect :: "int \<Rightarrow> Message \<Rightarrow> ring \<Rightarrow> ring res" where
  "ring_elect now msg r =
     (let r1 = r\<lparr>r_outgoing := r_outgoing r @
                [zeroMessage\<lparr>Src := r_id r, Dest := Src msg, DemuxKey := ElectionAck, Ok := True\<rparr>]\<rparr>
      in bind_res (addId (Value msg) (r_id r)) (\<lambda>v.
           bind_res (highestId v) (\<lambda>l.
             let r2 = r1\<lparr>token := msg\<lparr>Value := v, Src := r_id r, Dest := nextInRing r\<rparr>, leader := l\<rparr>
             in Inr ((forwardToken now r2)\<lparr>nextInRing := wrap_next (r_n r) (r_id r)\<rparr>))))"

text \<open>\<open>if r.leader > -1 { r.forwardRequests() }\<close> at the end of an iteration.\<close>

definition ring_end :: "ring \<Rightarrow> ring" where
  "ring_end r = (if leader r > -1 then forwardRequests r else r)"

definition ring_step :: "int \<Rightarrow> Message \<Rightarrow> ring \<Rightarrow> ring res" where
  "ring_step now msg r =
     (if r_disabled r \<or> DemuxKey msg = ControlRecover
      then if r_disabled r \<and> DemuxKey msg = ControlRecover
           then Inr (r\<lparr>r_disabled := False, r_timeoutCounter := 0,
                       r_internalTimer := r_internalTimer r @ [0]\<rparr>)
           else Inr r
      else if DemuxKey msg = ControlFail
      then Inr (r\<lparr>r_disabled := True, leader := -1\<rparr>)
      else bind_res
        (if DemuxKey msg = InternalTimerSignal
         then bind_res (if Id' msg = r_timeoutCounter r then ring_timeout now r else Inr r)
                (\<lambda>r1. Inr (r1\<lparr>r_internalTimer := r_internalTimer r1 @ [r_timeoutCounter r1]\<rparr>))
         else Inr (r\<lparr>r_timeoutCounter := r_timeoutCounter r + 1\<rparr>))
        (\<lambda>r1.
          case DemuxKey msg of
            ElectionElect \<Rightarrow> bind_res (ring_elect now msg r1) (\<lambda>r2. Inr (ring_end r2))
          | ElectionAck \<Rightarrow> Inr r1
          | InternalLeaderQuery \<Rightarrow>
              Inr (ring_end (r1\<lparr>leaderQueryRes := leaderQueryRes r1 @ [leader r1]\<rparr>))
          | _ \<Rightarrow> Inr (ring_end r1)))"

text \<open>\<open>ForwardToLeader\<close> and \<open>ProcessMsg\<close> only append to channels.\<close>

definition ring_ForwardToLeader :: "Message \<Rightarrow> ring \<Rightarrow> ring" where
  "ring_ForwardToLeader msg r = r\<lparr>requestsToForward := requestsToForward r @ [msg]\<rparr>"

text \<open>
  \<open>Leader\<close>: a query on the message queue, which the main loop takes at time \<open>now\<close>; the caller
  gets what is sent on \<open>leaderQueryResChan\<close> for it, and waits (\<open>None\<close>) if nothing is.
\<close>

definition ring_Leader :: "int \<Rightarrow> ring \<Rightarrow> (ring \<times> int option) res" where
  "ring_Leader now r =
     bind_res (ring_step now (zeroMessage\<lparr>DemuxKey := InternalLeaderQuery\<rparr>) r) (\<lambda>r1.
       case leaderQueryRes r1 of
         [] \<Rightarrow> Inr (r1, None)
       | l # ls \<Rightarrow> Inr (r1\<lparr>leaderQueryRes := ls\<rparr>, Some l))"

end
