(* ===== verification/Ring_Ids.thy ===== *)
theory Ring_Ids
  imports Ring
begin

text \<open>
  The election token as a list of ids: the three-digit encoding, and what \<open>addId\<close>,
  \<open>removeId\<close> and \<open>highestId\<close> compute on it.
\<close>

section \<open>One id\<close>

lemma nat_digits_length:
  "n < 10 \<Longrightarrow> length (nat_digits n) = 1"
  "10 \<le> n \<Longrightarrow> n < 100 \<Longrightarrow> length (nat_digits n) = 2"
  "100 \<le> n \<Longrightarrow> n < 1000 \<Longrightarrow> length (nat_digits n) = 3"
proof -
  have step: "10 \<le> n \<Longrightarrow> length (nat_digits n) = length (nat_digits (n div 10)) + 1" for n
    by (subst nat_digits.simps) simp
  have one: "n < 10 \<Longrightarrow> length (nat_digits n) = 1" for n
    by (subst nat_digits.simps) simp
  show "n < 10 \<Longrightarrow> length (nat_digits n) = 1" by (rule one)
  show "10 \<le> n \<Longrightarrow> n < 100 \<Longrightarrow> length (nat_digits n) = 2"
    by (simp add: step one)
  have "100 \<le> n \<Longrightarrow> n < 1000 \<Longrightarrow> 10 \<le> n div 10 \<and> n div 10 div 10 < 10" for n :: nat
    by linarith
  then show "100 \<le> n \<Longrightarrow> n < 1000 \<Longrightarrow> length (nat_digits n) = 3"
    by (simp add: step one del: div_mult2_eq)
qed

lemma digits_val_zero: "digits_val (48 # ds) = digits_val ds"
  by (simp add: digits_val_def)

definition valid_id :: "int \<Rightarrow> bool" where
  "valid_id i \<longleftrightarrow> 0 \<le> i \<and> i < 1000"

lemma idAsBytes_valid:
  assumes "valid_id i"
  obtains b where "idAsBytes i = Inr b" "length b = 3" "bytesAsId b = Inr i"
proof -
  define ds where "ds = nat_digits (nat i)"
  have ds: "ds \<noteq> []" "list_all is_digit ds" "int (digits_val ds) = i" "itoa i = ds"
    using assms by (simp_all add: ds_def nat_digits_all digits_val_nat_digits itoa_def valid_id_def)
  have z: "is_digit 48" by (simp add: is_digit_def)
  have r: "int64_result i = (i, True)"
    using assms by (simp add: int64_result_def in_int64_def valid_id_def)
  have b: "bytesAsId p = Inr i"
    if "list_all is_digit p" "p \<noteq> []" "digits_val p = digits_val ds" for p
    using that atoi_unsigned [of p] ds(3) r by (simp add: bytesAsId_def)
  have b3: "bytesAsId ds = Inr i" "bytesAsId (48 # ds) = Inr i" "bytesAsId (48 # 48 # ds) = Inr i"
    using ds(1,2) z by (auto intro!: b simp: digits_val_zero)
  have "length ds \<in> {1, 2, 3}"
    using assms nat_digits_length [of "nat i"] unfolding ds_def valid_id_def by force
  then consider "length ds = 1" | "length ds = 2" | "length ds = 3" by auto
  then show thesis
    by cases (use b3 ds(4) in \<open>auto simp: idAsBytes_def intro!: that\<close>)
qed

definition id3 :: "int \<Rightarrow> byte list" where
  "id3 i = (case idAsBytes i of Inl _ \<Rightarrow> [] | Inr b \<Rightarrow> b)"

lemma id3:
  assumes "valid_id i"
  shows "idAsBytes i = Inr (id3 i)" "length (id3 i) = 3" "bytesAsId (id3 i) = Inr i"
  by (rule idAsBytes_valid [OF assms]; simp add: id3_def)+

section \<open>Tokens\<close>

definition ids_bytes :: "int list \<Rightarrow> byte list" where
  "ids_bytes ids = concat (map id3 ids)"

lemma ids_bytes_simps [simp]:
  "ids_bytes [] = []" "ids_bytes (i # ids) = id3 i @ ids_bytes ids"
  "ids_bytes (xs @ ys) = ids_bytes xs @ ids_bytes ys"
  by (simp_all add: ids_bytes_def)

lemma length_ids_bytes: "list_all valid_id ids \<Longrightarrow> length (ids_bytes ids) = 3 * length ids"
  by (induction ids) (auto simp: id3(2))

text \<open>\<open>token_of b ids\<close>: the byte slice \<open>b\<close> is the encoding of the ids.\<close>

definition token_of :: "bytes \<Rightarrow> int list \<Rightarrow> bool" where
  "token_of b ids \<longleftrightarrow> raw b = ids_bytes ids \<and> list_all valid_id ids"

lemma token_of_nil [simp]: "token_of None []"
  by (simp add: token_of_def)

lemma addId_token:
  assumes "token_of b ids" "valid_id i"
  shows "\<exists>b'. addId b i = Inr b' \<and> token_of b' (ids @ [i])"
  using assms by (simp add: addId_def token_of_def id3)

lemma remove_scan_ids:
  "list_all valid_id ids \<Longrightarrow> remove_scan (ids_bytes ids) i = Inr (ids_bytes (remove1 i ids))"
proof (induction ids)
  case Nil
  then show ?case by (simp add: remove_scan.simps)
next
  case (Cons j ids)
  then have j: "length (id3 j) = 3" "bytesAsId (id3 j) = Inr j" by (simp_all add: id3)
  then have "id3 j \<noteq> []" by auto
  with Cons j show ?case
    by (cases "j = i"; subst remove_scan.simps) (simp_all add: subslice_def)
qed

lemma remove1_valid: "list_all valid_id ids \<Longrightarrow> list_all valid_id (remove1 i ids)"
  by (metis list_all_iff notin_set_remove1)

lemma removeId_token:
  assumes "token_of b ids"
  shows "\<exists>b'. removeId b i = Inr b' \<and> token_of b' (remove1 i ids)"
proof (cases b)
  case None
  have "ids = []"
    using assms length_ids_bytes [of ids] by (auto simp: token_of_def None)
  with None show ?thesis by (simp add: removeId_def remove_scan.simps)
next
  case (Some xs)
  with assms show ?thesis
    by (auto simp: removeId_def token_of_def remove_scan_ids remove1_valid)
qed

fun highest :: "int list \<Rightarrow> int \<Rightarrow> int" where
  "highest [] m = m"
| "highest (i # ids) m = highest ids (if i > m then i else m)"

lemma highest_Max: "highest ids m = Max (insert m (set ids))"
proof (induction ids arbitrary: m)
  case Nil
  then show ?case by simp
next
  case (Cons i ids)
  have "Max (insert (if i > m then i else m) (set ids)) = Max (insert m (insert i (set ids)))"
    by (cases "set ids = {}") (auto simp: Max_insert max_def)
  with Cons show ?case by (simp add: insert_commute)
qed

lemma max_scan_ids:
  "list_all valid_id ids \<Longrightarrow> max_scan (ids_bytes ids) m = Inr (highest ids m)"
proof (induction ids arbitrary: m)
  case Nil
  then show ?case by (simp add: max_scan.simps)
next
  case (Cons j ids)
  then have j: "length (id3 j) = 3" "bytesAsId (id3 j) = Inr j" by (simp_all add: id3)
  then have "id3 j \<noteq> []" by auto
  with Cons j show ?case
    by (subst max_scan.simps) (simp add: subslice_def)
qed

lemma highestId_token: "token_of b ids \<Longrightarrow> highestId b = Inr (Max (insert (-1) (set ids)))"
  by (simp add: highestId_def token_of_def length_ids_bytes max_scan_ids highest_Max)

end
