(* ===== verification/Ring_Safety.thy ===== *)
theory Ring_Safety
  imports Ring_Ids
begin

text \<open>
  What one iteration of the ring's main loop does to the token, and the invariants of whole
  runs: well-formed tokens never crash a node and the leader stays in range; a token that
  holds the highest id \<open>n-1\<close> never loses it.
\<close>

section \<open>Single steps on tokens\<close>

lemma forwardToken_frame [simp]:
  "r_id (forwardToken now r) = r_id r" "r_n (forwardToken now r) = r_n r"
  "leader (forwardToken now r) = leader r" "nextInRing (forwardToken now r) = nextInRing r"
  "token (forwardToken now r) = token r" "requestsToForward (forwardToken now r) = requestsToForward r"
  "r_disabled (forwardToken now r) = r_disabled r"
  "r_timeoutCounter (forwardToken now r) = r_timeoutCounter r"
  by (auto simp: forwardToken_def split: option.splits)

lemma forwardToken_outgoing:
  "r_outgoing (forwardToken now r) = r_outgoing r \<or>
   r_outgoing (forwardToken now r) = r_outgoing r @ [token r]"
  by (auto simp: forwardToken_def split: option.splits)

lemma ring_end_frame [simp]:
  "r_id (ring_end r) = r_id r" "r_n (ring_end r) = r_n r" "leader (ring_end r) = leader r"
  "nextInRing (ring_end r) = nextInRing r" "token (ring_end r) = token r"
  "r_disabled (ring_end r) = r_disabled r"
  by (simp_all add: ring_end_def forwardRequests_def)

lemma ring_timeout_spec:
  assumes "token_of (Value (token r)) ids"
  shows "\<exists>r'. ring_timeout now r = Inr r' \<and>
    (let ids' = (if leader r = nextInRing r - 1 then remove1 (leader r) ids else ids) in
     token_of (Value (token r')) ids' \<and> DemuxKey (token r') = DemuxKey (token r) \<and>
     leader r' = (if leader r = nextInRing r - 1 then Max (insert (-1) (set ids')) else leader r)) \<and>
    nextInRing r' = wrap_next (r_n r) (nextInRing r) \<and> r_id r' = r_id r \<and> r_n r' = r_n r \<and>
    requestsToForward r' = requestsToForward r \<and> r_disabled r' = r_disabled r \<and>
    (r_outgoing r' = r_outgoing r \<or> r_outgoing r' = r_outgoing r @ [token r'])"
proof (cases "leader r = nextInRing r - 1")
  case True
  obtain v where v: "removeId (Value (token r)) (leader r) = Inr v" "token_of v (remove1 (leader r) ids)"
    using removeId_token [OF assms] by blast
  let ?r1 = "r\<lparr>leader := Max (insert (-1) (set (remove1 (nextInRing r - 1) ids))),
    token := (token r)\<lparr>Value := v, Src := r_id r, Dest := nextInRing r\<rparr>\<rparr>"
  show ?thesis
    using True v highestId_token [OF v(2)] forwardToken_outgoing [of now ?r1]
    by (auto simp: ring_timeout_def Let_def)
next
  case False
  let ?r1 = "r\<lparr>token := (token r)\<lparr>Src := r_id r, Dest := nextInRing r\<rparr>\<rparr>"
  show ?thesis
    using False assms forwardToken_outgoing [of now ?r1]
    by (auto simp: ring_timeout_def Let_def)
qed

lemma ring_elect_spec:
  assumes "token_of (Value m) ids" "valid_id (r_id r)"
  shows "\<exists>r'. ring_elect now m r = Inr r' \<and> token_of (Value (token r')) (ids @ [r_id r]) \<and>
    DemuxKey (token r') = DemuxKey m \<and>
    leader r' = Max (insert (-1) (insert (r_id r) (set ids))) \<and>
    nextInRing r' = wrap_next (r_n r) (r_id r) \<and> r_id r' = r_id r \<and> r_n r' = r_n r \<and>
    requestsToForward r' = requestsToForward r \<and> r_disabled r' = r_disabled r \<and>
    (\<exists>out. r_outgoing r' = r_outgoing r @
       zeroMessage\<lparr>Src := r_id r, Dest := Src m, DemuxKey := ElectionAck, Ok := True\<rparr> # out \<and>
       (out = [] \<or> out = [token r']))"
proof -
  obtain v where v: "addId (Value m) (r_id r) = Inr v" "token_of v (ids @ [r_id r])"
    using addId_token [OF assms] by blast
  let ?ack = "zeroMessage\<lparr>Src := r_id r, Dest := Src m, DemuxKey := ElectionAck, Ok := True\<rparr>"
  let ?r1 = "r\<lparr>r_outgoing := r_outgoing r @ [?ack],
    token := m\<lparr>Value := v, Src := r_id r, Dest := nextInRing r\<rparr>,
    leader := Max (insert (-1) (insert (r_id r) (set ids)))\<rparr>"
  have "highestId v = Inr (Max (insert (-1) (insert (r_id r) (set ids))))"
    using highestId_token [OF v(2)] by (simp add: insert_commute)
  then show ?thesis
    using v forwardToken_outgoing [of now ?r1] by (auto simp: ring_elect_def Let_def)
qed

section \<open>Runs\<close>

text \<open>A run: the messages the main loop takes from its queue, with the time of each.\<close>

definition ring_run :: "(int \<times> Message) list \<Rightarrow> ring \<Rightarrow> ring res" where
  "ring_run = fold_res (\<lambda>(now, m). ring_step now m)"

definition holds :: "int \<Rightarrow> (int list \<Rightarrow> bool) \<Rightarrow> bytes \<Rightarrow> bool" where
  "holds n P v \<longleftrightarrow> (\<exists>ids. token_of v ids \<and> set ids \<subseteq> {0..<n} \<and> P ids)"

definition carries :: "int \<Rightarrow> (int list \<Rightarrow> bool) \<Rightarrow> Message \<Rightarrow> bool" where
  "carries n P m \<longleftrightarrow> (DemuxKey m = ElectionElect \<longrightarrow> holds n P (Value m))"

text \<open>
  The invariant for a property \<open>P\<close> of token ids: the node's token and every token it has
  sent satisfy \<open>P\<close>, and its leader is none or the highest id of a list that satisfies \<open>P\<close>.
\<close>

definition ring_inv :: "int \<Rightarrow> (int list \<Rightarrow> bool) \<Rightarrow> ring \<Rightarrow> bool" where
  "ring_inv n P r \<longleftrightarrow>
     r_n r = n \<and> n \<le> 1000 \<and> 0 \<le> r_id r \<and> r_id r < n \<and> 0 \<le> nextInRing r \<and> nextInRing r < n \<and>
     holds n P (Value (token r)) \<and>
     (leader r = -1 \<or> (\<exists>ids. set ids \<subseteq> {0..<n} \<and> P ids \<and> leader r = Max (insert (-1) (set ids)))) \<and>
     (\<forall>m \<in> set (r_outgoing r). carries n P m) \<and>
     (\<forall>m \<in> set (requestsToForward r). DemuxKey m \<noteq> ElectionElect)"

text \<open>What \<open>P\<close> must allow: adding an id, and dropping an id other than \<open>n-1\<close>.\<close>

definition ring_stable :: "int \<Rightarrow> (int list \<Rightarrow> bool) \<Rightarrow> bool" where
  "ring_stable n P \<longleftrightarrow>
     (\<forall>ids i. P ids \<longrightarrow> P (ids @ [i])) \<and> (\<forall>ids i. P ids \<longrightarrow> i \<noteq> n - 1 \<longrightarrow> P (remove1 i ids))"

lemma wrap_next_range: "0 \<le> i \<Longrightarrow> i < n \<Longrightarrow> 0 \<le> wrap_next n i \<and> wrap_next n i < n"
  by (simp add: wrap_next_def)

lemma ring_end_inv:
  assumes "ring_inv n P r"
  shows "ring_inv n P (ring_end r)"
  using assms
  by (auto simp: ring_inv_def ring_end_def forwardRequests_def carries_def)

lemma ring_timeout_inv:
  assumes "ring_inv n P r" "ring_stable n P"
  shows "\<exists>r'. ring_timeout now r = Inr r' \<and> ring_inv n P r'"
proof -
  obtain ids where ids: "token_of (Value (token r)) ids" "set ids \<subseteq> {0..<n}" "P ids"
    using assms(1) by (auto simp: ring_inv_def holds_def)
  obtain r' ids' where r': "ring_timeout now r = Inr r'"
    and ids': "ids' = (if leader r = nextInRing r - 1 then remove1 (leader r) ids else ids)"
    and t: "token_of (Value (token r')) ids'"
    and l: "leader r' = (if leader r = nextInRing r - 1 then Max (insert (-1) (set ids')) else leader r)"
    and f: "nextInRing r' = wrap_next (r_n r) (nextInRing r)" "r_id r' = r_id r" "r_n r' = r_n r"
      "requestsToForward r' = requestsToForward r"
      "r_outgoing r' = r_outgoing r \<or> r_outgoing r' = r_outgoing r @ [token r']"
    using ring_timeout_spec [OF ids(1), of now] unfolding Let_def by blast
  have "set ids' \<subseteq> {0..<n}" using ids(2) set_remove1_subset [of "leader r" ids] by (auto simp: ids')
  moreover have "P ids'"
    using ids(3) assms by (auto simp: ids' ring_stable_def ring_inv_def)
  ultimately have "holds n P (Value (token r'))" and
    "leader r' = -1 \<or> (\<exists>ids. set ids \<subseteq> {0..<n} \<and> P ids \<and> leader r' = Max (insert (-1) (set ids)))"
    using t l assms(1) by (auto simp: holds_def ring_inv_def)
  moreover from this(1) have "\<forall>m \<in> set (r_outgoing r'). carries n P m"
    using f(5) assms(1) by (auto simp: ring_inv_def carries_def)
  ultimately show ?thesis
    using r' f assms(1) wrap_next_range [of "nextInRing r" n] by (auto simp: ring_inv_def)
qed

lemma ring_elect_inv:
  assumes "ring_inv n P r" "ring_stable n P" "holds n P (Value m)"
  shows "\<exists>r'. ring_elect now m r = Inr r' \<and> ring_inv n P r'"
proof -
  obtain ids where ids: "token_of (Value m) ids" "set ids \<subseteq> {0..<n}" "P ids"
    using assms(3) by (auto simp: holds_def)
  have v: "valid_id (r_id r)" using assms(1) by (auto simp: ring_inv_def valid_id_def)
  obtain r' out where r': "ring_elect now m r = Inr r'"
    and t: "token_of (Value (token r')) (ids @ [r_id r])"
    and l: "leader r' = Max (insert (-1) (set (ids @ [r_id r])))"
    and f: "nextInRing r' = wrap_next (r_n r) (r_id r)" "r_id r' = r_id r" "r_n r' = r_n r"
      "requestsToForward r' = requestsToForward r"
      "r_outgoing r' = r_outgoing r @
         zeroMessage\<lparr>Src := r_id r, Dest := Src m, DemuxKey := ElectionAck, Ok := True\<rparr> # out"
      "out = [] \<or> out = [token r']"
    using ring_elect_spec [OF ids(1) v, of now] by (auto simp: insert_commute)
  have i: "set (ids @ [r_id r]) \<subseteq> {0..<n}" "P (ids @ [r_id r])"
    using ids assms(1,2) by (auto simp: ring_inv_def ring_stable_def)
  then have h: "holds n P (Value (token r'))" using t unfolding holds_def by blast
  then have "\<forall>m \<in> set (r_outgoing r'). carries n P m"
    using f(5,6) assms(1) by (auto simp: ring_inv_def carries_def)
  moreover have "\<exists>ids. set ids \<subseteq> {0..<n} \<and> P ids \<and> leader r' = Max (insert (-1) (set ids))"
    using i l by blast
  ultimately show ?thesis
    using h r' f(1-4) assms(1) wrap_next_range [of "r_id r" n] by (auto simp: ring_inv_def)
qed

lemma ring_step_inv:
  assumes "ring_inv n P r" "ring_stable n P" "carries n P m"
  shows "\<exists>r'. ring_step now m r = Inr r' \<and> ring_inv n P r'"
proof (cases "r_disabled r \<or> DemuxKey m \<in> {ControlRecover, ControlFail}")
  case True
  with assms(1) show ?thesis by (auto simp: ring_step_def ring_inv_def)
next
  case False
  have upd: "ring_inv n P (s\<lparr>r_internalTimer := x\<rparr>)" "ring_inv n P (s\<lparr>r_timeoutCounter := c\<rparr>)"
    "ring_inv n P (s\<lparr>leaderQueryRes := y\<rparr>)"
    if "ring_inv n P s" for s x y c
    using that by (simp_all add: ring_inv_def)
  show ?thesis
  proof (cases "DemuxKey m = InternalTimerSignal")
    case True
    obtain r1 where "(if Id' m = r_timeoutCounter r then ring_timeout now r else Inr r) = Inr r1"
      and "ring_inv n P r1"
      using ring_timeout_inv [OF assms(1,2)] assms(1) by (cases "Id' m = r_timeoutCounter r") auto
    with False True show ?thesis
      by (auto simp: ring_step_def intro!: ring_end_inv upd)
  next
    case nt: False
    let ?r1 = "r\<lparr>r_timeoutCounter := r_timeoutCounter r + 1\<rparr>"
    have r1: "ring_inv n P ?r1" using assms(1) by (rule upd)
    show ?thesis
    proof (cases "DemuxKey m = ElectionElect")
      case True
      then obtain r2 where "ring_elect now m ?r1 = Inr r2" "ring_inv n P r2"
        using ring_elect_inv [OF r1 assms(2), of m now] assms(3) by (auto simp: carries_def)
      with False nt True show ?thesis by (auto simp: ring_step_def intro!: ring_end_inv)
    next
      case ne: False
      have "\<exists>r'. ring_step now m r = Inr r' \<and> r' \<in> {?r1, ring_end ?r1,
          ring_end (?r1\<lparr>leaderQueryRes := leaderQueryRes r @ [leader r]\<rparr>)}"
        using False nt ne by (cases "DemuxKey m") (simp_all add: ring_step_def)
      with r1 upd(3) [OF r1] ring_end_inv show ?thesis by blast
    qed
  qed
qed

lemma ring_run_inv:
  assumes "ring_inv n P r" "ring_stable n P" "\<forall>(now, m) \<in> set ms. carries n P m"
  shows "\<exists>r'. ring_run ms r = Inr r' \<and> ring_inv n P r'"
  unfolding ring_run_def
  by (rule fold_res_total [where I = "ring_inv n P"])
    (use assms(1) ring_step_inv [OF _ assms(2)] assms(3) in force)+

section \<open>Two instances\<close>

definition any_ids :: "int list \<Rightarrow> bool" where
  "any_ids ids \<longleftrightarrow> True"

lemma any_ids_stable: "ring_stable n any_ids"
  by (simp add: ring_stable_def any_ids_def)

lemma ring_inv_leader_range:
  assumes "ring_inv n P r"
  shows "-1 \<le> leader r" "leader r < n"
proof -
  have "-1 \<le> leader r \<and> leader r < n"
  proof (cases "leader r = -1")
    case True
    with assms show ?thesis by (auto simp: ring_inv_def)
  next
    case False
    with assms obtain ids where i: "set ids \<subseteq> {0..<n}" "leader r = Max (insert (-1) (set ids))"
      by (auto simp: ring_inv_def)
    have "leader r \<in> insert (-1) (set ids)" unfolding i(2) by (rule Max_in) auto
    with i(1) False show ?thesis by auto
  qed
  then show "-1 \<le> leader r" "leader r < n" by auto
qed

lemma newRing_inv:
  assumes "0 \<le> i" "i < n" "n \<le> 1000"
  shows "ring_inv n any_ids (newRing i n)"
  using assms wrap_next_range [of i n]
  by (auto simp: ring_inv_def newRing_def holds_def any_ids_def intro: exI [of _ "[]"])

definition has_last :: "int \<Rightarrow> int list \<Rightarrow> bool" where
  "has_last n ids \<longleftrightarrow> n - 1 \<in> set ids"

lemma has_last_stable: "ring_stable n (has_last n)"
  by (auto simp: ring_stable_def has_last_def)

lemma has_last_leader:
  assumes "ring_inv n (has_last n) r"
  shows "leader r = -1 \<or> leader r = n - 1"
proof (cases "leader r = -1")
  case False
  with assms obtain ids where i: "set ids \<subseteq> {0..<n}" "n - 1 \<in> set ids"
    "leader r = Max (insert (-1) (set ids))"
    by (auto simp: ring_inv_def has_last_def)
  have "Max (insert (-1) (set ids)) = n - 1"
    by (rule Max_eqI) (use i(1,2) in auto)
  with i(3) show ?thesis by simp
qed simp

end
