(* ===== verification/Bully.thy ===== *)
theory Bully
  imports Packet
begin

text \<open>
  \<open>src/dbnode/elector/bully.go\<close> and \<open>dummy.go\<close>: the bully election and the do-nothing
  elector. As for the ring, a state is the Go struct with its channels as logs, and one
  \<open>bully_step\<close> is one iteration of \<open>mainLoop\<close>.
\<close>

record bully =
  b_id :: int
  b_n :: int
  b_outgoing :: "Message list"
  b_leader :: int
  maybeLeader :: bool
  b_leaderQueryRes :: "int list"
  b_requestsToForward :: "Message list"
  b_disabled :: bool
  b_internalTimer :: "int list"
  b_timeoutCounter :: int

definition newBully :: "int \<Rightarrow> int \<Rightarrow> bully" where
  "newBully i n =
     \<lparr>b_id = i, b_n = n, b_outgoing = [], b_leader = n - 1, maybeLeader = False,
      b_leaderQueryRes = [], b_requestsToForward = [], b_disabled = False,
      b_internalTimer = [0], b_timeoutCounter = 0\<rparr>"

text \<open>A message without key, value or transaction from this node.\<close>

definition election_msg :: "int \<Rightarrow> int \<Rightarrow> Messagetype \<Rightarrow> Message" where
  "election_msg src dest k = zeroMessage\<lparr>Src := src, Dest := dest, DemuxKey := k, Ok := True\<rparr>"

definition broadcastHeartbeat :: "bully \<Rightarrow> bully" where
  "broadcastHeartbeat b =
     b\<lparr>b_outgoing := b_outgoing b @
        map (\<lambda>i. election_msg (b_id b) i ElectionCoordinator)
          (filter (\<lambda>i. i \<noteq> b_id b) [0..b_n b - 1])\<rparr>"

definition becomeCoordinator :: "bully \<Rightarrow> bully" where
  "becomeCoordinator b0 =
     (let b = b0\<lparr>b_leader := b_id b0\<rparr>
      in b\<lparr>b_outgoing := b_outgoing b @
            map (\<lambda>i. election_msg (b_id b) i ElectionCoordinator)
              (filter (\<lambda>i. i \<noteq> b_id b) [0..b_n b - 1])\<rparr>)"

definition startElection :: "bully \<Rightarrow> bully" where
  "startElection b0 =
     (let b = b0\<lparr>maybeLeader := True, b_leader := -1,
            b_outgoing := b_outgoing b0 @
              map (\<lambda>i. election_msg (b_id b0) i ElectionElect) [b_id b0 + 1..b_n b0 - 1]\<rparr>
      in if b_id b = b_n b - 1 then becomeCoordinator b else b)"

definition bully_forwardRequests :: "bully \<Rightarrow> bully" where
  "bully_forwardRequests b =
     b\<lparr>b_outgoing := b_outgoing b @ map (\<lambda>m. m\<lparr>Dest := b_leader b\<rparr>) (b_requestsToForward b),
       b_requestsToForward := []\<rparr>"

definition bully_dispatch :: "Message \<Rightarrow> bully \<Rightarrow> bully" where
  "bully_dispatch msg b =
     (case DemuxKey msg of
        ElectionElect \<Rightarrow>
          startElection (b\<lparr>b_outgoing := b_outgoing b @ [election_msg (b_id b) (Src msg) ElectionAck]\<rparr>)
      | ElectionAck \<Rightarrow> b\<lparr>maybeLeader := False\<rparr>
      | ElectionCoordinator \<Rightarrow>
          if b_leader b = Src msg \<or> b_leader b = -1
          then bully_forwardRequests (b\<lparr>b_leader := Src msg\<rparr>)
          else startElection b
      | InternalHeartbeat \<Rightarrow> if b_leader b = b_id b then broadcastHeartbeat b else b
      | InternalLeaderQuery \<Rightarrow> b\<lparr>b_leaderQueryRes := b_leaderQueryRes b @ [b_leader b]\<rparr>
      | _ \<Rightarrow> b)"

text \<open>The timer handling in front of the switch.\<close>

definition bully_tick :: "Message \<Rightarrow> bully \<Rightarrow> bully" where
  "bully_tick msg b =
     (if DemuxKey msg = InternalTimerSignal
      then let b1 = (if Id' msg = b_timeoutCounter b
                     then if b_leader b = -1 \<and> maybeLeader b then becomeCoordinator b
                          else startElection b
                     else b)
           in b1\<lparr>b_internalTimer := b_internalTimer b1 @ [b_timeoutCounter b1]\<rparr>
      else b\<lparr>b_timeoutCounter := b_timeoutCounter b + 1\<rparr>)"

definition bully_step :: "Message \<Rightarrow> bully \<Rightarrow> bully" where
  "bully_step msg b =
     (if b_disabled b \<or> DemuxKey msg = ControlRecover
      then if b_disabled b \<and> DemuxKey msg = ControlRecover
           then startElection (b\<lparr>b_disabled := False, b_timeoutCounter := 0,
                  b_internalTimer := b_internalTimer b @ [0]\<rparr>)
           else b
      else if DemuxKey msg = ControlFail then b\<lparr>b_disabled := True\<rparr>
      else bully_dispatch msg (bully_tick msg b))"

text \<open>The message of \<open>startHeartbeat\<close>, and what the interface sends to the main loop.\<close>

definition heartbeat_msg :: Message where
  "heartbeat_msg = zeroMessage\<lparr>DemuxKey := InternalHeartbeat\<rparr>"

definition bully_ForwardToLeader :: "Message \<Rightarrow> bully \<Rightarrow> bully" where
  "bully_ForwardToLeader msg b = b\<lparr>b_requestsToForward := b_requestsToForward b @ [msg]\<rparr>"

text \<open>As for the ring: \<open>None\<close> when the caller of \<open>Leader\<close> waits.\<close>

definition bully_Leader :: "bully \<Rightarrow> bully \<times> int option" where
  "bully_Leader b =
     (let b1 = bully_step (zeroMessage\<lparr>DemuxKey := InternalLeaderQuery\<rparr>) b
      in case b_leaderQueryRes b1 of
           [] \<Rightarrow> (b1, None)
         | l # ls \<Rightarrow> (b1\<lparr>b_leaderQueryRes := ls\<rparr>, Some l))"

section \<open>The dummy elector\<close>

record Dummy =
  d_id :: int
  d_outgoing :: "Message list"

definition newDummy :: "int \<Rightarrow> Dummy" where
  "newDummy i = \<lparr>d_id = i, d_outgoing = []\<rparr>"

definition Dummy_Leader :: "Dummy \<Rightarrow> int" where
  "Dummy_Leader d = d_id d"

definition Dummy_ForwardToLeader :: "Dummy \<Rightarrow> Message \<Rightarrow> Dummy" where
  "Dummy_ForwardToLeader d msg = d\<lparr>d_outgoing := d_outgoing d @ [msg\<lparr>Dest := d_id d\<rparr>]\<rparr>"

definition Dummy_ProcessMsg :: "Dummy \<Rightarrow> Message \<Rightarrow> Dummy" where
  "Dummy_ProcessMsg d msg = d"

section \<open>The bully's invariant\<close>

definition bully_inv :: "int \<Rightarrow> bully \<Rightarrow> bool" where
  "bully_inv n b \<longleftrightarrow> b_n b = n \<and> 0 \<le> b_id b \<and> b_id b < n \<and> -1 \<le> b_leader b \<and> b_leader b < n"

definition from_node :: "int \<Rightarrow> Message \<Rightarrow> bool" where
  "from_node n m \<longleftrightarrow> (DemuxKey m = ElectionCoordinator \<longrightarrow> 0 \<le> Src m \<and> Src m < n)"

lemma startElection_leader:
  "b_leader (startElection b) = (if b_id b = b_n b - 1 then b_id b else -1)"
  by (simp add: startElection_def becomeCoordinator_def Let_def)

lemma startElection_frame [simp]:
  "b_id (startElection b) = b_id b" "b_n (startElection b) = b_n b"
  "b_disabled (startElection b) = b_disabled b"
  by (simp_all add: startElection_def becomeCoordinator_def Let_def)

lemma becomeCoordinator_frame [simp]:
  "b_id (becomeCoordinator b) = b_id b" "b_n (becomeCoordinator b) = b_n b"
  "b_leader (becomeCoordinator b) = b_id b" "b_disabled (becomeCoordinator b) = b_disabled b"
  by (simp_all add: becomeCoordinator_def Let_def)

lemma startElection_inv: "bully_inv n b \<Longrightarrow> bully_inv n (startElection b)"
  by (simp add: bully_inv_def startElection_leader)

lemma bully_dispatch_inv:
  "bully_inv n b \<Longrightarrow> from_node n m \<Longrightarrow> bully_inv n (bully_dispatch m b)"
  by (cases "DemuxKey m")
    (auto simp: bully_dispatch_def bully_inv_def from_node_def startElection_leader
      bully_forwardRequests_def broadcastHeartbeat_def)

lemma bully_tick_inv: "bully_inv n b \<Longrightarrow> bully_inv n (bully_tick m b)"
  by (auto simp: bully_tick_def bully_inv_def Let_def startElection_leader)

lemma bully_step_inv:
  assumes "bully_inv n b" "from_node n m"
  shows "bully_inv n (bully_step m b)"
proof (cases "b_disabled b \<or> DemuxKey m \<in> {ControlRecover, ControlFail}")
  case True
  with assms(1) show ?thesis by (auto simp: bully_step_def bully_inv_def startElection_leader)
next
  case False
  then have "bully_step m b = bully_dispatch m (bully_tick m b)" by (simp add: bully_step_def)
  with assms show ?thesis by (simp add: bully_dispatch_inv bully_tick_inv)
qed

end
