(* ===== verification/Elector.thy ===== *)
theory Elector
  imports Ring_Safety Bully
begin

text \<open>
  \<open>src/dbnode/elector/elector.go\<close>: the interface a node uses for leader election, as a
  contract: whatever well-formed messages it is sent, an elector does not crash and its
  leader is -1 (an election is running) or a node of the system. The ring, the bully and
  the dummy elector provide it; \<open>New\<close> returns the ring.
\<close>

definition New_Elector :: "int \<Rightarrow> int \<Rightarrow> ring" where
  "New_Elector i n = newRing i n"

locale elector =
  fixes n :: int
    and step :: "'m \<Rightarrow> 'e \<Rightarrow> 'e res"
    and lead :: "'e \<Rightarrow> int"
    and inv :: "'e \<Rightarrow> bool"
    and wellformed :: "'m \<Rightarrow> bool"
  assumes step_inv: "inv e \<Longrightarrow> wellformed m \<Longrightarrow> \<exists>e'. step m e = Inr e' \<and> inv e'"
    and lead_range: "inv e \<Longrightarrow> -1 \<le> lead e \<and> lead e < n"
begin

lemma run_leader:
  assumes "inv e" "\<forall>m \<in> set ms. wellformed m"
  shows "\<exists>e'. fold_res step ms e = Inr e' \<and> -1 \<le> lead e' \<and> lead e' < n"
proof -
  have "\<exists>e'. fold_res step ms e = Inr e' \<and> inv e'"
    by (rule fold_res_total [where I = inv]) (use assms step_inv in auto)
  then show ?thesis using lead_range by auto
qed

end

interpretation ring_el: elector n "\<lambda>(now, m). ring_step now m" leader "ring_inv n any_ids"
  "\<lambda>(now, m). carries n any_ids m" for n
  by unfold_locales
    (auto intro!: ring_step_inv any_ids_stable dest: ring_inv_leader_range)

interpretation bully_el: elector n "\<lambda>m b. Inr (bully_step m b)" b_leader "bully_inv n" "from_node n" for n
  by unfold_locales (auto intro: bully_step_inv, auto simp: bully_inv_def)

interpretation dummy_el: elector n "\<lambda>m d. Inr (Dummy_ProcessMsg d m)" Dummy_Leader
  "\<lambda>d. 0 \<le> d_id d \<and> d_id d < n" "\<lambda>_. True" for n
  by unfold_locales (auto simp: Dummy_ProcessMsg_def Dummy_Leader_def)

end
