(* ===== verification/Props_Network.thy ===== *)
theory Props_Network
  imports Elector Repeater Propagater
begin

text \<open>
  The properties of leader election, of the resending of requests and of the propagation of
  committed writes.
\<close>

section \<open>Leader election\<close>

text \<open>The ring election never crashes a node, and its leader is always -1 or a node of
  the system: from the initial state, over every run of its main loop in which the election
  messages carry well-formed tokens, for up to a thousand nodes.\<close>

theorem ring_leader_in_range:
  assumes "0 \<le> i" "i < n" "n \<le> 1000"
    and "\<forall>(now, m) \<in> set ms. carries n any_ids m"
  shows "\<exists>r. ring_run ms (New_Elector i n) = Inr r \<and> -1 \<le> leader r \<and> leader r < n"
proof -
  have "ring_inv n any_ids (New_Elector i n)"
    using newRing_inv [OF assms(1-3)] by (simp add: New_Elector_def)
  from ring_el.run_leader [OF this] assms(4) show ?thesis by (simp add: ring_run_def)
qed

definition ex_token :: "byte list \<Rightarrow> Message" where
  "ex_token b = zeroMessage\<lparr>Id' := -1, Src := 2, Dest := 0, DemuxKey := ElectionElect,
     Value := Some b, Ok := True\<rparr>"

lemma id3_simps: "id3 2 = [48, 48, 50]" "id3 0 = [48, 48, 48]" "id3 1 = [48, 48, 49]"
  by (simp_all add: id3_def idAsBytes_def itoa_def nat_digits.simps)

lemma ex_token_of: "token_of (Some [48, 48, 50]) [2]"
  by (simp add: token_of_def id3_simps valid_id_def)

theorem ring_leader_in_range_ex:
  "\<exists>r. ring_run [(100, ex_token [48, 48, 50])] (New_Elector 0 3) = Inr r \<and> leader r < 3"
proof -
  have "holds 3 any_ids (Some [48, 48, 50])"
    unfolding holds_def using ex_token_of by (intro exI [of _ "[2]"]) (simp add: any_ids_def)
  then have "carries 3 any_ids (ex_token [48, 48, 50])" by (simp add: carries_def ex_token_def)
  with ring_leader_in_range [of 0 3 "[(100, ex_token [48, 48, 50])]"] show ?thesis by auto
qed

text \<open>C24: the highest node is never voted out. Once the tokens in circulation hold the id
  \<open>n-1\<close>, every node's leader is -1 or \<open>n-1\<close> for ever after, whatever times out: the only
  code that removes an id compares the leader with \<open>nextInRing - 1\<close>, which wraps to -1 where
  the successor of node \<open>n-1\<close> would be.\<close>

theorem highest_node_never_removed:
  assumes "ring_inv n (has_last n) r" "\<forall>(now, m) \<in> set ms. carries n (has_last n) m"
  shows "\<exists>r'. ring_run ms r = Inr r' \<and> (leader r' = -1 \<or> leader r' = n - 1)"
  using ring_run_inv [OF assms(1) has_last_stable assms(2)] has_last_leader by blast

definition ex_ring :: ring where
  "ex_ring = (newRing 1 3)\<lparr>leader := 2, token := ex_token [48, 48, 50]\<rparr>"

theorem highest_node_never_removed_ex:
  "\<exists>r. ring_run (replicate 4 (100, zeroMessage\<lparr>DemuxKey := InternalTimerSignal\<rparr>)) ex_ring = Inr r \<and>
     (leader r = -1 \<or> leader r = 2)"
proof -
  have h: "holds 3 (has_last 3) (Some [48, 48, 50])"
    unfolding holds_def using ex_token_of by (intro exI [of _ "[2]"]) (simp add: has_last_def)
  have inv: "ring_inv 3 (has_last 3) ex_ring"
    using h by (auto simp: ring_inv_def ex_ring_def newRing_def wrap_next_def ex_token_def has_last_def
        intro: exI [of _ "[2]"])
  from highest_node_never_removed [OF inv,
      of "replicate 4 (100, zeroMessage\<lparr>DemuxKey := InternalTimerSignal\<rparr>)"]
  show ?thesis by (simp add: carries_def)
qed

text \<open>The election token's operations compute on its list of ids: adding appends,
  removing deletes the first occurrence, and the highest id is the maximum, -1 for none.\<close>

theorem token_operations:
  assumes "token_of b ids" "valid_id i"
  shows "(\<exists>b'. addId b i = Inr b' \<and> token_of b' (ids @ [i])) \<and>
    (\<exists>b'. removeId b i = Inr b' \<and> token_of b' (remove1 i ids)) \<and>
    highestId b = Inr (Max (insert (-1) (set ids)))"
  using addId_token [OF assms] removeId_token [OF assms(1)] highestId_token [OF assms(1)] by blast

theorem token_operations_ex:
  "(\<exists>b. addId (Some [48, 48, 50]) 1 = Inr b \<and> token_of b [2, 1]) \<and>
   (\<exists>b. removeId (Some [48, 48, 50]) 1 = Inr b) \<and> highestId (Some [48, 48, 50]) = Inr 2"
  using token_operations [OF ex_token_of, of 1] by (auto simp: valid_id_def)

text \<open>The bully election keeps its leader -1 or a node of the system, over every run of
  its main loop in which coordinator messages come from nodes of the system.\<close>

theorem bully_leader_in_range:
  assumes "0 \<le> i" "i < n" "\<forall>m \<in> set ms. from_node n m"
  shows "-1 \<le> b_leader (fold bully_step ms (newBully i n)) \<and>
    b_leader (fold bully_step ms (newBully i n)) < n"
proof -
  have "bully_inv n b \<Longrightarrow> bully_inv n (fold bully_step ms b)" for b
    using assms(3) by (induction ms arbitrary: b) (auto simp: bully_step_inv)
  moreover have "bully_inv n (newBully i n)"
    using assms(1,2) by (simp add: bully_inv_def newBully_def)
  ultimately have "bully_inv n (fold bully_step ms (newBully i n))" by blast
  then show ?thesis by (simp add: bully_inv_def)
qed

theorem bully_leader_in_range_ex:
  "b_leader (fold bully_step [election_msg 1 0 ElectionCoordinator] (newBully 0 3)) < 3"
  using bully_leader_in_range [of 0 3 "[election_msg 1 0 ElectionCoordinator]"]
  by (simp add: from_node_def election_msg_def)

section \<open>Resending\<close>

text \<open>C30: a request with limited retries is put on the network at most \<open>numRetries\<close> times,
  and its goroutine has returned once it has been scheduled more often than that, however
  acknowledgements, failures and recoveries interleave with it.\<close>

theorem limited_resends_bounded:
  assumes "\<not> t_unlimited t" "t_i t = 0" "0 \<le> k" "\<forall>r \<in> set rs. numRetries r = k"
  shows "int (length (fst (send_run rs t))) \<le> k \<and>
    (k < int (length rs) \<longrightarrow> snd (send_run rs t) = None)"
proof -
  have "rs \<noteq> []" if "k < int (length rs)" using that assms(3) by auto
  with send_run_bound [OF assms(1,4)] assms(2,3) show ?thesis by auto
qed

definition ex_task :: sendtask where
  "ex_task = \<lparr>t_msg = zeroMessage\<lparr>Dest := 1, DemuxKey := NodeLockRequest\<rparr>,
     t_demuxKey = NodeLockResponse, t_unlimited = False, t_i = 0\<rparr>"

theorem limited_resends_bounded_ex:
  "snd (send_run (replicate 4 (new_Repeater 3 3)) ex_task) = None"
  using limited_resends_bounded [of ex_task 3 "replicate 4 (new_Repeater 3 3)"]
  by (simp add: ex_task_def new_Repeater_def)

text \<open>C29: until its acknowledgement arrives, a request with unlimited retries is sent in every
  round in which the node is up; the acknowledgement, by node, transaction and type, ends
  exactly that request: the next round of its goroutine sends nothing and returns, and no
  other request is affected.\<close>

theorem acknowledgement_ends_resending:
  assumes "t_unlimited t" "\<forall>r \<in> set rs. t_i t < numRetries r"
    and "\<forall>r \<in> set rs. rdisabled r \<or> unacked r (Dest (t_msg t)) (Id' (t_msg t)) (t_demuxKey t)"
    and "Src m = Dest (t_msg t)" "Id' m = Id' (t_msg t)" "DemuxKey m = t_demuxKey t" "\<not> rdisabled r"
  shows "send_run rs t = (replicate (length (filter (\<lambda>r. \<not> rdisabled r) rs)) (t_msg t), Some t) \<and>
    send_iter (Repeater_Ack r m) t = ([], None) \<and>
    (\<forall>n i k. (n, i, k) \<noteq> (Src m, Id' m, DemuxKey m) \<longrightarrow>
      unacked (Repeater_Ack r m) n i k = unacked r n i k)"
proof -
  have "\<not> unacked (Repeater_Ack r m) (Dest (t_msg t)) (Id' (t_msg t)) (t_demuxKey t)"
    using assms(4-6) by (simp add: unacked_Ack)
  then have "send_iter (Repeater_Ack r m) t = ([], None)"
    using assms(7) by (intro send_iter_acked) simp_all
  with send_run_unlimited [OF assms(1-3)] show ?thesis by (auto simp: unacked_Ack)
qed

definition ex_repeater :: Repeater where
  "ex_repeater = (new_Repeater 3 3)\<lparr>unackedReqs := (\<lambda>i. Some (\<lambda>t. Some (\<lambda>k. k = NodeLockResponse)))\<rparr>"

theorem acknowledgement_ends_resending_ex:
  "fst (send_run [ex_repeater, ex_repeater] (ex_task\<lparr>t_unlimited := True\<rparr>)) =
     [t_msg ex_task, t_msg ex_task] \<and>
   send_iter (Repeater_Ack ex_repeater (zeroMessage\<lparr>Src := 1, DemuxKey := NodeLockResponse\<rparr>))
     (ex_task\<lparr>t_unlimited := True\<rparr>) = ([], None)"
  using acknowledgement_ends_resending [of "ex_task\<lparr>t_unlimited := True\<rparr>" "[ex_repeater, ex_repeater]"
      "zeroMessage\<lparr>Src := 1, DemuxKey := NodeLockResponse\<rparr>" ex_repeater]
  by (simp add: ex_task_def ex_repeater_def new_Repeater_def unacked_def)

section \<open>Propagation\<close>

text \<open>A round of the propagater sends each unfinished transaction to exactly the nodes of
  the system not known to have it, and the number of confirmed nodes is always the size of
  that set: an answer counts once per node, and the transaction is dropped when a critical
  number have it.\<close>

theorem propagation_round:
  assumes "prop_ok p" "valid_order ord"
  shows "prop_ok (snd (streamWrites ord p)) \<and>
    (m \<in> set (fst (streamWrites ord p)) \<longleftrightarrow>
      (\<exists>i t node. (i, t) \<in> set (transactions p) \<and> int (card (nodes t)) < criticalSize p \<and>
        0 \<le> node \<and> node < p_n p \<and> node \<notin> nodes t \<and>
        m = zeroMessage\<lparr>Id' := i, Src := p_id p, Dest := node, DemuxKey := NodeBackgroundWriteRequest,
              Key := t_key t, Value := t_value t, Timestamp := t_timestamp t, Ok := True\<rparr>))"
proof -
  have "\<forall>(i, t) \<in> set (transactions p). numConfirmedNodes t = int (card (nodes t))"
    using assms(1) by (auto simp: prop_ok_def txn_ok_def)
  then show ?thesis
    unfolding streamWrites_sends [OF assms(2)] write_requests_dest
    using prop_ok_stream [OF assms(1)] by fastforce
qed

theorem propagation_round_ex:
  "prop_ok (snd (streamWrites in_order
     (propagateTransaction (newPropagater 0 3 2) 5 [0, 1] (Some [1]) (Some [7]) 1)))"
proof -
  have "prop_ok (propagateTransaction (newPropagater 0 3 2) 5 [0, 1] (Some [1]) (Some [7]) 1)"
    by (rule prop_ok_propagate) simp_all
  from propagation_round [OF this valid_in_order] show ?thesis by blast
qed

text \<open>An answer to a background write is counted once per node; the transaction is
  dropped as soon as the nodes that have it are critical in number, and so with those that
  remain every read quorum would meet it.\<close>

theorem propagation_answers_counted:
  assumes "prop_ok p" "map_of (transactions p) (Id' m) = Some t" "Ok m"
    and "DemuxKey m = NodeBackgroundWriteResponse" "response p m = Inr p'"
  shows "prop_ok p' \<and> map_of (transactions p') (Id' m) =
    (if Src m \<in> nodes t then Some t
     else if int (card (insert (Src m) (nodes t))) \<ge> criticalSize p then None
     else Some (t\<lparr>nodes := insert (Src m) (nodes t), numConfirmedNodes := numConfirmedNodes t + 1\<rparr>))"
  using response_ok_counts [OF assms(2) prop_ok_txn [OF assms(1,2)] assms(3-5)]
    prop_ok_response [OF assms(1,5)] by blast

theorem propagation_answers_counted_ex:
  "\<exists>p. response (propagateTransaction (newPropagater 0 3 1) 5 [0, 1] (Some [1]) (Some [7]) 1)
     (zeroMessage\<lparr>Id' := 5, Src := 2, DemuxKey := NodeBackgroundWriteResponse, Ok := True\<rparr>) = Inr p \<and>
     map_of (transactions p) 5 = None"
proof -
  let ?p = "propagateTransaction (newPropagater 0 3 1) 5 [0, 1] (Some [1]) (Some [7]) 1"
  let ?m = "zeroMessage\<lparr>Id' := 5, Src := 2, DemuxKey := NodeBackgroundWriteResponse, Ok := True\<rparr>"
  have ok: "prop_ok ?p" by (rule prop_ok_propagate) simp_all
  have t: "map_of (transactions ?p) (Id' ?m) = Some \<lparr>t_key = Some [1], t_value = Some [7],
      t_timestamp = 1, numConfirmedNodes = 2, nodes = {0, 1}\<rparr>"
    by (simp add: propagateTransaction_def newPropagater_def)
  obtain p where r: "response ?p ?m = Inr p"
    by (simp add: response_def propagateTransaction_def newPropagater_def Let_def)
  from propagation_answers_counted [OF ok t _ _ r] r show ?thesis
    by (auto simp: propagateTransaction_def newPropagater_def)
qed

text \<open>C28: two commits in quick succession can block a node for ever. The main loop signals
  the streaming goroutine while it holds the mutex that goroutine needs before it listens
  again: after two calls of \<open>propagateTransaction\<close> and a single round a state is reachable
  in which neither goroutine can ever take a step.\<close>

theorem propagation_deadlock:
  "\<exists>c. conc_reach p c \<and> calls c = 2 \<and> rounds c = 1 \<and> (\<forall>d. \<not> conc_step c d)"
  using two_calls_deadlock [of p] deadlocked_stuck by blast

text \<open>In every reachable state of the two goroutines the mutex excludes them from each
  other's critical section, and no round is streamed without a call of
  \<open>propagateTransaction\<close>: the clock that should resend every second is never started.\<close>

theorem propagation_mutual_exclusion:
  assumes "conc_reach p c"
  shows "\<not> (main c \<in> {MSend, MUnlock} \<and> stream c = SHold) \<and> rounds c \<le> calls c"
proof -
  have "mutex_ok c" using conc_reach_mutex_ok [OF assms] .
  then have "\<not> (main c \<in> {MSend, MUnlock} \<and> stream c = SHold)" by (auto simp: mutex_ok_def)
  moreover have "rounds c \<le> calls c"
    using conc_reach_rounds [OF assms] by (cases "main c") auto
  ultimately show ?thesis by blast
qed

theorem propagation_mutual_exclusion_ex:
  "rounds (conc_init (newPropagater 0 3 2)) \<le> calls (conc_init (newPropagater 0 3 2))"
  using propagation_mutual_exclusion [OF conc_reach.init [of "newPropagater 0 3 2"]] by blast

end
