(* ===== verification/Dbnode_Safety.thy ===== *)
theory Dbnode_Safety
  imports Dbnode_Quorum
begin

text \<open>
  A node does not crash. On the in-memory store no branch of the main loop panics, over every
  run of well-formed events, and none stops the process but the consistency checks of background
  writes: an invariant of the node's state that every handler keeps.
\<close>

section \<open>The store\<close>

definition mem_safe :: "memstore \<Rightarrow> bool" where
  "mem_safe s \<longleftrightarrow> (\<forall>k. decodable (Some (mem_content s k))) \<and>
     (\<forall>i p. uncommitted s i = Some p \<longrightarrow> decodable (pvalue p))"

lemma decodable_simps [simp]: "decodable None" "decodable (Some [])" "decodable (encodeTimestampVal ts v)"
  by (simp_all add: decodable_def encode_length)

lemma decodable_raw: "decodable (Some (raw v)) = decodable v"
  by (cases v) (simp_all add: decodable_def)

lemma mem_safe_Get:
  assumes "mem_safe s"
  obtains x tv where "memstore_Get s k = (x, False)" "decodeTimestampVal x = Inr tv"
proof -
  obtain x where x: "memstore_Get s k = (x, False)" "raw x = mem_content s (raw k)"
    by (simp add: memstore_Get_def mem_content_def)
  have "decodable x" using assms x(2) decodable_raw [of x] by (simp add: mem_safe_def)
  with x that decode_entry [of x] show thesis by auto
qed

lemma mem_safe_Put:
  assumes "mem_safe s" "decodable v"
  obtains s' tx where "memstore_Put s k v = (s', tx)" "mem_safe s'"
  using assms by (auto simp: memstore_Put_def Let_def mem_safe_def mem_content_def)

lemma mem_safe_Commit:
  assumes "mem_safe s"
  obtains s' ok where "memstore_Commit s k i = (s', ok)" "mem_safe s'"
proof -
  obtain s' ok where c: "memstore_Commit s k i = (s', ok)" by fastforce
  have "mem_safe s'"
    using assms c
    by (auto simp: memstore_Commit_def Let_def mem_safe_def mem_content_insert decodable_raw
        split: if_splits option.splits)
  with c that show thesis by simp
qed

lemma mem_safe_Rollback: "mem_safe s \<Longrightarrow> mem_safe (memstore_Rollback s i)"
  by (simp add: mem_safe_def memstore_Rollback_def mem_content_def)

lemma mem_safe_new: "mem_safe new_memstore"
proof -
  have "trie_get (Node None (\<lambda>_. None)) k = None" for k by (cases k) simp_all
  then show ?thesis
    by (simp add: mem_safe_def new_memstore_def mem_content_def empty_trie_def)
qed

section \<open>The invariant\<close>

definition env_ok :: "env \<Rightarrow> Dbnode \<Rightarrow> bool" where
  "env_ok e n \<longleftrightarrow> perm_ok e n \<and> (\<forall>site. valid_order (rangeOrder e site))"

definition base :: "Dbnode \<Rightarrow> bool" where
  "base n \<longleftrightarrow> wired n \<and> (\<exists>s. dstore n = Mem s \<and> mem_safe s) \<and>
     readQuorumSize n \<in> {1..numPeers n + 1} \<and> writeQuorumSize n \<in> {1..numPeers n + 1} \<and>
     fst ` set (memberList n) \<subseteq> {0..numPeers n}"

definition mode_ok :: "Dbnode \<Rightarrow> bool" where
  "mode_ok n \<longleftrightarrow> currentMode n \<noteq> coordinatingRead \<and>
     (currentMode n \<in> {coordinatingWrite, coordinatingFastRead, assemblingQuorum} \<longrightarrow> quorumMembers n \<noteq> None)"

text \<open>What no handler touches: the construction, the queue and the cells.\<close>

definition same :: "Dbnode \<Rightarrow> Dbnode \<Rightarrow> bool" where
  "same n n' \<longleftrightarrow> cells n' = cells n \<and> lockRequests n' = lockRequests n \<and> dbid n' = dbid n \<and>
     numPeers n' = numPeers n \<and> readQuorumSize n' = readQuorumSize n \<and> writeQuorumSize n' = writeQuorumSize n \<and>
     (backgroundWriteDaemon n' = None \<longleftrightarrow> backgroundWriteDaemon n = None)"

lemma same_refl [simp]: "same n n"
  by (simp add: same_def)

lemma same_trans: "same n n1 \<Longrightarrow> same n1 n2 \<Longrightarrow> same n n2"
  by (simp add: same_def)

text \<open>An operation that ends in a good state.\<close>

definition fine :: "Dbnode \<Rightarrow> Dbnode res \<Rightarrow> bool" where
  "fine n r \<longleftrightarrow> (\<exists>n'. r = Inr n' \<and> base n' \<and> mode_ok n' \<and> same n n')"

lemma fineI: "base n' \<Longrightarrow> mode_ok n' \<Longrightarrow> same n n' \<Longrightarrow> fine n (Inr n')"
  by (simp add: fine_def)

lemma fine_same: "fine n1 r \<Longrightarrow> same n n1 \<Longrightarrow> fine n r"
  by (auto simp: fine_def intro: same_trans)

lemma fine_if: "fine n a \<Longrightarrow> fine n b \<Longrightarrow> fine n (if P then a else b)"
  by simp

named_theorems frame \<open>updates the invariant does not see\<close>

lemma base_frame [frame]:
  "base (n\<lparr>Outgoing := a\<rparr>) = base n" "base (n\<lparr>currentMode := b\<rparr>) = base n"
  "base (n\<lparr>currentTxid := c\<rparr>) = base n" "base (n\<lparr>lockRequests := d\<rparr>) = base n"
  "base (n\<lparr>clientRequest := e\<rparr>) = base n" "base (n\<lparr>numWaitingNodes := f\<rparr>) = base n"
  "base (n\<lparr>uncommitedTxid := g\<rparr>) = base n" "base (n\<lparr>uncommitedKey := h\<rparr>) = base n"
  "base (n\<lparr>unlockTxids := i\<rparr>) = base n" "base (n\<lparr>disabled := j\<rparr>) = base n"
  "base (n\<lparr>internalTimer := k\<rparr>) = base n" "base (n\<lparr>electorCalls := l\<rparr>) = base n"
  "base (n\<lparr>stateQueryRes := m\<rparr>) = base n" "base (n\<lparr>timeoutCounter := o'\<rparr>) = base n"
  "base (n\<lparr>cells := p\<rparr>) = base n" "base (n\<lparr>lockTimers := q\<rparr>) = base n"
  "base (n\<lparr>backgroundWriteDaemon := dm\<rparr>) = base n" "base (emit r n) = base n"
  by (simp_all add: base_def wired_def in_system_def memberList_def emit_def)

lemma mode_frame [frame]:
  "mode_ok (n\<lparr>Outgoing := a\<rparr>) = mode_ok n" "mode_ok (n\<lparr>requestRepeater := b\<rparr>) = mode_ok n"
  "mode_ok (n\<lparr>currentTxid := c\<rparr>) = mode_ok n" "mode_ok (n\<lparr>lockRequests := d\<rparr>) = mode_ok n"
  "mode_ok (n\<lparr>clientRequest := e\<rparr>) = mode_ok n" "mode_ok (n\<lparr>numWaitingNodes := f\<rparr>) = mode_ok n"
  "mode_ok (n\<lparr>uncommitedTxid := g\<rparr>) = mode_ok n" "mode_ok (n\<lparr>uncommitedKey := h\<rparr>) = mode_ok n"
  "mode_ok (n\<lparr>unlockTxids := i\<rparr>) = mode_ok n" "mode_ok (n\<lparr>disabled := j\<rparr>) = mode_ok n"
  "mode_ok (n\<lparr>internalTimer := k\<rparr>) = mode_ok n" "mode_ok (n\<lparr>electorCalls := l\<rparr>) = mode_ok n"
  "mode_ok (n\<lparr>stateQueryRes := m\<rparr>) = mode_ok n" "mode_ok (n\<lparr>timeoutCounter := o'\<rparr>) = mode_ok n"
  "mode_ok (n\<lparr>cells := p\<rparr>) = mode_ok n" "mode_ok (n\<lparr>lockTimers := q\<rparr>) = mode_ok n"
  "mode_ok (n\<lparr>dstore := st\<rparr>) = mode_ok n" "mode_ok (n\<lparr>backgroundWriteDaemon := dm\<rparr>) = mode_ok n" "mode_ok (emit r n) = mode_ok n" "mode_ok (repeat_ack r n) = mode_ok n"
  by (simp_all add: mode_ok_def emit_def repeat_ack_def)

lemma same_frame [frame]:
  "same n (n1\<lparr>Outgoing := a\<rparr>) = same n n1" "same n (n1\<lparr>requestRepeater := b\<rparr>) = same n n1"
  "same n (n1\<lparr>currentTxid := c\<rparr>) = same n n1" "same n (n1\<lparr>currentMode := d\<rparr>) = same n n1"
  "same n (n1\<lparr>clientRequest := e\<rparr>) = same n n1" "same n (n1\<lparr>numWaitingNodes := f\<rparr>) = same n n1"
  "same n (n1\<lparr>uncommitedTxid := g\<rparr>) = same n n1" "same n (n1\<lparr>uncommitedKey := h\<rparr>) = same n n1"
  "same n (n1\<lparr>unlockTxids := i\<rparr>) = same n n1" "same n (n1\<lparr>disabled := j\<rparr>) = same n n1"
  "same n (n1\<lparr>internalTimer := k\<rparr>) = same n n1" "same n (n1\<lparr>electorCalls := l\<rparr>) = same n n1"
  "same n (n1\<lparr>stateQueryRes := m\<rparr>) = same n n1" "same n (n1\<lparr>timeoutCounter := o'\<rparr>) = same n n1"
  "same n (n1\<lparr>dstore := st\<rparr>) = same n n1" "same n (n1\<lparr>quorumMembers := ms\<rparr>) = same n n1"
  "same n (n1\<lparr>lockTimers := q\<rparr>) = same n n1" 
  "same n (n1\<lparr>backgroundWriteDaemon := map_option fd (backgroundWriteDaemon n1)\<rparr>) = same n n1"
  "same n (emit r n1) = same n n1" "same n (repeat_ack r n1) = same n n1" "same n (to_idle n1) = same n n1"
  by (simp_all add: same_def emit_def repeat_ack_def to_idle_def)

lemma env_frame [frame]:
  "env_ok e (n\<lparr>currentMode := b\<rparr>) = env_ok e n" "env_ok e (n\<lparr>clientRequest := c\<rparr>) = env_ok e n"
  "env_ok e (n\<lparr>currentTxid := c'\<rparr>) = env_ok e n" "env_ok e (n\<lparr>cells := p\<rparr>) = env_ok e n"
  "env_ok e (n\<lparr>lockRequests := d\<rparr>) = env_ok e n" "env_ok e (n\<lparr>timeoutCounter := o'\<rparr>) = env_ok e n"
  "env_ok e (n\<lparr>unlockTxids := i\<rparr>) = env_ok e n" "env_ok e (n\<lparr>numWaitingNodes := f\<rparr>) = env_ok e n"
  "env_ok e (n\<lparr>dstore := st\<rparr>) = env_ok e n" "env_ok e (repeat_ack r n) = env_ok e n"
  by (simp_all add: env_ok_def perm_ok_def repeat_ack_def)

lemma env_same: "same n n' \<Longrightarrow> env_ok e n' = env_ok e n"
  by (simp add: same_def env_ok_def perm_ok_def)

lemma base_repeater [frame]:
  "knows_nodes r (numPeers n + 1) \<Longrightarrow> base n \<Longrightarrow> base (n\<lparr>requestRepeater := r\<rparr>)"
  by (simp add: base_def wired_def in_system_def memberList_def)

lemma base_ack [frame]: "base n \<Longrightarrow> base (repeat_ack m n)"
  unfolding repeat_ack_def
  by (rule base_repeater) (auto simp: base_def wired_def)

lemma base_idle [frame]: "base n \<Longrightarrow> base (to_idle n)" "mode_ok (to_idle n)"
  by (auto simp: base_def wired_def in_system_def memberList_def to_idle_def mode_ok_def)

lemma base_knows: "base n \<Longrightarrow> knows_nodes (requestRepeater n) (numPeers n + 1)"
  by (simp add: base_def wired_def)

lemma base_store [frame]: "base n \<Longrightarrow> mem_safe s \<Longrightarrow> base (n\<lparr>dstore := Mem s\<rparr>)"
  by (simp add: base_def wired_def in_system_def memberList_def)

lemma base_mem:
  assumes "base n"
  obtains s where "dstore n = Mem s" "mem_safe s"
  using assms by (auto simp: base_def)

section \<open>Sending and the quorum map\<close>

lemma fine_send:
  assumes "base n" "mode_ok n" "sendable n m"
  shows "fine n (repeat_send m u n)"
proof -
  obtain r where "repeat_send m u n = Inr (n\<lparr>requestRepeater := r\<rparr>)" "sending n [m] r"
    using repeat_send_ok [OF base_knows [OF assms(1)] assms(3)] by blast
  with assms(1,2) show ?thesis by (auto intro!: fineI simp: frame sending_def)
qed

lemma send_members_base:
  assumes "base n" "env_ok e n" "repeater_free mk" "\<And>k m. in_system n k \<Longrightarrow> sendable n (mk n k m)"
  obtains r where "send_members e site mk u n = Inr (n\<lparr>requestRepeater := r\<rparr>)"
    "base (n\<lparr>requestRepeater := r\<rparr>)"
proof -
  have to: "sendable n (mk n k m)" if "k \<in> other_members n" for k m
    using that assms(1,4) by (auto simp: other_members_def base_def in_system_def)
  have "valid_order (rangeOrder e site)" using assms(2) by (simp add: env_ok_def)
  from send_members_ok [OF assms(3) base_knows [OF assms(1)] this to, of u]
  obtain r where r: "send_members e site mk u n = Inr (n\<lparr>requestRepeater := r\<rparr>)"
    "knows_nodes r (numPeers n + 1)"
    by (auto simp: sending_def)
  with that assms(1) show thesis by (simp add: frame)
qed

lemma set_member_base:
  assumes "base n" "mode_ok n" "quorumMembers n \<noteq> None" "in_system n k"
  obtains n' where "set_member k m n = Inr n'" "base n'" "mode_ok n'" "same n n'"
    "quorumMembers n' \<noteq> None" "currentMode n' = currentMode n"
proof -
  obtain ms where ms: "quorumMembers n = Some ms" using assms(3) by blast
  let ?n = "n\<lparr>quorumMembers := Some (AList.update k m ms)\<rparr>"
  have "base ?n"
    using assms(1,4) ms by (simp add: base_def wired_def in_system_def memberList_def dom_update)
  moreover have "mode_ok ?n" using assms(2) by (simp add: mode_ok_def)
  ultimately show thesis
    using that [of ?n] by (simp add: set_member_def ms frame)
qed

lemma base_dbid [simp]: "base n \<Longrightarrow> in_system n (dbid n)"
  by (simp add: base_def wired_def)

lemma fine_abort:
  assumes "base n" "env_ok e n"
  shows "fine n (abortProcessing e n)"
proof -
  let ?n = "rollback_uncommitted e n"
  obtain s where s: "dstore n = Mem s" "mem_safe s" by (rule base_mem [OF assms(1)])
  have 1: "base ?n" "same n ?n" "env_ok e ?n"
    using assms s base_store [OF assms(1) mem_safe_Rollback [OF s(2)]]
    by (auto simp: rollback_uncommitted_def frame env_ok_def perm_ok_def)
  obtain r where r: "send_members e 0 (unlock_msg False) True ?n = Inr (?n\<lparr>requestRepeater := r\<rparr>)"
    "base (?n\<lparr>requestRepeater := r\<rparr>)"
    by (rule send_members_base [OF 1(1,3)]) auto
  have "base (abort_answer (?n\<lparr>requestRepeater := r\<rparr>))" "same n (abort_answer (?n\<lparr>requestRepeater := r\<rparr>))"
    using r(2) 1(2) by (simp_all add: abort_answer_def frame)
  then show ?thesis
    by (auto intro!: fineI simp: abortProcessing_def r(1) frame)
qed

lemma assemble_base:
  assumes "base n" "env_ok e n" "1 \<le> qs" "qs \<le> numPeers n + 1" "ack_type k \<noteq> None"
  obtains n' where "assembleQuorum e qs k n = Inr n'" "base n'" "same n n'"
    "quorumMembers n' \<noteq> None" "currentMode n' = currentMode n"
proof -
  have "wired n" "perm_ok e n" using assms(1,2) by (auto simp: base_def env_ok_def)
  from assembleQuorum_ok [OF this assms(3-5)] obtain r where
    a: "assembleQuorum e qs k n = Inr (n\<lparr>quorumMembers := Some (quorum_map e qs k n),
      requestRepeater := r, numWaitingNodes := qs - 1\<rparr>)" (is "_ = Inr ?n")
    and "sending n (map (request_msg k n) (chosen e qs n)) r"
    by blast
  then have kn: "knows_nodes r (numPeers n + 1)" by (simp add: sending_def)
  have "in_system n (dbid n)" using assms(1) by simp
  then have "fst ` set (quorum_map e qs k n) \<subseteq> {0..numPeers n}"
    using chosen_ok(2) [OF \<open>perm_ok e n\<close> _ assms(3,4)]
    by (auto simp: quorum_map_def marker_def in_system_def image_image split: if_splits)
  then have "base ?n"
    using assms(1) kn by (simp add: base_def wired_def in_system_def memberList_def)
  with a that [of ?n] show thesis by (simp add: frame)
qed

section \<open>Continuing a transaction\<close>

lemma fine_fast_read:
  assumes "base n" "env_ok e n" "currentMode n = coordinatingFastRead"
  shows "fine n (continueFastRead e n)"
proof (cases "quorumMembers n = None")
  case True
  have rq: "1 \<le> readQuorumSize n" "readQuorumSize n \<le> numPeers n + 1"
    using assms(1) by (auto simp: base_def)
  obtain n' where "assembleQuorum e (readQuorumSize n) NodeGetRequest n = Inr n'" "base n'" "same n n'"
    "quorumMembers n' \<noteq> None" "currentMode n' = currentMode n"
    by (rule assemble_base [OF assms(1,2) rq, of NodeGetRequest]) simp
  with True assms(3) show ?thesis by (auto simp: continueFastRead_def fine_def mode_ok_def)
next
  case False
  obtain s where s: "dstore n = Mem s" "mem_safe s" by (rule base_mem [OF assms(1)])
  obtain x tv where "memstore_Get s (Key (clientRequest n)) = (x, False)"
    "decodeTimestampVal x = Inr tv"
    by (rule mem_safe_Get [OF s(2)])
  with False s assms(1) show ?thesis by (auto intro!: fineI simp: continueFastRead_def frame)
qed

lemma fine_write_ask:
  assumes "base n" "mode_ok n" "env_ok e n" "quorumMembers n \<noteq> None"
  shows "fine n (write_ask e n)"
proof -
  obtain r where r: "send_members e 4 timestamp_request_msg True n = Inr (n\<lparr>requestRepeater := r\<rparr>)"
    "base (n\<lparr>requestRepeater := r\<rparr>)"
    by (rule send_members_base [OF assms(1,3)]) auto
  let ?n1 = "n\<lparr>requestRepeater := r\<rparr>"
  obtain n2 where "set_member (dbid ?n1) (zeroMessage\<lparr>DemuxKey := NodePutRequest\<rparr>) ?n1 = Inr n2"
    "base n2" "mode_ok n2" "same ?n1 n2"
    by (rule set_member_base [of ?n1 "dbid ?n1" "zeroMessage\<lparr>DemuxKey := NodePutRequest\<rparr>"])
      (use assms r base_dbid [OF r(2)] in \<open>simp_all add: frame\<close>)
  moreover from this(4) have "same n n2" by (simp add: same_def)
  ultimately show ?thesis by (auto intro!: fineI simp: write_ask_def r(1) frame)
qed

lemma fine_write_put:
  assumes "base n" "mode_ok n" "env_ok e n" "quorumMembers n \<noteq> None"
  shows "fine n (write_put e n)"
proof -
  obtain s where s: "dstore n = Mem s" "mem_safe s" by (rule base_mem [OF assms(1)])
  obtain x tv where g: "memstore_Get s (Key (clientRequest n)) = (x, False)"
    "decodeTimestampVal x = Inr tv"
    by (rule mem_safe_Get [OF s(2)])
  obtain t0 v0 where t0: "(if length (raw x) > 0 then decodeTimestampVal x else Inr (0, None)) = Inr (t0, v0)"
    using g(2) by (cases tv; cases "raw x = []") auto
  let ?ts = "latest_timestamp (dbid n) t0 (range_members e 5 n) + 1"
  obtain s' tx where p: "memstore_Put s (Key (clientRequest n))
      (encodeTimestampVal ?ts (Value (clientRequest n))) = (s', tx)" "mem_safe s'"
    by (rule mem_safe_Put [OF s(2)]) auto
  let ?n1 = "n\<lparr>dstore := Mem s', uncommitedTxid := tx, uncommitedKey := Key (clientRequest n)\<rparr>"
  have n1: "base ?n1" "env_ok e ?n1" "mode_ok ?n1"
    using base_store [OF assms(1) p(2)] assms(2,3) by (simp_all add: frame env_ok_def perm_ok_def)
  obtain r where r: "send_members e 6 (put_request_msg ?ts) True ?n1 = Inr (?n1\<lparr>requestRepeater := r\<rparr>)"
    "base (?n1\<lparr>requestRepeater := r\<rparr>)"
    by (rule send_members_base [OF n1(1,2)]) auto
  let ?n2 = "?n1\<lparr>requestRepeater := r\<rparr>" and ?m = "zeroMessage\<lparr>DemuxKey := NodeUnlockRequest, Timestamp := ?ts\<rparr>"
  obtain n3 where n3: "set_member (dbid ?n2) ?m ?n2 = Inr n3" "base n3" "mode_ok n3" "same ?n2 n3"
    by (rule set_member_base [of ?n2 "dbid ?n2" ?m])
      (use assms(4) n1(3) r(2) base_dbid [OF r(2)] in \<open>simp_all add: frame\<close>)
  have put: "fine n (Inr (n3\<lparr>numWaitingNodes := w\<rparr>))" for w
    using n3(2-4) by (intro fineI) (simp_all add: frame, simp add: same_def)
  have refuse: "fine n (abortProcessing e (n\<lparr>clientRequest := c\<rparr>))" for c
    by (rule fine_same [OF fine_abort]) (use assms(1,3) in \<open>simp_all add: frame\<close>)
  have "write_put e n =
      (if DemuxKey (clientRequest n) = ClientStrongWriteRequest \<and> Timestamp (clientRequest n) \<noteq> ?ts
       then abortProcessing e (n\<lparr>clientRequest := (clientRequest n)\<lparr>Timestamp := ?ts\<rparr>\<rparr>)
       else Inr (n3\<lparr>numWaitingNodes := writeQuorumSize n3 - 1\<rparr>))"
    by (simp only: write_put_def s(1) Store_Get.simps g(1) bind_res_simps prod.case if_False t0 Let_def
        Store_Put.simps p(1) map_prod_simp id_apply r(1) n3(1))
  with put refuse show ?thesis by simp
qed

lemma fine_write_commit:
  assumes "base n" "env_ok e n"
  shows "fine n (write_commit e n)"
proof -
  obtain s where s: "dstore n = Mem s" "mem_safe s" by (rule base_mem [OF assms(1)])
  obtain s' ok where c: "memstore_Commit s (uncommitedKey n) (uncommitedTxid n) = (s', ok)"
    "mem_safe s'"
    by (rule mem_safe_Commit [OF s(2)])
  have n0: "base (n\<lparr>dstore := Mem s'\<rparr>)" "env_ok e (n\<lparr>dstore := Mem s'\<rparr>)"
    using base_store [OF assms(1) c(2)] assms(2) by (simp_all add: frame)
  show ?thesis
  proof (cases ok)
    case False
    then show ?thesis
      using fine_same [OF fine_abort [OF n0], of n] by (simp add: write_commit_def s(1) c(1) frame)
  next
    case True
    let ?n1 = "n\<lparr>dstore := Mem s', uncommitedKey := None, uncommitedTxid := 0\<rparr>"
    have n1: "base ?n1" "env_ok e ?n1" using n0 by (simp_all add: frame env_ok_def perm_ok_def)
    obtain r where r: "send_members e 7 (unlock_msg True) True ?n1 = Inr (?n1\<lparr>requestRepeater := r\<rparr>)"
      "base (?n1\<lparr>requestRepeater := r\<rparr>)"
      by (rule send_members_base [OF n1]) auto
    show ?thesis
      using True r base_idle
      by (auto intro!: fineI simp: write_commit_def s(1) c(1) Let_def frame)
  qed
qed

lemma fine_continueWrite:
  assumes "base n" "mode_ok n" "env_ok e n" "quorumMembers n \<noteq> None"
  shows "fine n (continueWrite e n)"
  using assms fine_write_ask fine_write_put fine_write_commit fineI
  by (auto simp: continueWrite_def split: Messagetype.split)

text \<open>A transaction that goes on, and one that has just been started.\<close>

lemma fine_continue:
  assumes "base n" "mode_ok n" "env_ok e n"
  shows "fine n (continueProcessing e n)"
proof (cases "currentMode n = assemblingQuorum")
  case True
  then obtain ms where "quorumMembers n = Some ms" using assms(2) by (auto simp: mode_ok_def)
  with True assms show ?thesis
    using fine_same [OF fine_continueWrite [of "n\<lparr>currentMode := coordinatingWrite\<rparr>" e], of n]
    by (simp add: continueProcessing_def frame mode_ok_def)
next
  case False
  with assms show ?thesis
    using fine_fast_read [OF assms(1,3)] fine_continueWrite [OF assms] fineI [OF assms(1,2)]
    by (cases "currentMode n") (auto simp: continueProcessing_def mode_ok_def)
qed

lemma fine_start_write:
  assumes "base n" "env_ok e n" "currentMode n = assemblingQuorum"
  shows "fine n (continueProcessing e n)"
proof (cases "quorumMembers n = None")
  case True
  have wq: "1 \<le> writeQuorumSize n" "writeQuorumSize n \<le> numPeers n + 1"
    using assms(1) by (auto simp: base_def)
  obtain n' where "assembleQuorum e (writeQuorumSize n) NodeLockRequestNoTimeout n = Inr n'" "base n'"
    "same n n'" "quorumMembers n' \<noteq> None" "currentMode n' = currentMode n"
    by (rule assemble_base [OF assms(1,2) wq, of NodeLockRequestNoTimeout]) simp
  with True assms(3) show ?thesis by (auto simp: continueProcessing_def fine_def mode_ok_def)
next
  case False
  then show ?thesis using fine_continue [OF assms(1) _ assms(2)] assms(3) by (simp add: mode_ok_def)
qed

section \<open>The handlers\<close>

lemma fine_local_read:
  assumes "base n" "mode_ok n"
  shows "fine n (processLocalRead e msg n)"
proof -
  obtain s where s: "dstore n = Mem s" "mem_safe s" by (rule base_mem [OF assms(1)])
  obtain x tv where "memstore_Get s (Key msg) = (x, False)" "decodeTimestampVal x = Inr tv"
    by (rule mem_safe_Get [OF s(2)])
  with s assms show ?thesis
    by (cases tv) (auto intro!: fineI simp: processLocalRead_def frame)
qed

lemma fine_local_write:
  assumes "base n" "mode_ok n"
  shows "fine n (processLocalWrite e msg n)"
proof -
  obtain s where s: "dstore n = Mem s" "mem_safe s" by (rule base_mem [OF assms(1)])
  obtain x tv where g: "memstore_Get s (Key msg) = (x, False)" "decodeTimestampVal x = Inr tv"
    by (rule mem_safe_Get [OF s(2)])
  obtain t v where tv: "tv = (t, v)" by fastforce
  obtain s1 tx where p: "memstore_Put s (Key msg) (encodeTimestampVal (t + 1) (Value msg)) = (s1, tx)"
    "mem_safe s1"
    by (rule mem_safe_Put [OF s(2)]) auto
  obtain s2 ok where c: "memstore_Commit s1 (Key msg) tx = (s2, ok)" "mem_safe s2"
    by (rule mem_safe_Commit [OF p(2)])
  show ?thesis
    using s(1) g tv p(1) c assms base_store [OF assms(1) c(2)]
    by (auto intro!: fineI simp: processLocalWrite_def Let_def frame)
qed

lemma fine_count_answer:
  assumes "base n" "mode_ok n" "env_ok e n" "quorumMembers n \<noteq> None" "in_system n (Src msg)"
  shows "fine n (count_answer e msg n)"
proof -
  obtain n1 where n1: "set_member (Src msg) msg n = Inr n1" "base n1" "mode_ok n1" "same n n1"
    by (rule set_member_base [OF assms(1,2,4,5), of msg]) blast
  let ?n2 = "n1\<lparr>numWaitingNodes := numWaitingNodes n1 - 1\<rparr>"
  have n2: "base ?n2" "mode_ok ?n2" "env_ok e ?n2" "same n ?n2"
    using n1(2-4) assms(3) by (simp_all add: frame env_same)
  show ?thesis
    unfolding count_answer_def n1(1) bind_res_simps Let_def
    by (intro fine_if fine_abort [OF assms(1,3)] fine_same [OF fine_continue [OF n2(1-3)] n2(4)]
        fineI [OF n2(1,2,4)] fineI [OF assms(1,2) same_refl])
qed

lemma ack_fields [simp]:
  "currentMode (repeat_ack m n) = currentMode n" "currentTxid (repeat_ack m n) = currentTxid n"
  "quorumMembers (repeat_ack m n) = quorumMembers n" "dbid (repeat_ack m n) = dbid n"
  "numPeers (repeat_ack m n) = numPeers n"
  by (simp_all add: repeat_ack_def)

lemma in_system_ack [simp]: "in_system (repeat_ack m n) = in_system n"
  by (simp add: fun_eq_iff in_system_def)

lemma fine_answers:
  assumes "base n" "mode_ok n" "env_ok e n" "in_system n (Src msg)"
  shows "fine n (handleLockRes e msg n)" "fine n (handleGetRes e msg n)" "fine n (handlePutRes e msg n)"
proof -
  let ?n = "repeat_ack msg n"
  have a: "base ?n" "mode_ok ?n" "env_ok e ?n" "same n ?n" using assms by (simp_all add: frame)
  have count: "fine n (count_answer e msg ?n)"
    if "currentMode n \<in> {coordinatingWrite, coordinatingFastRead, assemblingQuorum}"
    using fine_same [OF fine_count_answer [OF a(1-3)] a(4)] that assms(2,4)
    by (simp add: mode_ok_def)
  have send: "fine n (repeat_send (zeroMessage\<lparr>Id' := i, Src := j, Dest := Src msg,
      DemuxKey := NodeUnlockRequest, Ok := False\<rparr>) True ?n)" for i j
    using fine_same [OF fine_send [OF a(1,2)] a(4)] assms(4)
    by (simp add: sendable_def in_system_def)
  have not_read: "currentMode n \<noteq> coordinatingRead" using assms(2) by (simp add: mode_ok_def)
  show "fine n (handleLockRes e msg n)"
    using count send not_read fineI [OF a(1,2,4)] by (auto simp: handleLockRes_def Let_def)
  show "fine n (handleGetRes e msg n)"
    using count not_read fineI [OF a(1,2,4)] by (auto simp: handleGetRes_def Let_def)
  show "fine n (handlePutRes e msg n)"
    using count fineI [OF a(1,2,4)] by (auto simp: handlePutRes_def Let_def)
qed

lemma fine_unlock:
  assumes "base n" "mode_ok n"
  shows "fine n (Inr (handleUnlockReq e msg n))"
proof -
  obtain s where s: "dstore n = Mem s" "mem_safe s" by (rule base_mem [OF assms(1)])
  obtain s' ok where c: "memstore_Commit s (uncommitedKey n) (uncommitedTxid n) = (s', ok)" "mem_safe s'"
    by (rule mem_safe_Commit [OF s(2)])
  have idle: "mode_ok (n1\<lparr>currentMode := idle\<rparr>)" for n1 by (simp add: mode_ok_def)
  show ?thesis
    using s(1) c(1) assms base_store [OF assms(1) c(2)] idle
    by (intro fineI) (simp_all add: handleUnlockReq_def Let_def frame)
qed

lemma fine_get:
  assumes "base n" "mode_ok n"
  shows "fine n (handleGetReq e msg n)" "fine n (handleTimestampReq e msg n)"
proof -
  obtain s where s: "dstore n = Mem s" "mem_safe s" by (rule base_mem [OF assms(1)])
  obtain x tv where "memstore_Get s (Key msg) = (x, False)" "decodeTimestampVal x = Inr tv"
    by (rule mem_safe_Get [OF s(2)])
  with s(1) assms show "fine n (handleGetReq e msg n)" "fine n (handleTimestampReq e msg n)"
    by (cases tv; auto intro!: fineI simp: handleGetReq_def handleTimestampReq_def frame)+
qed

lemma fine_put:
  assumes "base n" "mode_ok n"
  shows "fine n (handlePutReq e msg n)"
proof -
  obtain s where s: "dstore n = Mem s" "mem_safe s" by (rule base_mem [OF assms(1)])
  obtain s1 tx where p: "memstore_Put s (Key msg) (encodeTimestampVal (Timestamp msg) (Value msg)) = (s1, tx)"
    "mem_safe s1"
    by (rule mem_safe_Put [OF s(2)]) auto
  show ?thesis
    using s(1) p(1) assms base_store [OF assms(1) p(2)]
    by (auto intro!: fineI simp: handlePutReq_def Let_def frame)
qed

text \<open>Background writes: the only crash is that of a consistency check.\<close>

definition checked :: "Dbnode \<Rightarrow> Dbnode res \<Rightarrow> bool" where
  "checked n r \<longleftrightarrow> r = Inl Fatal \<or> fine n r"

lemma checked_merge:
  assumes "base n" "mode_ok n"
  shows "checked n (merge_write e msg ts v n)"
proof -
  obtain s where s: "dstore n = Mem s" "mem_safe s" by (rule base_mem [OF assms(1)])
  obtain s1 tx where p: "memstore_Put s (Key msg) (encodeTimestampVal (Timestamp msg) (Value msg)) = (s1, tx)"
    "mem_safe s1"
    by (rule mem_safe_Put [OF s(2)]) auto
  obtain s2 ok where "memstore_Commit s1 (Key msg) tx = (s2, ok)" "mem_safe s2"
    by (rule mem_safe_Commit [OF p(2)])
  with s(1) p(1) assms base_store [OF assms(1)] show ?thesis
    by (auto intro!: fineI simp: checked_def merge_write_def frame)
qed

lemma checked_emit:
  "checked n r \<Longrightarrow> checked n (bind_res r (\<lambda>n1. Inr (emit m n1)))"
  by (auto simp: checked_def fine_def frame)

lemma checked_background:
  assumes "base n" "mode_ok n"
  shows "checked n (handleBackgroundWriteReq e msg n)"
    "DemuxKey msg = NodeBackgroundWriteResponse \<Longrightarrow> backgroundWriteDaemon n \<noteq> None \<Longrightarrow>
      checked n (handleBackgroundWriteRes e msg n)"
proof -
  obtain s where s: "dstore n = Mem s" "mem_safe s" by (rule base_mem [OF assms(1)])
  obtain x tv where g: "memstore_Get s (Key msg) = (x, False)" "decodeTimestampVal x = Inr tv"
    by (rule mem_safe_Get [OF s(2)])
  show "checked n (handleBackgroundWriteReq e msg n)"
    using s(1) g checked_emit [OF checked_merge [OF assms]]
    by (cases tv) (simp add: handleBackgroundWriteReq_def)
  assume k: "DemuxKey msg = NodeBackgroundWriteResponse" "backgroundWriteDaemon n \<noteq> None"
  then obtain p where p: "backgroundWriteDaemon n = Some p" by blast
  let ?n = "\<lambda>p'. n\<lparr>backgroundWriteDaemon := Some p'\<rparr>"
  have n: "base (?n p')" "mode_ok (?n p')" "same n (?n p')" for p'
    using assms p by (simp_all add: frame same_def)
  then have "checked n (merge_write e msg ts v (?n p'))" for p' ts v
    using checked_merge [OF n(1,2), of p' e msg ts v] fine_same by (auto simp: checked_def)
  then show "checked n (handleBackgroundWriteRes e msg n)"
    using s(1) g n p k(1)
    by (cases tv) (auto simp: handleBackgroundWriteRes_def Let_def response_def checked_def intro!: fineI
        split: option.splits)
qed

section \<open>The main loop\<close>

text \<open>
  Messages the network and the simulation deliver to a node. Answers come from nodes of the
  system, and answers to background writes only to a node that has a propagater.
\<close>

definition msg_ok :: "Dbnode \<Rightarrow> Message \<Rightarrow> bool" where
  "msg_ok n m \<longleftrightarrow> DemuxKey m \<in> {ControlFail, ControlRecover} \<or>
     Dest m = dbid n \<and>
     (DemuxKey m \<in> {ClientReadRequest, ClientWriteRequest, ClientStrongWriteRequest, NodeLockRequest,
        NodeLockRequestNoTimeout, NodeUnlockRequest, NodeUnlockAck, NodeGetRequest, NodePutRequest,
        NodeTimestampRequest, InternalTimerSignal, ElectionElect, ElectionCoordinator, ElectionAck} \<or>
      DemuxKey m \<in> {NodeLockResponse, NodeGetResponse, NodePutResponse} \<and> in_system n (Src m) \<or>
      DemuxKey m = NodeBackgroundWriteRequest \<or>
      DemuxKey m = NodeBackgroundWriteResponse \<and> backgroundWriteDaemon n \<noteq> None)"

text \<open>The messages whose handlers check that equal timestamps carry equal values.\<close>

definition background :: "Messagetype \<Rightarrow> bool" where
  "background k \<longleftrightarrow> k \<in> {NodeBackgroundWriteRequest, NodeBackgroundWriteResponse}"

definition lockable :: "Messagetype \<Rightarrow> bool" where
  "lockable k \<longleftrightarrow> k \<in> {ClientReadRequest, ClientWriteRequest, ClientStrongWriteRequest, NodeLockRequest,
     NodeLockRequestNoTimeout}"

definition queue_ok :: "Dbnode \<Rightarrow> bool" where
  "queue_ok n \<longleftrightarrow> (\<forall>p \<in> set (qvalues (lockRequests n)). p < length (cells n) \<and> lockable (DemuxKey (cells n ! p)))"

lemma queue_same: "same n n' \<Longrightarrow> queue_ok n' = queue_ok n"
  by (simp add: same_def queue_ok_def)

text \<open>The node's construction: what stays as \<open>New\<close> made it. The cells only grow.\<close>

definition good :: "Dbnode \<Rightarrow> bool" where
  "good n \<longleftrightarrow> base n \<and> mode_ok n \<and> queue_ok n"

definition wiring :: "Dbnode \<Rightarrow> int \<times> int \<times> bool" where
  "wiring n = (dbid n, numPeers n, backgroundWriteDaemon n \<noteq> None)"

lemma same_wiring: "same n n' \<Longrightarrow> wiring n' = wiring n \<and> cells n' = cells n"
  by (simp add: same_def wiring_def)

text \<open>A step on a message: a good state, or the end of the process at a consistency check.\<close>

definition survives :: "Dbnode \<Rightarrow> Message \<Rightarrow> Dbnode res \<Rightarrow> bool" where
  "survives n m r \<longleftrightarrow> background (DemuxKey m) \<and> r = Inl Fatal \<or>
     (\<exists>n'. r = Inr n' \<and> good n' \<and> wiring n' = wiring n \<and> cells n' = cells n)"

lemma dispatch_good:
  assumes "good n" "env_ok e n" "msg_ok n m" "DemuxKey m \<notin> {ControlFail, ControlRecover}"
    and "p < length (cells n)" "cells n ! p = m"
  shows "survives n m (dispatch e p m n)"
proof -
  have b: "base n" "mode_ok n" "queue_ok n" using assms(1) by (simp_all add: good_def)
  have "background (DemuxKey m) \<and> checked n (dispatch e p m n) \<or> fine n (dispatch e p m n) \<or>
      dispatch e p m n = Inr (enqueue_request p n) \<and> lockable (DemuxKey m)"
    using assms(3,4) b fine_answers [OF b(1,2) assms(2), of m] fine_local_read [OF b(1,2), of e m]
      fine_local_write [OF b(1,2), of e m] fine_unlock [OF b(1,2), of e m] fine_get [OF b(1,2), of e m]
      fine_put [OF b(1,2), of e m] checked_background(1) [OF b(1,2), of e m] checked_background(2) [OF b(1,2), of m e]
    by (cases "DemuxKey m")
      (auto simp: dispatch_def msg_ok_def lockable_def background_def handleUnlockAck_def frame intro!: fineI)
  moreover have "survives n m r" if "fine n r" for r
    using that b(3) by (auto simp: survives_def fine_def good_def queue_same same_wiring)
  moreover have "survives n m (Inr (enqueue_request p n))" if "lockable (DemuxKey m)"
    using that b assms(5,6)
    by (auto simp: survives_def good_def enqueue_request_def frame wiring_def queue_ok_def enqueue_def)
  ultimately show ?thesis by (auto simp: checked_def survives_def)
qed

lemma fine_good:
  assumes "fine n r" "queue_ok n"
  shows "\<exists>n'. r = Inr n' \<and> good n' \<and> wiring n' = wiring n \<and> cells n' = cells n"
  using assms by (auto simp: fine_def good_def queue_same same_wiring)

lemma fine_start:
  assumes "base n" "mode_ok n" "env_ok e n" "lockable (DemuxKey m)"
  shows "fine n (start_transaction e m n)"
proof -
  let ?n = "n\<lparr>currentTxid := Id' m, clientRequest := m\<rparr>"
  have n: "base ?n" "env_ok e ?n" "same n ?n" using assms by (simp_all add: frame)
  have mode: "mode_ok (n1\<lparr>currentMode := processingRead\<rparr>)" "mode_ok (n1\<lparr>currentMode := processingWrite\<rparr>)" for n1
    by (simp_all add: mode_ok_def)
  have wr: "fine n (continueProcessing e (?n\<lparr>currentMode := assemblingQuorum\<rparr>))"
    by (rule fine_same [OF fine_start_write]) (use n in \<open>simp_all add: frame\<close>)
  have "fine n (continueFastRead e (?n\<lparr>currentMode := coordinatingFastRead\<rparr>))"
    by (rule fine_same [OF fine_fast_read]) (use n in \<open>simp_all add: frame\<close>)
  then have rd: "fine n (continueProcessing e (?n\<lparr>currentMode := coordinatingFastRead\<rparr>))"
    by (simp add: continueProcessing_def)
  show ?thesis
    using assms(4) wr rd n mode
    by (auto simp: start_transaction_def lockable_def fastReads_def Let_def frame intro!: fineI)
qed

lemma serve_good:
  assumes "good n" "env_ok e n" "p < length (cells n)"
  shows "\<exists>n'. serve e p n = Inr n' \<and> good n' \<and> wiring n' = wiring n \<and> length (cells n') = length (cells n)"
proof (cases "currentMode n = idle \<and> \<not> queue_empty (lockRequests n)")
  case False
  with assms(1) show ?thesis by (auto simp: serve_def)
next
  case True
  then obtain q qs where qs: "qvalues (lockRequests n) = q # qs"
    by (auto simp: queue_empty_def neq_Nil_conv)
  let ?m = "cells n ! q" and ?rest = "(lockRequests n)\<lparr>qvalues := qs\<rparr>"
  have q: "q < length (cells n)" "lockable (DemuxKey ?m)"
    using assms(1) qs by (auto simp: good_def queue_ok_def)
  let ?n1 = "n\<lparr>lockRequests := ?rest, cells := (cells n)[p := ?m]\<rparr>"
  have n1: "base ?n1" "mode_ok ?n1" "env_ok e ?n1" "wiring ?n1 = wiring n" "length (cells ?n1) = length (cells n)"
    using assms(1,2) by (simp_all add: good_def frame wiring_def)
  have qo: "queue_ok ?n1"
    using assms(1,3) qs q by (auto simp: good_def queue_ok_def nth_list_update)
  obtain n' where n': "start_transaction e ?m ?n1 = Inr n'" "good n'" "wiring n' = wiring n"
      "length (cells n') = length (cells n)"
    using fine_good [OF fine_start [OF n1(1-3) q(2)] qo] n1(4,5) by metis
  have "good ?n1" using n1(1,2) qo by (simp add: good_def)
  with True qs q n' n1(4,5) show ?thesis
    by (simp add: serve_def dequeue_def deref_def Let_def)
qed

lemma timer_good:
  assumes "good n" "env_ok e n"
  shows "\<exists>n'. on_timer e m n = Inr n' \<and> good n' \<and> wiring n' = wiring n \<and> cells n' = cells n"
proof (rule fine_good)
  have "fine n (on_timer e m n)" if "fine n (abortProcessing e n)"
    using that assms(1)
    by (auto simp: on_timer_def good_def fine_def frame)
  with fine_abort [of n e] assms show "fine n (on_timer e m n)" by (simp add: good_def)
qed (use assms in \<open>simp add: good_def\<close>)

lemma recover_fail_good:
  assumes "good n"
  shows "good (recover_node n)" "good (fail_node n)"
proof -
  have "base (n1\<lparr>requestRepeater := r\<rparr>)" if "base n1" "dom (unackedReqs r) = dom (unackedReqs (requestRepeater n1))" for n1 r
    using that base_repeater [of r n1] base_knows [of n1] by (simp add: knows_nodes_def)
  then have b: "base (n1\<lparr>requestRepeater := Repeater_Recover (requestRepeater n1)\<rparr>)"
    "base (n1\<lparr>requestRepeater := Repeater_Fail (requestRepeater n1)\<rparr>)" if "base n1" for n1
    using that by (simp_all add: Repeater_Recover_def Repeater_Fail_def)
  have none: "base (n1\<lparr>quorumMembers := None\<rparr>)" if "base n1" for n1
    using that by (simp add: base_def wired_def in_system_def memberList_def)
  show "good (recover_node n)"
    using assms b(1) [of "n\<lparr>disabled := False, timeoutCounter := 0, internalTimer := internalTimer n @ [0]\<rparr>"]
    by (simp add: good_def recover_node_def frame queue_ok_def)
  let ?n1 = "n\<lparr>disabled := True, requestRepeater := Repeater_Fail (requestRepeater n),
      electorCalls := electorCalls n @ [ProcessMsg (zeroMessage\<lparr>DemuxKey := ControlFail\<rparr>)]\<rparr>"
  have n1: "base ?n1" "mode_ok ?n1" "queue_ok ?n1"
    using assms b(2) [of "n\<lparr>disabled := True\<rparr>"] by (simp_all add: good_def frame queue_ok_def)
  have "good (?n1\<lparr>currentMode := idle, currentTxid := -1, clientRequest := zeroMessage, quorumMembers := None\<rparr>)"
    using n1 none [of "?n1\<lparr>currentMode := idle, currentTxid := -1, clientRequest := zeroMessage\<rparr>"]
    by (simp add: good_def frame mode_ok_def queue_ok_def)
  with n1 show "good (fail_node n)" by (simp add: fail_node_def Let_def good_def)
qed

lemma good_cells:
  "good n \<Longrightarrow> good (n\<lparr>cells := cells n @ [m]\<rparr>)"
  by (auto simp: good_def frame queue_ok_def nth_append)

lemma incoming_good:
  assumes "good n" "env_ok e n" "msg_ok n m"
  shows "background (DemuxKey m) \<and> on_incoming e m n = Inl Fatal \<or>
    (\<exists>n'. on_incoming e m n = Inr n' \<and> good n' \<and> wiring n' = wiring n \<and>
      length (cells n') = Suc (length (cells n)))"
proof -
  let ?n0 = "n\<lparr>cells := cells n @ [m]\<rparr>" and ?p = "length (cells n)"
  have n0: "good ?n0" "env_ok e ?n0" "wiring ?n0 = wiring n" "cells ?n0 = cells n @ [m]" "dbid ?n0 = dbid n"
    using good_cells [OF assms(1)] assms(2) by (simp_all add: frame wiring_def)
  note control = recover_fail_good [OF n0(1)]
  have w: "wiring (recover_node ?n0) = wiring n" "wiring (fail_node ?n0) = wiring n"
    "cells (recover_node ?n0) = cells n @ [m]" "cells (fail_node ?n0) = cells n @ [m]"
    by (simp_all add: wiring_def recover_node_def fail_node_def Let_def)
  show ?thesis
  proof (cases "disabled n \<or> DemuxKey m \<in> {ControlRecover, ControlFail}")
    case True
    then show ?thesis
      using n0 control w by (auto simp: on_incoming_def alloc_def Let_def)
  next
    case False
    then have dest: "Dest m = dbid n" using assms(3) by (auto simp: msg_ok_def)
    obtain n1 where n1: "on_timer e m ?n0 = Inr n1" "good n1" "wiring n1 = wiring n" "cells n1 = cells n @ [m]"
      using timer_good [OF n0(1,2), of m] n0(3,4) by auto
    let ?n2 = "if DemuxKey m = ElectionElect then cleanUnlockTxids n1 else n1"
    have n2: "good ?n2" "wiring ?n2 = wiring n" "cells ?n2 = cells n @ [m]"
      using n1(2-4) by (auto simp: cleanUnlockTxids_def Let_def good_def frame queue_ok_def wiring_def)
    then have "env_ok e ?n2" "msg_ok ?n2 m"
      using assms(2,3) by (auto simp: env_ok_def perm_ok_def wiring_def msg_ok_def in_system_def)
    then have "survives ?n2 m (dispatch e ?p m ?n2)"
      using dispatch_good [OF n2(1), of e m ?p] False n2(3) by auto
    moreover have "on_incoming e m n = bind_res (dispatch e ?p m ?n2) (serve e ?p)"
      using False dest n1(1) by (simp add: on_incoming_def alloc_def Let_def)
    moreover have "\<exists>n4. serve e ?p n3 = Inr n4 \<and> good n4 \<and> wiring n4 = wiring n \<and> length (cells n4) = Suc ?p"
      if "good n3" "wiring n3 = wiring n" "cells n3 = cells n @ [m]" for n3
    proof -
      have "env_ok e n3" using that(2) assms(2) by (simp add: env_ok_def perm_ok_def wiring_def)
      from serve_good [OF that(1) this, of ?p] that(2,3) show ?thesis by auto
    qed
    ultimately show ?thesis using n2(2,3) by (auto simp: survives_def)
  qed
qed

lemma lock_timeout_good:
  assumes "good n" "env_ok e n" "p < length (cells n)"
  shows "\<exists>n'. on_lock_timeout e p n = Inr n' \<and> good n' \<and> wiring n' = wiring n \<and> cells n' = cells n"
proof -
  obtain q found where q: "queue_remove (lockRequests n) p = (q, found)" by fastforce
  have "set (qvalues q) \<subseteq> set (qvalues (lockRequests n))"
    using q set_remove1_subset by (fastforce simp: queue_remove_def remove_first_eq)
  then have "good (n\<lparr>lockRequests := q\<rparr>)"
    using assms(1) by (auto simp: good_def frame queue_ok_def)
  then have "good (emit m (n\<lparr>lockRequests := q\<rparr>))" for m
    by (simp add: good_def frame queue_ok_def) (simp add: emit_def)
  moreover have "wiring (emit m (n\<lparr>lockRequests := q\<rparr>)) = wiring n \<and> cells (emit m (n\<lparr>lockRequests := q\<rparr>)) = cells n" for m
    by (simp add: wiring_def emit_def)
  moreover have "\<exists>n'. abortProcessing e n = Inr n' \<and> good n' \<and> wiring n' = wiring n \<and> cells n' = cells n"
    using fine_good [OF fine_abort [of n e]] assms(1,2) by (simp add: good_def)
  ultimately show ?thesis
    using assms(1,3) by (auto simp: on_lock_timeout_def q deref_def)
qed

text \<open>
  A run of well-formed events at node \<open>i\<close> of \<open>N\<close>; \<open>k\<close> is the number of cells so far, which the
  pointers of timed-out requests must not exceed.
\<close>

definition well_formed :: "int \<Rightarrow> int \<Rightarrow> bool \<Rightarrow> Message \<Rightarrow> bool" where
  "well_formed N i sloppy m \<longleftrightarrow> DemuxKey m \<in> {ControlFail, ControlRecover} \<or>
     Dest m = i \<and>
     (DemuxKey m \<in> {ClientReadRequest, ClientWriteRequest, ClientStrongWriteRequest, NodeLockRequest,
        NodeLockRequestNoTimeout, NodeUnlockRequest, NodeUnlockAck, NodeGetRequest, NodePutRequest,
        NodeTimestampRequest, InternalTimerSignal, ElectionElect, ElectionCoordinator, ElectionAck} \<or>
      DemuxKey m \<in> {NodeLockResponse, NodeGetResponse, NodePutResponse} \<and> 0 \<le> Src m \<and> Src m < N \<or>
      sloppy \<and> background (DemuxKey m))"

fun events_ok :: "int \<Rightarrow> int \<Rightarrow> bool \<Rightarrow> nat \<Rightarrow> (env \<times> event) list \<Rightarrow> bool" where
  "events_ok N i sloppy k [] \<longleftrightarrow> True"
| "events_ok N i sloppy k ((e, ev) # evs) \<longleftrightarrow>
     distinct (peersPerm e) \<and> set (peersPerm e) = {0..<N - 1} \<and> (\<forall>site. valid_order (rangeOrder e site)) \<and>
     (case ev of
        Incoming m \<Rightarrow> well_formed N i sloppy m \<and> events_ok N i sloppy (Suc k) evs
      | TimedOutLockRequest p \<Rightarrow> p < k \<and> events_ok N i sloppy k evs
      | StateQueryReq \<Rightarrow> events_ok N i sloppy k evs)"

lemma run_good:
  assumes "events_ok N i s k evs" "good n" "wiring n = (i, N - 1, s)" "length (cells n) = k"
  shows "s \<and> handleRequests_run evs n = Inl Fatal \<or>
    (\<exists>n'. handleRequests_run evs n = Inr n' \<and> good n' \<and> wiring n' = (i, N - 1, s))"
  using assms
proof (induction evs arbitrary: n k)
  case Nil
  then show ?case by (auto simp: handleRequests_run_def)
next
  case (Cons ee evs)
  obtain e ev where ee: "ee = (e, ev)" by fastforce
  have env: "env_ok e n"
    using Cons.prems(1,3) by (auto simp: ee env_ok_def perm_ok_def wiring_def)
  have "s \<and> handleRequests_step e ev n = Inl Fatal \<or>
      (\<exists>n1. handleRequests_step e ev n = Inr n1 \<and> good n1 \<and> wiring n1 = (i, N - 1, s) \<and>
        events_ok N i s (length (cells n1)) evs)"
  proof (cases ev)
    case (Incoming m)
    then have "msg_ok n m" "background (DemuxKey m) \<longrightarrow> s"
      using Cons.prems(1,3)
      by (auto simp: ee well_formed_def msg_ok_def in_system_def wiring_def background_def)
    with incoming_good [OF Cons.prems(2) env this(1)] Incoming Cons.prems show ?thesis
      by (auto simp: ee)
  next
    case (TimedOutLockRequest p)
    then have "p < length (cells n)" using Cons.prems(1,4) by (auto simp: ee)
    from lock_timeout_good [OF Cons.prems(2) env this] TimedOutLockRequest Cons.prems show ?thesis
      by (auto simp: ee)
  next
    case StateQueryReq
    then show ?thesis
      using Cons.prems by (auto simp: ee good_def frame queue_ok_def wiring_def)
  qed
  with Cons.IH show ?case
    by (fastforce simp: handleRequests_run_def ee)
qed

lemma good_New:
  assumes "0 \<le> i" "i < N" "1 \<le> rqs" "rqs \<le> N" "1 \<le> wqs" "wqs \<le> N"
  shows "good (New h N i False rqs wqs s) \<and> wiring (New h N i False rqs wqs s) = (i, N - 1, s) \<and>
    cells (New h N i False rqs wqs s) = []"
  using assms wired_New [of i N h False rqs wqs s] mem_safe_new
  by (simp add: good_def base_def mode_ok_def queue_ok_def wiring_def memberList_def New_def new_Store_def
      empty_queue_def)

end
