(* ===== verification/Single_Node.thy ===== *)
theory Single_Node
  imports Dbnode_Data
begin

text \<open>
  What the database promises a client, as an abstract key-value service with timestamps, and
  its implementation by a node that is a quorum of its own: the main loop refines the service,
  request by request, on either store.
\<close>

section \<open>The service\<close>

type_synonym kv = "byte list \<Rightarrow> 64 word \<times> byte list"

text \<open>Id, addressee, type, key, value, timestamp and status of an answer.\<close>

type_synonym answer = "int \<times> int \<times> Messagetype \<times> bytes \<times> byte list \<times> 64 word \<times> bool"

definition answer_of :: "Message \<Rightarrow> answer" where
  "answer_of m = (Id' m, Dest m, DemuxKey m, Key m, raw (Value m), Timestamp m, Ok m)"

text \<open>
  A read returns the entry; a write stores the value under the next timestamp; a strong write
  does so if it names that timestamp, and is refused with it otherwise.
\<close>

definition serve_kv :: "Message \<Rightarrow> kv \<Rightarrow> kv \<times> answer" where
  "serve_kv m s =
     (let (t, v) = s (raw (Key m))
      in if DemuxKey m = ClientReadRequest
         then (s, (Id' m, Src m, ClientReadResponse, Key m, v, t, True))
         else if DemuxKey m = ClientStrongWriteRequest \<and> Timestamp m \<noteq> t + 1
         then (s, (Id' m, Src m, ClientWriteResponse, Key m, v, t + 1, False))
         else (s(raw (Key m) := (t + 1, raw (Value m))),
               (Id' m, Src m, ClientWriteResponse, Key m, raw (Value m), t + 1, True)))"

fun serve_all :: "Message list \<Rightarrow> kv \<Rightarrow> kv \<times> answer list" where
  "serve_all [] s = (s, [])"
| "serve_all (m # ms) s =
     (let (s1, a) = serve_kv m s; (s2, as) = serve_all ms s1 in (s2, a # as))"

text \<open>
  A provider: steps on requests with their environment, an abstraction to the data and the
  answers given so far, and a simulation of each request.
\<close>

locale kv_service =
  fixes step :: "'e \<times> Message \<Rightarrow> 's \<Rightarrow> 's res"
    and data :: "'s \<Rightarrow> kv"
    and answers :: "'s \<Rightarrow> answer list"
    and inv :: "'s \<Rightarrow> bool"
    and accepts :: "'e \<times> Message \<Rightarrow> bool"
  assumes simulates: "inv s \<Longrightarrow> accepts em \<Longrightarrow> \<exists>s'. step em s = Inr s' \<and> inv s' \<and>
    data s' = fst (serve_kv (snd em) (data s)) \<and>
    answers s' = answers s @ [snd (serve_kv (snd em) (data s))]"
begin

lemma run_simulates:
  assumes "inv s" "\<forall>em \<in> set ems. accepts em"
  shows "\<exists>s'. fold_res step ems s = Inr s' \<and> inv s' \<and>
    data s' = fst (serve_all (map snd ems) (data s)) \<and>
    answers s' = answers s @ snd (serve_all (map snd ems) (data s))"
  using assms
proof (induction ems arbitrary: s)
  case Nil
  then show ?case by simp
next
  case (Cons em ems)
  obtain s1 where 1: "step em s = Inr s1" "inv s1" "data s1 = fst (serve_kv (snd em) (data s))"
      "answers s1 = answers s @ [snd (serve_kv (snd em) (data s))]"
    using simulates [OF Cons.prems(1), of em] Cons.prems(2) by auto
  obtain s2 where "fold_res step ems s1 = Inr s2" "inv s2"
      "data s2 = fst (serve_all (map snd ems) (data s1))"
      "answers s2 = answers s1 @ snd (serve_all (map snd ems) (data s1))"
    using Cons.IH [OF 1(2)] Cons.prems(2) by auto
  with 1 show ?case by (auto simp: Let_def split_beta)
qed

end

section \<open>A node with quorums of size 1\<close>

definition alone :: "int \<Rightarrow> Dbnode \<Rightarrow> bool" where
  "alone i n \<longleftrightarrow> node_ok n \<and> dbid n = i \<and> readQuorumSize n = 1 \<and> writeQuorumSize n = 1 \<and>
     raw (uncommitedKey n) = [] \<and> \<not> disabled n \<and> queue_empty (lockRequests n)"

definition client_call :: "int \<Rightarrow> env \<times> Message \<Rightarrow> bool" where
  "client_call i = (\<lambda>(e, m). calm e \<and> Dest m = i \<and> client_request_type (DemuxKey m) \<and> fits (Key m) (Value m))"

definition client_step :: "env \<times> Message \<Rightarrow> Dbnode \<Rightarrow> Dbnode res" where
  "client_step = (\<lambda>(e, m). handleRequests_step e (Incoming m))"

lemma alone_New: "alone i (New h N i b 1 1 s)" "lookup (New h N i b 1 1 s) = (\<lambda>_. (0, []))"
  "Outgoing (New h N i b 1 1 s) = []"
  using node_ok_New [of h N i b 1 1 s]
  by (auto simp: alone_def New_def queue_empty_def empty_queue_def)

text \<open>Local requests touch the store and the outgoing link only.\<close>

lemma local_frame:
  "processLocalRead e m n = Inr n' \<Longrightarrow> \<exists>st out. n' = n\<lparr>dstore := st, Outgoing := out\<rparr>"
  "processLocalWrite e m n = Inr n' \<Longrightarrow> \<exists>st out. n' = n\<lparr>dstore := st, Outgoing := out\<rparr>"
proof -
  have keep: "n = n\<lparr>dstore := dstore n, Outgoing := Outgoing n\<rparr>" by simp
  have out: "\<exists>st out. n\<lparr>Outgoing := o'\<rparr> = n\<lparr>dstore := st, Outgoing := out\<rparr>" for o'
    by (rule exI [of _ "dstore n"]) auto
  have both: "\<exists>st out. n\<lparr>dstore := s, Outgoing := o'\<rparr> = n\<lparr>dstore := st, Outgoing := out\<rparr>" for s o'
    by blast
  show "processLocalRead e m n = Inr n' \<Longrightarrow> \<exists>st out. n' = n\<lparr>dstore := st, Outgoing := out\<rparr>"
    using out by (auto simp: processLocalRead_def emit_def split: if_splits)
  show "processLocalWrite e m n = Inr n' \<Longrightarrow> \<exists>st out. n' = n\<lparr>dstore := st, Outgoing := out\<rparr>"
    using out both by (auto simp: processLocalWrite_def emit_def Let_def split: if_splits prod.splits)
qed

lemma alone_frame:
  assumes "alone i n" "node_ok n'" "n' = n\<lparr>dstore := st, Outgoing := out\<rparr>"
  shows "alone i n'"
  using assms by (simp add: alone_def)

lemma local_request:
  assumes "alone i n" "calm e" "client_request_type (DemuxKey m)" "fits (Key m) (Value m)"
  shows "\<exists>n'. (if DemuxKey m = ClientReadRequest then processLocalRead e m n else processLocalWrite e m n) = Inr n' \<and>
    alone i n' \<and> lookup n' = fst (serve_kv m (lookup n)) \<and>
    map answer_of (Outgoing n') = map answer_of (Outgoing n) @ [snd (serve_kv m (lookup n))]"
proof (cases "DemuxKey m = ClientReadRequest")
  case True
  have n: "node_ok n" "raw (uncommitedKey n) = []" using assms(1) by (simp_all add: alone_def)
  obtain t v where tv: "lookup n (raw (Key m)) = (t, v)" by fastforce
  obtain x where x: "processLocalRead e m n = Inr (emit (zeroMessage\<lparr>Id' := Id' m, Src := dbid n,
      Dest := Src m, DemuxKey := ClientReadResponse, Key := Key m, Value := x, Timestamp := t,
      Ok := True\<rparr>) n)" "raw x = v"
    using processLocalRead_lookup [OF n(1) assms(2) n(2), of m] tv by auto
  have "alone i (emit a n)" for a
    using assms(1) by (simp add: alone_def) (simp add: emit_def)
  with True x tv show ?thesis
    by (auto simp: serve_kv_def answer_of_def) (simp add: emit_def answer_of_def)
next
  case False
  have n: "node_ok n" "raw (uncommitedKey n) = []" using assms(1) by (simp_all add: alone_def)
  obtain t v where tv: "lookup n (raw (Key m)) = (t, v)" by fastforce
  obtain n' x where w: "processLocalWrite e m n = Inr n'" "node_ok n'"
    "if DemuxKey m = ClientStrongWriteRequest \<and> Timestamp m \<noteq> t + 1
     then lookup n' = lookup n \<and> raw x = v \<and> Outgoing n' = Outgoing n @ [local_write_answer m n x (t + 1) False]
     else lookup n' = (lookup n)(raw (Key m) := (t + 1, raw (Value m))) \<and>
       Outgoing n' = Outgoing n @ [local_write_answer m n (Value m) (t + 1) True]"
    using processLocalWrite_lookup [OF n(1) assms(2) n(2) assms(4)] tv by auto
  have "alone i n'" using local_frame(2) [OF w(1)] alone_frame [OF assms(1) w(2)] by blast
  with False w tv show ?thesis
    by (cases "DemuxKey m = ClientStrongWriteRequest \<and> Timestamp m \<noteq> t + 1")
      (auto simp: serve_kv_def answer_of_def local_write_answer_def)
qed

lemma client_step_simulates:
  assumes "alone i n" "client_call i em"
  shows "\<exists>n'. client_step em n = Inr n' \<and> alone i n' \<and> lookup n' = fst (serve_kv (snd em) (lookup n)) \<and>
    map answer_of (Outgoing n') = map answer_of (Outgoing n) @ [snd (serve_kv (snd em) (lookup n))]"
proof -
  obtain e m where em: "em = (e, m)" by fastforce
  let ?n = "n\<lparr>cells := cells n @ [m], timeoutCounter := timeoutCounter n + 1\<rparr>"
  have m: "calm e" "Dest m = i" "client_request_type (DemuxKey m)" "fits (Key m) (Value m)"
    using assms(2) by (auto simp: client_call_def em)
  have l: "lookup ?n = lookup n" "node_ok ?n = node_ok n"
    using lookup_cong [of ?n n] by simp_all
  have "alone i ?n" using assms(1) by (simp add: alone_def l)
  from local_request [OF this m(1,3,4)] obtain n' where n': "alone i n'"
    "(if DemuxKey m = ClientReadRequest then processLocalRead e m ?n else processLocalWrite e m ?n) = Inr n'"
    "lookup n' = fst (serve_kv m (lookup n))"
    "map answer_of (Outgoing n') = map answer_of (Outgoing n) @ [snd (serve_kv m (lookup n))]"
    unfolding l by auto
  have d: "dispatch e p m ?n =
      (if DemuxKey m = ClientReadRequest then processLocalRead e m ?n else processLocalWrite e m ?n)" for p
    using assms(1) m(3) by (auto simp: dispatch_def alone_def client_request_type_def)
  have s: "serve e p n' = Inr n'" for p
    using n'(1) by (simp add: serve_def alone_def)
  have "on_incoming e m n = Inr n'"
    using assms(1) m(2,3) d n'(2) s
    by (auto simp: on_incoming_def alloc_def on_timer_def alone_def client_request_type_def Let_def)
  with n' show ?thesis by (simp add: client_step_def em)
qed

interpretation single: kv_service client_step lookup "\<lambda>n. map answer_of (Outgoing n)" "alone i" "client_call i"
  for i
  by unfold_locales (rule client_step_simulates)

end
