(* ===== verification/Props_Service.thy ===== *)
theory Props_Service
  imports Dbnode_Safety Single_Node
begin

text \<open>The main loop as a whole: it never crashes, and alone it implements the service.\<close>

definition plain_env :: env where
  "plain_env = \<lparr>leaderAnswer = 0, peersPerm = [1, 0], rangeOrder = (\<lambda>_. in_order), getIO = no_fault,
     putIO = no_fault, commitIO = no_fault, rollbackIO = no_fault\<rparr>"

text \<open>C14: a node never panics. Started on the in-memory store with quorums of accepted sizes, its
  main loop does not crash in any run of well-formed events, in whatever order requests, answers,
  background writes, timeouts, elections, failures and recoveries arrive; the one exception is
  that with sloppy quorums the consistency check of a background write may stop the process. In
  every state the quorum members are nodes of the system, and every stored or staged value
  carries a timestamp.\<close>

theorem node_never_crashes:
  assumes "0 \<le> i" "i < N" "1 \<le> rqs" "rqs \<le> N" "1 \<le> wqs" "wqs \<le> N" "events_ok N i s 0 evs"
  shows "s \<and> handleRequests_run evs (New h N i False rqs wqs s) = Inl Fatal \<or>
    (\<exists>n. handleRequests_run evs (New h N i False rqs wqs s) = Inr n \<and>
      fst ` set (memberList n) \<subseteq> {0..<N} \<and> (\<exists>st. dstore n = Mem st \<and> mem_safe st))"
proof -
  let ?n = "New h N i False rqs wqs s"
  have "good ?n" "wiring ?n = (i, N - 1, s)" "length (cells ?n) = 0"
    using good_New [OF assms(1-6), of h s] by simp_all
  note run_good [OF assms(7) this]
  moreover have "fst ` set (memberList n) \<subseteq> {0..<N} \<and> (\<exists>st. dstore n = Mem st \<and> mem_safe st)"
    if "good n" "wiring n = (i, N - 1, s)" for n
  proof -
    have "base n" "numPeers n = N - 1" using that by (simp_all add: good_def wiring_def)
    then show ?thesis by (fastforce simp: base_def)
  qed
  ultimately show ?thesis by blast
qed

definition plain_msg :: "int \<Rightarrow> int \<Rightarrow> Messagetype \<Rightarrow> Message" where
  "plain_msg i src k = zeroMessage\<lparr>Id' := i, Src := src, Dest := 0, DemuxKey := k, Key := Some [1], Ok := True\<rparr>"

text \<open>A read, a lock request behind it, an answer, a failure, a late timeout and a recovery.\<close>

definition plain_events :: "(env \<times> event) list" where
  "plain_events = map (Pair plain_env)
     [Incoming (plain_msg 5 3 ClientReadRequest), Incoming (plain_msg 6 1 NodeLockRequestNoTimeout),
      Incoming (plain_msg 5 1 NodeGetResponse), StateQueryReq, TimedOutLockRequest 1,
      Incoming (plain_msg 6 1 ControlFail), Incoming (plain_msg 6 1 NodePutRequest),
      Incoming (plain_msg 6 1 ControlRecover)]"

theorem node_never_crashes_ex:
  "\<exists>n. handleRequests_run plain_events (New (\<lambda>_. []) 3 0 False 2 2 False) = Inr n \<and> fst ` set (memberList n) \<subseteq> {0..<3}"
proof -
  have "events_ok 3 0 False 0 plain_events"
    by (auto simp: plain_events_def plain_env_def plain_msg_def well_formed_def zeroMessage_def)
  with node_never_crashes [of 0 3 2 2 False plain_events "\<lambda>_. []"] show ?thesis by auto
qed

text \<open>C15: a node that is a quorum of its own implements the key-value service. Its main loop,
  from a fresh store of either kind, answers every sequence of client requests exactly as the
  abstract service does, and holds the data the service holds.\<close>

theorem single_node_refines_service:
  assumes "\<forall>em \<in> set ems. client_call i em"
  shows "\<exists>n. handleRequests_run (map (\<lambda>(e, m). (e, Incoming m)) ems) (New h N i b 1 1 s) = Inr n \<and>
    lookup n = fst (serve_all (map snd ems) (\<lambda>_. (0, []))) \<and>
    map answer_of (Outgoing n) = snd (serve_all (map snd ems) (\<lambda>_. (0, [])))"
proof -
  have run: "handleRequests_run (map (\<lambda>(e, m). (e, Incoming m)) ems) n = fold_res client_step ems n" for n
    by (induction ems arbitrary: n) (auto simp: handleRequests_run_def client_step_def intro!: bind_res_cong)
  show ?thesis
    using single.run_simulates [OF alone_New(1) [of i h N b s] assms]
    unfolding run by (auto simp: alone_New)
qed

definition plain_write :: "Messagetype \<Rightarrow> 64 word \<Rightarrow> byte \<Rightarrow> Message" where
  "plain_write k ts v = (plain_msg 8 1 k)\<lparr>Value := Some [v], Timestamp := ts\<rparr>"

theorem single_node_refines_service_ex:
  "\<exists>n. handleRequests_run (map (\<lambda>m. (plain_env, Incoming m))
       [plain_write ClientWriteRequest 0 7, plain_write ClientStrongWriteRequest 5 8,
        plain_write ClientStrongWriteRequest 2 9]) (New (\<lambda>_. []) 1 0 True 1 1 False) = Inr n \<and>
     lookup n [1] = (2, [9])"
proof -
  let ?ms = "[plain_write ClientWriteRequest 0 7, plain_write ClientStrongWriteRequest 5 8,
        plain_write ClientStrongWriteRequest 2 9]"
  have "\<forall>em \<in> set (map (Pair plain_env) ?ms). client_call 0 em"
    by (auto simp: client_call_def calm_def plain_env_def plain_write_def plain_msg_def zeroMessage_def
        client_request_type_def fits_def)
  from single_node_refines_service [OF this, of "\<lambda>_. []" 1 True False]
  show ?thesis
    by (auto simp: serve_kv_def plain_write_def plain_msg_def zeroMessage_def)
qed

end
