(* ===== verification/Client.thy ===== *)
theory Client
  imports Packet
begin

text \<open>
  \<open>src/net/client.go\<close>: the client of the database. A request is tried up to \<open>numAttempts\<close>
  times, each try under a new id from \<open>idStream\<close>, with a response channel of capacity 1 that
  the goroutine \<open>routeResponses\<close> finds by the id. Requests run concurrently: what happens
  between the sending of a request and the end of its \<open>select\<close> is a list of events.
\<close>

section \<open>State\<close>

datatype PutResponse = Error | Success | Unknown

fun PutResponse_String :: "PutResponse \<Rightarrow> string" where
  "PutResponse_String Error = ''error''"
| "PutResponse_String Success = ''success''"
| "PutResponse_String Unknown = ''unknown''"

text \<open>
  \<open>responseChans\<close> maps an id to the contents of its channel. \<open>routing\<close> is the message
  \<open>routeResponses\<close> is blocked on, when the channel it belongs to is full. \<open>requests\<close> logs
  what was sent on the \<open>Outgoing\<close> links of the nodes.
\<close>

record client =
  numNodes :: int
  numAttempts :: int
  responseChans :: "(int \<times> Message list) list"
  routing :: "Message option"
  requests :: "Message list"

definition NewClient :: "int \<Rightarrow> int \<Rightarrow> client" where
  "NewClient len_nodes attempts =
     \<lparr>numNodes = len_nodes - 1, numAttempts = attempts, responseChans = [], routing = None,
      requests = []\<rparr>"

definition chan :: "client \<Rightarrow> int \<Rightarrow> Message list option" where
  "chan c i = map_of (responseChans c) i"

definition set_chan :: "int \<Rightarrow> Message list \<Rightarrow> client \<Rightarrow> client" where
  "set_chan i ms c = c\<lparr>responseChans := AList.update i ms (responseChans c)\<rparr>"

definition delete_chan :: "int \<Rightarrow> client \<Rightarrow> client" where
  "delete_chan i c = c\<lparr>responseChans := AList.delete i (responseChans c)\<rparr>"

section \<open>Routing of responses\<close>

text \<open>One iteration of \<open>routeResponses\<close>; while it is blocked, nothing is taken from the link.\<close>

definition routeResponses :: "Message \<Rightarrow> client \<Rightarrow> client" where
  "routeResponses msg c =
     (if routing c \<noteq> None then c
      else case chan c (Id' msg) of
        None \<Rightarrow> c
      | Some [] \<Rightarrow> set_chan (Id' msg) [msg] c
      | Some _ \<Rightarrow> c\<lparr>routing := Some msg\<rparr>)"

text \<open>Receiving from a channel with a buffered message: a sender blocked on it proceeds.\<close>

definition receive_chan :: "int \<Rightarrow> client \<Rightarrow> client" where
  "receive_chan i c =
     (case chan c i of
        Some (m # ms) \<Rightarrow>
          (case routing c of
             Some m' \<Rightarrow> if Id' m' = i then (set_chan i (ms @ [m']) c)\<lparr>routing := None\<rparr>
                        else set_chan i ms c
           | None \<Rightarrow> set_chan i ms c)
      | _ \<Rightarrow> c)"

text \<open>What happens while a request waits: a response arrives, or another request acts.\<close>

datatype client_event = Routed Message | Stored int | Received int | Deleted int

fun client_event_step :: "client_event \<Rightarrow> client \<Rightarrow> client" where
  "client_event_step (Routed m) c = routeResponses m c"
| "client_event_step (Stored i) c = set_chan i [] c"
| "client_event_step (Received i) c = receive_chan i c"
| "client_event_step (Deleted i) c = delete_chan i c"

section \<open>Requests\<close>

text \<open>
  An attempt reads from outside its id, the random coordinator, the events up to its
  \<open>select\<close>, and whether \<open>select\<close> chooses the timer when a response is there as well.
\<close>

record attempt =
  a_id :: int
  a_dest :: int
  a_events :: "client_event list"
  a_timer :: bool

definition read_request :: "client \<Rightarrow> bytes \<Rightarrow> attempt \<Rightarrow> Message" where
  "read_request c key a =
     zeroMessage\<lparr>Id' := a_id a, Src := numNodes c, Dest := a_dest a, DemuxKey := ClientReadRequest,
       Key := key, Ok := True\<rparr>"

definition write_request :: "client \<Rightarrow> bytes \<Rightarrow> bytes \<Rightarrow> bool \<Rightarrow> 64 word \<Rightarrow> attempt \<Rightarrow> Message" where
  "write_request c key val strong ts a =
     zeroMessage\<lparr>Id' := a_id a, Src := numNodes c, Dest := a_dest a,
       DemuxKey := (if strong then ClientStrongWriteRequest else ClientWriteRequest),
       Key := key, Value := val, Timestamp := ts, Ok := True\<rparr>"

text \<open>From storing the channel to the end of \<open>select\<close>; \<open>None\<close> is the timer.\<close>

definition attempt_answer :: "Message \<Rightarrow> attempt \<Rightarrow> client \<Rightarrow> Message option \<times> client" where
  "attempt_answer req a c =
     (let c1 = (set_chan (a_id a) [] c)\<lparr>requests := requests c @ [req]\<rparr>;
          c2 = fold client_event_step (a_events a) c1
      in case chan c2 (a_id a) of
           Some (m # _) \<Rightarrow> if a_timer a then (None, c2) else (Some m, receive_chan (a_id a) c2)
         | _ \<Rightarrow> (None, c2))"

fun get_loop :: "bytes \<Rightarrow> attempt list \<Rightarrow> client \<Rightarrow> (bytes \<times> 64 word \<times> bool) \<times> client" where
  "get_loop key [] c = ((None, 0, False), c)"
| "get_loop key (a # as) c =
     (case attempt_answer (read_request c key a) a c of
        (Some m, c1) \<Rightarrow>
          if Ok m then ((Value m, Timestamp m, True), c1)
          else get_loop key as (delete_chan (a_id a) c1)
      | (None, c1) \<Rightarrow> get_loop key as c1)"

definition Client_Get :: "bytes \<Rightarrow> (nat \<Rightarrow> attempt) \<Rightarrow> client \<Rightarrow> (bytes \<times> 64 word \<times> bool) \<times> client" where
  "Client_Get key s c = get_loop key (map s [0..<nat (numAttempts c)]) c"

text \<open>\<open>resType\<close> is the outcome of the last attempt so far.\<close>

fun put_loop ::
  "bytes \<Rightarrow> bytes \<Rightarrow> bool \<Rightarrow> 64 word \<Rightarrow> PutResponse \<Rightarrow> attempt list \<Rightarrow> client \<Rightarrow>
   (PutResponse \<times> 64 word) \<times> client" where
  "put_loop key val strong ts resType [] c = ((resType, 0), c)"
| "put_loop key val strong ts resType (a # as) c =
     (case attempt_answer (write_request c key val strong ts a) a c of
        (Some m, c1) \<Rightarrow>
          if Ok m then ((Success, Timestamp m), c1)
          else put_loop key val strong ts Error as (delete_chan (a_id a) c1)
      | (None, c1) \<Rightarrow> put_loop key val strong ts Unknown as c1)"

definition Client_put ::
  "bytes \<Rightarrow> bytes \<Rightarrow> bool \<Rightarrow> 64 word \<Rightarrow> (nat \<Rightarrow> attempt) \<Rightarrow> client \<Rightarrow> (PutResponse \<times> 64 word) \<times> client" where
  "Client_put key val strong ts s c =
     put_loop key val strong ts Error (map s [0..<nat (numAttempts c)]) c"

definition Client_Put :: "bytes \<Rightarrow> bytes \<Rightarrow> (nat \<Rightarrow> attempt) \<Rightarrow> client \<Rightarrow> (PutResponse \<times> 64 word) \<times> client" where
  "Client_Put key val s c = Client_put key val False 0 s c"

definition Client_StrongPut ::
  "bytes \<Rightarrow> bytes \<Rightarrow> 64 word \<Rightarrow> (nat \<Rightarrow> attempt) \<Rightarrow> client \<Rightarrow> (PutResponse \<times> 64 word) \<times> client" where
  "Client_StrongPut key val timestamp s c = Client_put key val True timestamp s c"

section \<open>Channels\<close>

lemma chan_simps [simp]:
  "chan (set_chan i ms c) k = (if k = i then Some ms else chan c k)"
  "chan (delete_chan i c) k = (if k = i then None else chan c k)"
  "chan (c\<lparr>requests := rs\<rparr>) k = chan c k" "chan (c\<lparr>routing := r\<rparr>) k = chan c k"
  by (simp_all add: chan_def set_chan_def delete_chan_def AList.update_conv' AList.delete_conv')

lemma set_chan_fields [simp]:
  "requests (set_chan i ms c) = requests c" "routing (set_chan i ms c) = routing c"
  "numNodes (set_chan i ms c) = numNodes c" "numAttempts (set_chan i ms c) = numAttempts c"
  "requests (delete_chan i c) = requests c" "routing (delete_chan i c) = routing c"
  "numNodes (delete_chan i c) = numNodes c" "numAttempts (delete_chan i c) = numAttempts c"
  by (simp_all add: set_chan_def delete_chan_def)

lemma event_fields [simp]:
  "requests (client_event_step ev c) = requests c" "numNodes (client_event_step ev c) = numNodes c"
  by (cases ev; auto simp: routeResponses_def receive_chan_def split: option.splits list.splits)+

lemma events_fields [simp]:
  "requests (fold client_event_step evs c) = requests c"
  "numNodes (fold client_event_step evs c) = numNodes c"
  by (induction evs arbitrary: c) simp_all

lemma receive_fields [simp]:
  "requests (receive_chan i c) = requests c" "numNodes (receive_chan i c) = numNodes c"
  by (auto simp: receive_chan_def split: option.splits list.splits)

text \<open>The other requests leave the channel of id \<open>i\<close> alone.\<close>

fun leaves :: "int \<Rightarrow> client_event \<Rightarrow> bool" where
  "leaves i (Routed m) = True"
| "leaves i (Stored k) = (k \<noteq> i)"
| "leaves i (Received k) = (k \<noteq> i)"
| "leaves i (Deleted k) = (k \<noteq> i)"

text \<open>What a channel holds was routed to it since it was made.\<close>

definition routed_to :: "int \<Rightarrow> client_event list \<Rightarrow> Message \<Rightarrow> bool" where
  "routed_to i evs m \<longleftrightarrow> Routed m \<in> set evs \<and> Id' m = i"

lemma chan_event:
  assumes "leaves i ev" "chan c i = Some ms" "\<forall>m \<in> set ms. P m"
    and "\<And>m. ev = Routed m \<Longrightarrow> Id' m = i \<Longrightarrow> P m"
  shows "\<exists>ms'. chan (client_event_step ev c) i = Some ms' \<and> (\<forall>m \<in> set ms'. P m)"
  using assms by (cases ev) (auto simp: routeResponses_def receive_chan_def split: option.splits list.splits)

lemma chan_events:
  assumes "list_all (leaves i) evs" "chan c i = Some ms" "\<forall>m \<in> set ms. P m"
    and "\<And>m. routed_to i evs m \<Longrightarrow> P m"
  shows "\<exists>ms'. chan (fold client_event_step evs c) i = Some ms' \<and> (\<forall>m \<in> set ms'. P m)"
  using assms
proof (induction evs arbitrary: c ms)
  case Nil
  then show ?case by simp
next
  case (Cons ev evs)
  have "\<exists>ms'. chan (client_event_step ev c) i = Some ms' \<and> (\<forall>m \<in> set ms'. P m)"
    by (rule chan_event) (use Cons.prems in \<open>auto simp: routed_to_def\<close>)
  then obtain ms' where "chan (client_event_step ev c) i = Some ms'" "\<forall>m \<in> set ms'. P m"
    by blast
  from Cons.IH [OF _ this] Cons.prems(1,4) show ?case by (auto simp: routed_to_def)
qed

section \<open>Attempts\<close>

lemma attempt_answer_Some:
  assumes "attempt_answer req a c = (Some m, c')" "list_all (leaves (a_id a)) (a_events a)"
  shows "routed_to (a_id a) (a_events a) m"
proof -
  have "\<exists>ms. chan (fold client_event_step (a_events a)
      ((set_chan (a_id a) [] c)\<lparr>requests := requests c @ [req]\<rparr>)) (a_id a) = Some ms \<and>
    (\<forall>m \<in> set ms. routed_to (a_id a) (a_events a) m)"
    by (rule chan_events [OF assms(2)]) auto
  with assms(1) show ?thesis
    by (auto simp: attempt_answer_def Let_def split: option.splits list.splits if_splits)
qed

lemma attempt_answer_fields [simp]:
  "requests (snd (attempt_answer req a c)) = requests c @ [req]"
  "numNodes (snd (attempt_answer req a c)) = numNodes c"
  by (auto simp: attempt_answer_def Let_def split: option.split list.split)

lemma attempt_answer_fieldsD:
  "attempt_answer req a c = (r, c') \<Longrightarrow> requests c' = requests c @ [req] \<and> numNodes c' = numNodes c"
  using attempt_answer_fields [of req a c] by simp

text \<open>An attempt whose response does not arrive leaves its channel behind.\<close>

lemma attempt_unanswered:
  assumes "list_all (leaves (a_id a)) (a_events a)" "\<And>m. \<not> routed_to (a_id a) (a_events a) m"
  shows "\<exists>c'. attempt_answer req a c = (None, c') \<and> chan c' (a_id a) = Some []"
proof -
  have "\<exists>ms'. chan (fold client_event_step (a_events a)
      ((set_chan (a_id a) [] c)\<lparr>requests := requests c @ [req]\<rparr>)) (a_id a) = Some ms' \<and>
      (\<forall>m \<in> set ms'. False)"
    by (rule chan_events [OF assms(1)]) (use assms(2) in auto)
  then show ?thesis by (auto simp: attempt_answer_def Let_def)
qed

section \<open>Requests\<close>

lemma get_loop_result:
  assumes "get_loop key as c = ((v, ts, ok), c')" "\<forall>a \<in> set as. list_all (leaves (a_id a)) (a_events a)"
  shows "\<exists>k. k \<le> length as \<and> requests c' = requests c @ map (read_request c key) (take k as) \<and>
    (if ok then 0 < k \<and> (\<exists>m. routed_to (a_id (as ! (k - 1))) (a_events (as ! (k - 1))) m \<and> Ok m \<and>
        v = Value m \<and> ts = Timestamp m)
     else k = length as \<and> v = None \<and> ts = 0)"
  using assms
proof (induction as arbitrary: c)
  case Nil
  then show ?case by auto
next
  case (Cons a as)
  obtain r c1 where a: "attempt_answer (read_request c key a) a c = (r, c1)" by fastforce
  note f = attempt_answer_fieldsD [OF a]
  show ?case
  proof (cases "\<exists>m. r = Some m \<and> Ok m")
    case True
    then obtain m where m: "r = Some m" "Ok m" by blast
    with Cons.prems a have "routed_to (a_id a) (a_events a) m"
      by (auto dest!: attempt_answer_Some)
    with Cons.prems a m f show ?thesis by (auto intro!: exI [of _ 1])
  next
    case False
    then obtain c2 where rec: "get_loop key as c2 = ((v, ts, ok), c')"
      and c2: "requests c2 = requests c1" "numNodes c2 = numNodes c1"
      using Cons.prems(1) a by (cases r) auto
    have "read_request c2 key = read_request c key"
      using c2 f by (simp add: read_request_def fun_eq_iff)
    with Cons.IH [OF rec] Cons.prems(2) f c2 obtain k where
      k: "k \<le> length as" "requests c' = (requests c @ [read_request c key a]) @ map (read_request c key) (take k as)"
      and "if ok then 0 < k \<and> (\<exists>m. routed_to (a_id (as ! (k - 1))) (a_events (as ! (k - 1))) m \<and> Ok m \<and>
          v = Value m \<and> ts = Timestamp m) else k = length as \<and> v = None \<and> ts = 0"
      by auto
    then show ?thesis by (intro exI [of _ "Suc k"]) (auto split: if_splits simp: nth_Cons')
  qed
qed

lemma put_loop_result:
  assumes "put_loop key val strong ts r0 as c = ((r, t), c')"
    and "\<forall>a \<in> set as. list_all (leaves (a_id a)) (a_events a)"
    and "r0 \<noteq> Success"
  shows "\<exists>k. k \<le> length as \<and>
    requests c' = requests c @ map (write_request c key val strong ts) (take k as) \<and>
    (if r = Success then 0 < k \<and>
       (\<exists>m. routed_to (a_id (as ! (k - 1))) (a_events (as ! (k - 1))) m \<and> Ok m \<and> t = Timestamp m)
     else k = length as \<and> t = 0)"
  using assms
proof (induction as arbitrary: c r0)
  case Nil
  then show ?case by auto
next
  case (Cons a as)
  obtain x c1 where a: "attempt_answer (write_request c key val strong ts a) a c = (x, c1)" by fastforce
  note f = attempt_answer_fieldsD [OF a]
  show ?case
  proof (cases "\<exists>m. x = Some m \<and> Ok m")
    case True
    then obtain m where m: "x = Some m" "Ok m" by blast
    with Cons.prems a have "routed_to (a_id a) (a_events a) m"
      by (auto dest!: attempt_answer_Some)
    with Cons.prems a m f show ?thesis by (auto intro!: exI [of _ 1])
  next
    case False
    then obtain c2 r1 where rec: "put_loop key val strong ts r1 as c2 = ((r, t), c')" "r1 \<noteq> Success"
      and c2: "requests c2 = requests c1" "numNodes c2 = numNodes c1"
      using Cons.prems(1) a by (cases x) auto
    have "write_request c2 key val strong ts = write_request c key val strong ts"
      using c2 f by (simp add: write_request_def fun_eq_iff)
    with Cons.IH [OF rec(1) _ rec(2)] Cons.prems(2) f c2 obtain k where
      k: "k \<le> length as" "requests c' = (requests c @ [write_request c key val strong ts a]) @
        map (write_request c key val strong ts) (take k as)"
      and "if r = Success then 0 < k \<and>
       (\<exists>m. routed_to (a_id (as ! (k - 1))) (a_events (as ! (k - 1))) m \<and> Ok m \<and> t = Timestamp m)
     else k = length as \<and> t = 0"
      by auto
    then show ?thesis by (intro exI [of _ "Suc k"]) (auto split: if_splits simp: nth_Cons')
  qed
qed

section \<open>A blocked router\<close>

text \<open>The router is blocked on the channel of \<open>i\<close>, which nobody will receive from again.\<close>

definition wedged :: "int \<Rightarrow> client \<Rightarrow> bool" where
  "wedged i c \<longleftrightarrow> (\<exists>m. routing c = Some m \<and> Id' m = i)"

lemma wedge:
  assumes "routing c = None" "chan c i = Some []" "Id' m1 = i" "Id' m2 = i"
  shows "wedged i (routeResponses m2 (routeResponses m1 c))"
  using assms by (auto simp: wedged_def routeResponses_def)

fun never_received :: "int \<Rightarrow> client_event \<Rightarrow> bool" where
  "never_received i (Received k) = (k \<noteq> i)"
| "never_received i ev = True"

lemma wedged_event:
  assumes "wedged i c" "never_received i ev" "leaves k ev" "chan c k = Some []"
  shows "wedged i (client_event_step ev c) \<and> chan (client_event_step ev c) k = Some []"
  using assms
  by (cases ev) (auto simp: wedged_def routeResponses_def receive_chan_def split: option.splits list.splits)

lemma wedged_events:
  assumes "wedged i c" "list_all (never_received i) evs" "list_all (leaves k) evs" "chan c k = Some []"
  shows "wedged i (fold client_event_step evs c) \<and> chan (fold client_event_step evs c) k = Some []"
  using assms by (induction evs arbitrary: c) (auto dest: wedged_event)

lemma wedged_attempt:
  assumes "wedged i c" "list_all (never_received i) (a_events a)" "list_all (leaves (a_id a)) (a_events a)"
  shows "\<exists>c'. attempt_answer req a c = (None, c') \<and> wedged i c'"
proof -
  let ?c = "(set_chan (a_id a) [] c)\<lparr>requests := requests c @ [req]\<rparr>"
  have "wedged i ?c" "chan ?c (a_id a) = Some []" using assms(1) by (auto simp: wedged_def)
  from wedged_events [OF this(1) assms(2,3) this(2)] show ?thesis
    by (simp add: attempt_answer_def Let_def)
qed

lemma wedged_get_loop:
  assumes "wedged i c"
    and "\<forall>a \<in> set as. list_all (never_received i) (a_events a) \<and> list_all (leaves (a_id a)) (a_events a)"
  shows "fst (get_loop key as c) = (None, 0, False)"
  using assms
proof (induction as arbitrary: c)
  case (Cons a as)
  then obtain c' where "attempt_answer (read_request c key a) a c = (None, c')" "wedged i c'"
    using wedged_attempt by fastforce
  with Cons show ?case by simp
qed simp

end
