(* ===== verification/Locker.thy ===== *)
theory Locker
  imports Client Strconv
begin

text \<open>
  \<open>src/net/locker.go\<close>: a distributed lock on top of strong writes to one key. The lock is
  held by the client whose id is stored under an odd timestamp, and free under an even one.
  Each \<open>ClientLocker\<close> has a daemon that reads the key and tries to write it; \<open>Lock\<close> and
  \<open>Unlock\<close> set a flag and wait for the daemon.

  The lockers run against the register that the quorum protocol provides: a strong write takes
  effect when its timestamp is the next one. Its request may be delayed, repeated or lost, its
  outcome may not reach the client, and reads may be stale.
\<close>

section \<open>A locker\<close>

text \<open>
  Where the daemon is: in \<open>Get\<close> (or asleep), or in one of its two calls of \<open>StrongPut\<close>, with
  the number of the call, the value and the timestamp. Where the user of the locker is.
\<close>

datatype daemon_pc = Getting | Releasing nat bytes "64 word" | Acquiring nat bytes "64 word"
datatype user = Outside | Locking | Inside | Unlocking

record ClientLocker =
  wantLock :: bool
  haveLock :: bool
  lockResChan :: bool
  unlockResChan :: bool
  daemon_at :: daemon_pc
  user_at :: user

definition NewClientLocker :: ClientLocker where
  "NewClientLocker = \<lparr>wantLock = False, haveLock = False, lockResChan = False,
     unlockResChan = False, daemon_at = Getting, user_at = Outside\<rparr>"

definition locker_key :: bytes where
  "locker_key = Some [1, 0]"

text \<open>The daemon once \<open>Get\<close> has returned; \<open>k\<close> numbers its call of \<open>StrongPut\<close>.\<close>

definition daemon_read :: "int \<Rightarrow> nat \<Rightarrow> bytes \<Rightarrow> 64 word \<Rightarrow> bool \<Rightarrow> ClientLocker \<Rightarrow> ClientLocker" where
  "daemon_read i k val ts ok cl =
     (if \<not> ok then cl
      else let nodeId = fst (atoi (raw val))
      in if ts mod 2 = 1 \<and> nodeId = i \<and> \<not> wantLock cl
         then cl\<lparr>haveLock := True, daemon_at := Releasing k val (ts + 1)\<rparr>
         else if ts mod 2 = 0 \<and> wantLock cl
         then cl\<lparr>daemon_at := Acquiring k (Some (itoa i)) (ts + 1)\<rparr>
         else cl)"

text \<open>The daemon once \<open>StrongPut\<close> has returned; sending on the channel ends the user's call.\<close>

definition daemon_result :: "PutResponse \<Rightarrow> ClientLocker \<Rightarrow> ClientLocker" where
  "daemon_result res cl =
     (case daemon_at cl of
        Getting \<Rightarrow> cl
      | Releasing k v t \<Rightarrow>
          if res = Success
          then if unlockResChan cl
               then cl\<lparr>haveLock := False, unlockResChan := False, daemon_at := Getting, user_at := Outside\<rparr>
               else cl\<lparr>haveLock := False, daemon_at := Getting\<rparr>
          else cl\<lparr>daemon_at := Getting\<rparr>
      | Acquiring k v t \<Rightarrow>
          if res = Success
          then if lockResChan cl
               then cl\<lparr>haveLock := True, lockResChan := False, daemon_at := Getting, user_at := Inside\<rparr>
               else cl\<lparr>haveLock := True, daemon_at := Getting\<rparr>
          else cl\<lparr>daemon_at := Getting\<rparr>)"

definition Locker_Lock :: "ClientLocker \<Rightarrow> ClientLocker" where
  "Locker_Lock cl = cl\<lparr>lockResChan := True, wantLock := True, user_at := Locking\<rparr>"

definition Locker_Unlock :: "ClientLocker \<Rightarrow> ClientLocker" where
  "Locker_Unlock cl = cl\<lparr>unlockResChan := True, wantLock := False, user_at := Unlocking\<rparr>"

section \<open>Lockers sharing a register\<close>

text \<open>
  A write is the number of the call, the locker, the value and the timestamp. \<open>effects\<close> are
  the writes that took effect, newest first; \<open>inflight\<close> all that were ever sent.
\<close>

type_synonym strong_write = "nat \<times> int \<times> bytes \<times> 64 word"

record lock_system =
  lockers :: "int \<Rightarrow> ClientLocker"
  effects :: "strong_write list"
  inflight :: "strong_write set"
  calls_made :: nat

definition w_ts :: "strong_write \<Rightarrow> 64 word" where
  "w_ts w = snd (snd (snd w))"

definition current_ts :: "lock_system \<Rightarrow> 64 word" where
  "current_ts s = (case effects s of [] \<Rightarrow> 0 | w # _ \<Rightarrow> w_ts w)"

text \<open>What a read can return: the initial version or any that was ever current.\<close>

definition version :: "lock_system \<Rightarrow> bytes \<Rightarrow> 64 word \<Rightarrow> bool" where
  "version s v t \<longleftrightarrow> v = None \<and> t = 0 \<or> (\<exists>k i. (k, i, v, t) \<in> set (effects s))"

text \<open>The write the daemon of \<open>i\<close> has called \<open>StrongPut\<close> for.\<close>

fun issued :: "int \<Rightarrow> daemon_pc \<Rightarrow> strong_write set" where
  "issued i Getting = {}"
| "issued i (Releasing k v t) = {(k, i, v, t)}"
| "issued i (Acquiring k v t) = {(k, i, v, t)}"

inductive lock_step :: "lock_system \<Rightarrow> lock_system \<Rightarrow> bool" where
  Lock: "user_at (lockers s i) = Outside \<Longrightarrow>
    lock_step s (s\<lparr>lockers := (lockers s)(i := Locker_Lock (lockers s i))\<rparr>)"
| Unlock: "user_at (lockers s i) = Inside \<Longrightarrow>
    lock_step s (s\<lparr>lockers := (lockers s)(i := Locker_Unlock (lockers s i))\<rparr>)"
| Read: "daemon_at (lockers s i) = Getting \<Longrightarrow> in_int64 i \<Longrightarrow> version s v t \<Longrightarrow>
    cl = daemon_read i (calls_made s) v t ok (lockers s i) \<Longrightarrow>
    lock_step s (s\<lparr>lockers := (lockers s)(i := cl),
      inflight := inflight s \<union> issued i (daemon_at cl), calls_made := Suc (calls_made s)\<rparr>)"
| Effect: "w \<in> inflight s \<Longrightarrow> w_ts w = current_ts s + 1 \<Longrightarrow>
    lock_step s (s\<lparr>effects := w # effects s\<rparr>)"
| Result: "daemon_at (lockers s i) \<noteq> Getting \<Longrightarrow>
    res = Success \<longrightarrow> issued i (daemon_at (lockers s i)) \<subseteq> set (effects s) \<Longrightarrow>
    lock_step s (s\<lparr>lockers := (lockers s)(i := daemon_result res (lockers s i))\<rparr>)"

definition lock_init :: lock_system where
  "lock_init = \<lparr>lockers = (\<lambda>_. NewClientLocker), effects = [], inflight = {}, calls_made = 0\<rparr>"

inductive lock_reach :: "lock_system \<Rightarrow> bool" where
  init: "lock_reach lock_init"
| step: "lock_reach s \<Longrightarrow> lock_step s s' \<Longrightarrow> lock_reach s'"

section \<open>The register\<close>

text \<open>The timestamps of the effects count up from 1.\<close>

definition numbered :: "strong_write list \<Rightarrow> bool" where
  "numbered es \<longleftrightarrow> map w_ts es = map of_nat (rev [1..<Suc (length es)])"

lemma numbered_hd: "numbered (w # es) \<Longrightarrow> w_ts w = of_nat (Suc (length es))"
  by (simp add: numbered_def)

lemma current_ts_numbered: "numbered (effects s) \<Longrightarrow> current_ts s = of_nat (length (effects s))"
  by (cases "effects s") (auto simp: current_ts_def dest: numbered_hd)

lemma numbered_Cons:
  assumes "numbered (effects s)" "w_ts w = current_ts s + 1"
  shows "numbered (w # effects s)"
  using assms current_ts_numbered [OF assms(1)] by (simp add: numbered_def add.commute)

lemma numbered_nth:
  assumes "numbered es" "w \<in> set es"
  obtains k where "1 \<le> k" "k \<le> length es" "w_ts w = of_nat k"
proof -
  have "w_ts w \<in> set (map of_nat (rev [1..<Suc (length es)]))"
    using assms by (metis image_eqI list.set_map numbered_def)
  then show ?thesis using that by (auto simp: less_Suc_eq_le)
qed

lemma of_nat_inj_64:
  assumes "a < 2 ^ 64" "b < 2 ^ 64"
  shows "(of_nat a :: 64 word) = of_nat b \<longleftrightarrow> a = b"
  using assms by (simp add: word_unat_eq_iff unat_of_nat take_bit_nat_eq_self_iff)

lemma numbered_unique:
  assumes "numbered es" "length es < 2 ^ 64" "w \<in> set es" "w' \<in> set es" "w_ts w = w_ts w'"
  shows "w = w'"
proof -
  have "inj_on (of_nat :: nat \<Rightarrow> 64 word) {1..<Suc (length es)}"
    using assms(2) of_nat_inj_64 by (auto simp: inj_on_def)
  then have "distinct (map w_ts es)"
    using assms(1) by (simp add: numbered_def distinct_map del: upt_Suc)
  then show ?thesis using assms(3-5) by (auto simp: distinct_map dest: inj_onD)
qed

text \<open>An effect whose successor timestamp did not take effect is the current one.\<close>

lemma effect_current:
  assumes "numbered es" "length es < 2 ^ 64" "w \<in> set es" "\<forall>w' \<in> set es. w_ts w' \<noteq> w_ts w + 1"
  shows "hd es = w"
proof -
  obtain k where k: "1 \<le> k" "k \<le> length es" "w_ts w = of_nat k" by (rule numbered_nth [OF assms(1,3)])
  have top: "w_ts (hd es) = of_nat (length es)"
    using assms(1,3) by (cases es) (auto dest: numbered_hd)
  have "k = length es"
  proof (rule ccontr)
    assume "k \<noteq> length es"
    then have "Suc k \<in> set (rev [1..<Suc (length es)])" using k by auto
    then have "of_nat (Suc k) \<in> w_ts ` set es"
      using assms(1) unfolding numbered_def by (metis image_eqI list.set_map)
    then show False using assms(4) k(3) by (auto simp: add.commute)
  qed
  then show ?thesis
    using numbered_unique [OF assms(1,2), of "hd es" w] assms(3) top k(3) by (cases es) auto
qed

section \<open>Mutual exclusion\<close>

text \<open>No release of the lock that \<open>i\<close> took under \<open>t\<close> has been sent.\<close>

definition unreleased :: "strong_write set \<Rightarrow> int \<Rightarrow> 64 word \<Rightarrow> bool" where
  "unreleased ws i t \<longleftrightarrow> (\<forall>k v. (k, i, v, t + 1) \<notin> ws)"

definition write_inv :: "nat \<Rightarrow> strong_write list \<Rightarrow> strong_write \<Rightarrow> bool" where
  "write_inv n es = (\<lambda>(k, i, v, t). k < n \<and> (odd t \<longrightarrow> v = Some (itoa i) \<and> in_int64 i) \<and>
     (even t \<longrightarrow> (\<exists>k' v'. (k', i, v', t - 1) \<in> set es)))"

definition flags_inv :: "ClientLocker \<Rightarrow> bool" where
  "flags_inv cl \<longleftrightarrow> (lockResChan cl \<longleftrightarrow> user_at cl = Locking) \<and>
     (unlockResChan cl \<longleftrightarrow> user_at cl = Unlocking) \<and>
     (user_at cl \<in> {Locking, Inside} \<longrightarrow> wantLock cl)"

definition holds_inv :: "strong_write list \<Rightarrow> strong_write set \<Rightarrow> int \<Rightarrow> ClientLocker \<Rightarrow> bool" where
  "holds_inv es ws i cl \<longleftrightarrow>
     (\<forall>k v t. daemon_at cl = Acquiring k v t \<longrightarrow>
       odd t \<and> ((k, i, v, t) \<in> set es \<longrightarrow> unreleased ws i t)) \<and>
     (user_at cl = Inside \<longrightarrow> (\<exists>k v t. odd t \<and> (k, i, v, t) \<in> set es \<and> unreleased ws i t))"

definition lock_inv :: "lock_system \<Rightarrow> bool" where
  "lock_inv s \<longleftrightarrow> numbered (effects s) \<and> set (effects s) \<subseteq> inflight s \<and>
     (\<forall>w \<in> inflight s. write_inv (calls_made s) (effects s) w) \<and>
     (\<forall>i. flags_inv (lockers s i) \<and> holds_inv (effects s) (inflight s) i (lockers s i))"

lemma odd_word [simp]: "(t :: 64 word) mod 2 = 1 \<longleftrightarrow> odd t" "(t :: 64 word) mod 2 = 0 \<longleftrightarrow> even t"
  by (simp_all add: odd_iff_mod_2_eq_one even_iff_mod_2_eq_zero)

lemma flags_daemon [simp]:
  "flags_inv cl \<Longrightarrow> flags_inv (daemon_read i k v t ok cl)"
  "flags_inv cl \<Longrightarrow> flags_inv (daemon_result res cl)"
  by (auto simp: flags_inv_def daemon_read_def daemon_result_def Let_def split: daemon_pc.splits)

text \<open>The writes a daemon issues on reading a version.\<close>

lemma daemon_read_cases:
  assumes "daemon_at cl = Getting"
  obtains "daemon_read i k v t ok cl = cl"
  | "odd t" "fst (atoi (raw v)) = i" "\<not> wantLock cl"
      "daemon_read i k v t ok cl = cl\<lparr>haveLock := True, daemon_at := Releasing k v (t + 1)\<rparr>"
  | "even t" "wantLock cl"
      "daemon_read i k v t ok cl = cl\<lparr>daemon_at := Acquiring k (Some (itoa i)) (t + 1)\<rparr>"
proof -
  consider "ok" "odd t" "fst (atoi (raw v)) = i" "\<not> wantLock cl" | "ok" "even t" "wantLock cl"
    | "\<not> ok \<or> (odd t \<longrightarrow> fst (atoi (raw v)) \<noteq> i \<or> wantLock cl) \<and> (even t \<longrightarrow> \<not> wantLock cl)"
    by blast
  then show ?thesis
  proof cases
    case 1
    then show ?thesis by (intro that(2)) (auto simp: daemon_read_def Let_def)
  next
    case 2
    then show ?thesis by (intro that(3)) (auto simp: daemon_read_def Let_def)
  next
    case 3
    then show ?thesis by (intro that(1)) (auto simp: daemon_read_def Let_def)
  qed
qed

lemma holds_mono:
  assumes "holds_inv es ws i cl" "set es \<subseteq> set es'"
    and "\<And>k v t. (k, i, v, t) \<in> ws' \<Longrightarrow> (k, i, v, t) \<in> ws"
    and "\<And>k v t. daemon_at cl = Acquiring k v t \<Longrightarrow> (k, i, v, t) \<in> set es' \<Longrightarrow>
           (k, i, v, t) \<notin> set es \<Longrightarrow> unreleased ws' i t"
  shows "holds_inv es' ws' i cl"
  using assms unfolding holds_inv_def unreleased_def by (meson subsetD)

lemma write_inv_mono:
  assumes "write_inv n es w" "n \<le> n'" "set es \<subseteq> set es'"
  shows "write_inv n' es' w"
  using assms by (fastforce simp: write_inv_def split: prod.splits)

lemma effect_unreleased:
  assumes "lock_inv s" "Suc (length (effects s)) < 2 ^ 64" "t = current_ts s + 1" "odd t"
  shows "unreleased (inflight s) i t"
  unfolding unreleased_def
proof (intro allI notI)
  fix k v assume "(k, i, v, t + 1) \<in> inflight s"
  then have "write_inv (calls_made s) (effects s) (k, i, v, t + 1)" using assms(1) by (auto simp: lock_inv_def)
  then obtain k' v' where w: "(k', i, v', t) \<in> set (effects s)"
    using assms(4) by (auto simp: write_inv_def)
  have num: "numbered (effects s)" using assms(1) by (simp add: lock_inv_def)
  obtain m where "m \<le> length (effects s)" "t = of_nat m"
    by (rule numbered_nth [OF num w]) (auto simp: w_ts_def)
  moreover have "t = of_nat (Suc (length (effects s)))"
    using assms(3) current_ts_numbered [OF num] by (simp add: add.commute)
  ultimately show False
    using assms(2) of_nat_inj_64 [of m "Suc (length (effects s))"] by auto
qed

lemma lock_inv_effect:
  assumes "lock_inv s" "w \<in> inflight s" "w_ts w = current_ts s + 1" "Suc (length (effects s)) < 2 ^ 64"
  shows "lock_inv (s\<lparr>effects := w # effects s\<rparr>)"
proof -
  have "holds_inv (w # effects s) (inflight s) i (lockers s i)" for i
  proof (rule holds_mono)
    show "holds_inv (effects s) (inflight s) i (lockers s i)"
      using assms(1) by (simp add: lock_inv_def)
    show "unreleased (inflight s) i t"
      if "daemon_at (lockers s i) = Acquiring k v t" "(k, i, v, t) \<in> set (w # effects s)"
        "(k, i, v, t) \<notin> set (effects s)" for k v t
    proof (rule effect_unreleased [OF assms(1,4)])
      show "t = current_ts s + 1" using that assms(3) by (auto simp: w_ts_def)
      show "odd t" using that(1) assms(1) by (auto simp: lock_inv_def holds_inv_def)
    qed
  qed auto
  then show ?thesis
    using assms numbered_Cons [of s w] by (auto simp: lock_inv_def intro: write_inv_mono)
qed

text \<open>The write a daemon issues on what it read is in order, and the locks held stay held.\<close>

lemma lock_read_write:
  assumes "lock_inv s" "daemon_at (lockers s i) = Getting" "in_int64 i" "version s v t"
    and "cl = daemon_read i (calls_made s) v t ok (lockers s i)" "w \<in> issued i (daemon_at cl)"
  shows "write_inv (Suc (calls_made s)) (effects s) w"
  using assms(2)
proof (cases rule: daemon_read_cases [where i = i and k = "calls_made s" and v = v and t = t and ok = ok])
  case 1
  with assms(2,5,6) show ?thesis by simp
next
  case 2
  then obtain k j where kj: "(k, j, v, t) \<in> set (effects s)"
    using assms(4) by (auto simp: version_def)
  then have "write_inv (calls_made s) (effects s) (k, j, v, t)"
    using assms(1) by (auto simp: lock_inv_def)
  with 2 have "v = Some (itoa j)" "in_int64 j" by (auto simp: write_inv_def)
  with 2 have "j = i" by (simp add: atoi_itoa)
  with 2 kj assms(5,6) show ?thesis by (auto simp: write_inv_def)
next
  case 3
  with assms(3,5,6) show ?thesis by (auto simp: write_inv_def)
qed

lemma lock_read_holds:
  assumes "lock_inv s" "daemon_at (lockers s i) = Getting"
    and "cl = daemon_read i (calls_made s) v t ok (lockers s i)"
  shows "holds_inv (effects s) (inflight s \<union> issued i (daemon_at cl)) i cl"
proof -
  let ?ws = "inflight s \<union> issued i (daemon_at cl)"
  have eff: "set (effects s) \<subseteq> inflight s" and win: "\<forall>w \<in> inflight s. write_inv (calls_made s) (effects s) w"
    and flags: "flags_inv (lockers s i)" and hold: "holds_inv (effects s) (inflight s) i (lockers s i)"
    using assms(1) by (auto simp: lock_inv_def)
  have fresh: "(calls_made s, i, v', t') \<notin> set (effects s)" for v' t'
    using eff win by (auto simp: write_inv_def)
  show ?thesis
    using assms(2)
  proof (cases rule: daemon_read_cases [where i = i and k = "calls_made s" and v = v and t = t and ok = ok])
    case 1
    with assms(2,3) hold show ?thesis by simp
  next
    case 2
    with flags assms(3) show ?thesis by (auto simp: holds_inv_def flags_inv_def)
  next
    case 3
    then have cl: "daemon_at cl = Acquiring (calls_made s) (Some (itoa i)) (t + 1)"
      "user_at cl = user_at (lockers s i)"
      by (simp_all add: assms(3))
    have keep: "unreleased ?ws i ta" if "unreleased (inflight s) i ta" "odd ta" for ta
      using that 3(1) by (auto simp: cl unreleased_def)
    have "\<exists>k v ta. odd ta \<and> (k, i, v, ta) \<in> set (effects s) \<and> unreleased ?ws i ta"
      if "user_at (lockers s i) = Inside"
      using that hold keep unfolding holds_inv_def by blast
    then show ?thesis using fresh 3(1) by (simp add: holds_inv_def cl)
  qed
qed

lemma lock_inv_read:
  assumes "lock_inv s" "daemon_at (lockers s i) = Getting" "in_int64 i" "version s v t"
    and "cl = daemon_read i (calls_made s) v t ok (lockers s i)"
  shows "lock_inv (s\<lparr>lockers := (lockers s)(i := cl),
      inflight := inflight s \<union> issued i (daemon_at cl), calls_made := Suc (calls_made s)\<rparr>)"
proof -
  let ?ws = "inflight s \<union> issued i (daemon_at cl)"
  have eff: "set (effects s) \<subseteq> inflight s" and win: "\<forall>w \<in> inflight s. write_inv (calls_made s) (effects s) w"
    and flags: "flags_inv (lockers s i)"
    using assms(1) by (auto simp: lock_inv_def)
  have hold: "holds_inv (effects s) (inflight s) j (lockers s j)" for j
    using assms(1) by (simp add: lock_inv_def)
  have holds: "holds_inv (effects s) ?ws j (if j = i then cl else lockers s j)" for j
  proof (cases "j = i")
    case False
    then show ?thesis
      by (cases "daemon_at cl") (auto intro!: holds_mono [OF hold])
  qed (use lock_read_holds [OF assms(1,2,5)] in simp)
  have "write_inv (Suc (calls_made s)) (effects s) w" if "w \<in> ?ws" for w
    using that
  proof
    assume "w \<in> inflight s"
    with win show ?thesis by (meson le_SucI order_refl subset_refl write_inv_mono)
  qed (rule lock_read_write [OF assms])
  moreover have "flags_inv cl" using flags by (simp add: assms(5))
  ultimately show ?thesis
    using assms(1) holds eff unfolding lock_inv_def by (simp add: le_supI1)
qed

lemma lock_inv_locker:
  assumes "lock_inv s" "flags_inv cl" "holds_inv (effects s) (inflight s) i cl"
  shows "lock_inv (s\<lparr>lockers := (lockers s)(i := cl)\<rparr>)"
  using assms by (auto simp: lock_inv_def numbered_def write_inv_def)

lemma holds_result:
  assumes "holds_inv es ws i cl" "flags_inv cl" "daemon_at cl \<noteq> Getting"
    and "res = Success \<longrightarrow> issued i (daemon_at cl) \<subseteq> set es"
  shows "holds_inv es ws i (daemon_result res cl)"
  using assms by (cases "daemon_at cl") (auto simp: holds_inv_def daemon_result_def flags_inv_def)

lemma lock_step_inv:
  assumes "lock_step s s'" "lock_inv s" "length (effects s') < 2 ^ 64"
  shows "lock_inv s'"
  using assms
proof cases
  case (Lock i)
  then show ?thesis
    using assms(2) by (auto intro!: lock_inv_locker simp: lock_inv_def flags_inv_def holds_inv_def Locker_Lock_def)
next
  case (Unlock i)
  then show ?thesis
    using assms(2) by (auto intro!: lock_inv_locker simp: lock_inv_def flags_inv_def holds_inv_def Locker_Unlock_def)
next
  case (Read i v t cl ok)
  then show ?thesis using assms(2) lock_inv_read by blast
next
  case (Effect w)
  then show ?thesis using assms(2,3) lock_inv_effect by simp
next
  case (Result i res)
  then show ?thesis
    using assms(2) by (auto intro!: lock_inv_locker holds_result simp: lock_inv_def)
qed

lemma lock_step_effects: "lock_step s s' \<Longrightarrow> length (effects s) \<le> length (effects s')"
  by (cases rule: lock_step.cases) auto

lemma lock_reach_inv:
  assumes "lock_reach s" "length (effects s) < 2 ^ 64"
  shows "lock_inv s"
  using assms
proof induction
  case init
  then show ?case
    by (simp add: lock_inv_def lock_init_def numbered_def flags_inv_def holds_inv_def NewClientLocker_def)
next
  case (step s s')
  then show ?case using lock_step_inv lock_step_effects by (meson le_less_trans)
qed

lemma inside_current:
  assumes "lock_inv s" "length (effects s) < 2 ^ 64" "user_at (lockers s i) = Inside"
  shows "\<exists>k v. hd (effects s) = (k, i, v, current_ts s) \<and> odd (current_ts s)"
proof -
  obtain k v t where w: "odd t" "(k, i, v, t) \<in> set (effects s)" "unreleased (inflight s) i t"
    using assms(1,3) by (auto simp: lock_inv_def holds_inv_def)
  have num: "numbered (effects s)" using assms(1) by (simp add: lock_inv_def)
  have "\<forall>w' \<in> set (effects s). w_ts w' \<noteq> w_ts (k, i, v, t) + 1"
  proof (intro ballI notI)
    fix w' assume w': "w' \<in> set (effects s)" "w_ts w' = w_ts (k, i, v, t) + 1"
    obtain k' j v' where eq: "w' = (k', j, v', t + 1)"
      using w'(2) by (cases w') (auto simp: w_ts_def)
    have "write_inv (calls_made s) (effects s) w'" using assms(1) w'(1) by (auto simp: lock_inv_def)
    then obtain k2 v2 where p: "(k2, j, v2, t) \<in> set (effects s)"
      using w(1) by (auto simp: write_inv_def eq)
    then have "j = i"
      using numbered_unique [OF num assms(2) p w(2)] by (simp add: w_ts_def)
    then show False using w(3) w'(1) assms(1) by (auto simp: eq lock_inv_def unreleased_def)
  qed
  then have "hd (effects s) = (k, i, v, t)" by (rule effect_current [OF num assms(2) w(2)])
  then show ?thesis using w(1,2) by (cases "effects s") (auto simp: current_ts_def w_ts_def)
qed

section \<open>A lost acknowledgement\<close>

text \<open>
  Locker \<open>i\<close> took the lock with the first call of \<open>StrongPut\<close>, but was not told: its user
  still waits in \<open>Lock\<close>, and the daemon only releases a lock that its user does not want.
\<close>

definition lost_ack :: "int \<Rightarrow> lock_system \<Rightarrow> bool" where
  "lost_ack i s \<longleftrightarrow> in_int64 i \<and> effects s = [(0, i, Some (itoa i), 1)] \<and> 0 < calls_made s \<and>
     (\<forall>w \<in> inflight s. w_ts w = 1) \<and> wantLock (lockers s i) \<and> user_at (lockers s i) = Locking \<and>
     (\<forall>j. user_at (lockers s j) \<in> {Outside, Locking} \<and>
       (case daemon_at (lockers s j) of
          Getting \<Rightarrow> True | Releasing k v t \<Rightarrow> False | Acquiring k v t \<Rightarrow> 0 < k))"

lemma lost_ack_locker:
  assumes "lost_ack i s" "j \<noteq> i \<or> wantLock cl \<and> user_at cl = Locking"
    and "user_at cl \<in> {Outside, Locking}"
    and "case daemon_at cl of Getting \<Rightarrow> True | Releasing k v t \<Rightarrow> False | Acquiring k v t \<Rightarrow> 0 < k"
  shows "lost_ack i (s\<lparr>lockers := (lockers s)(j := cl)\<rparr>)"
  using assms by (auto simp: lost_ack_def)

lemma lost_ack_read:
  assumes "lost_ack i s" "daemon_at (lockers s j) = Getting" "version s v t"
    and "cl = daemon_read j (calls_made s) v t ok (lockers s j)"
  shows "(cl = lockers s j \<or> cl = (lockers s j)\<lparr>daemon_at := Acquiring (calls_made s) (Some (itoa j)) 1\<rparr>)"
  using assms(2)
proof (cases rule: daemon_read_cases [where i = j and k = "calls_made s" and v = v and t = t and ok = ok])
  case 2
  then have "v = Some (itoa i)" using assms(1,3) by (auto simp: version_def lost_ack_def)
  with 2 assms(1) show ?thesis by (simp add: lost_ack_def atoi_itoa)
next
  case 3
  then have "t = 0" using assms(1,3) by (auto simp: version_def lost_ack_def)
  with 3 assms(4) show ?thesis by simp
qed (use assms(4) in simp)

lemma lost_ack_step:
  assumes "lock_step s s'" "lost_ack i s"
  shows "lost_ack i s'"
  using assms(1)
proof cases
  case (Lock j)
  then show ?thesis
    using assms(2) by (auto intro!: lost_ack_locker simp: Locker_Lock_def lost_ack_def)
next
  case (Unlock j)
  have "user_at (lockers s j) \<in> {Outside, Locking}" using assms(2) unfolding lost_ack_def by blast
  with Unlock show ?thesis by simp
next
  case (Read j v t cl ok)
  have "lost_ack i (s\<lparr>lockers := (lockers s)(j := cl)\<rparr>)"
    using lost_ack_read [OF assms(2) Read(2,4,5)] assms(2) Read(2)
    by (intro lost_ack_locker) (auto simp: lost_ack_def)
  moreover have "w_ts w = 1" if "w \<in> issued j (daemon_at cl)" for w
    using that lost_ack_read [OF assms(2) Read(2,4,5)] Read(2) by (auto simp: w_ts_def)
  ultimately show ?thesis using Read(1) by (auto simp: lost_ack_def)
next
  case (Effect w)
  with assms(2) show ?thesis by (auto simp: lost_ack_def current_ts_def w_ts_def)
next
  case (Result j res)
  have "case daemon_at (lockers s j) of Getting \<Rightarrow> True | Releasing k v t \<Rightarrow> False | Acquiring k v t \<Rightarrow> 0 < k"
    using assms(2) by (simp add: lost_ack_def)
  then obtain k v t where "daemon_at (lockers s j) = Acquiring k v t" "0 < k"
    using Result(2) by (cases "daemon_at (lockers s j)") auto
  with Result assms(2) show ?thesis
    by (auto intro!: lost_ack_locker simp: daemon_result_def) (auto simp: lost_ack_def)
qed

lemma lost_ack_reachable:
  assumes "in_int64 i"
  shows "\<exists>s. lock_reach s \<and> lost_ack i s"
proof -
  let ?s1 = "lock_init\<lparr>lockers := (lockers lock_init)(i := Locker_Lock NewClientLocker)\<rparr>"
  have 1: "lock_reach ?s1"
    using lock_reach.step [OF lock_reach.init lock_step.Lock [of lock_init i]]
    by (simp add: lock_init_def NewClientLocker_def)
  let ?cl = "(Locker_Lock NewClientLocker)\<lparr>daemon_at := Acquiring 0 (Some (itoa i)) 1\<rparr>"
  let ?w = "(0, i, Some (itoa i), 1)"
  let ?s2 = "?s1\<lparr>lockers := (lockers ?s1)(i := ?cl), inflight := {?w}, calls_made := 1\<rparr>"
  have "lock_step ?s1 ?s2"
    using lock_step.Read [of ?s1 i None 0 ?cl True] assms
    by (simp add: lock_init_def NewClientLocker_def Locker_Lock_def version_def daemon_read_def)
  then have 2: "lock_reach ?s2" by (rule lock_reach.step [OF 1])
  let ?s3 = "?s2\<lparr>effects := [?w]\<rparr>"
  have "lock_step ?s2 ?s3"
    using lock_step.Effect [of ?w ?s2] by (simp add: lock_init_def w_ts_def current_ts_def)
  then have 3: "lock_reach ?s3" by (rule lock_reach.step [OF 2])
  let ?s4 = "?s3\<lparr>lockers := (lockers ?s3)(i := daemon_result Unknown ?cl)\<rparr>"
  have "lock_step ?s3 ?s4" using lock_step.Result [of ?s3 i Unknown] by simp
  then have "lock_reach ?s4" by (rule lock_reach.step [OF 3])
  moreover have "lost_ack i ?s4"
    using assms by (simp add: lost_ack_def daemon_result_def Locker_Lock_def NewClientLocker_def
        lock_init_def w_ts_def)
  ultimately show ?thesis by blast
qed

lemma lost_ack_forever: "lock_step\<^sup>*\<^sup>* s s' \<Longrightarrow> lost_ack i s \<Longrightarrow> lost_ack i s'"
  by (induction rule: rtranclp_induct) (auto intro: lost_ack_step)

end
