(* ===== verification/Network.thy ===== *)
theory Network
  imports Packet
begin

text \<open>
  \<open>src/net/partitions.go\<close> and the network side of \<open>src/net/manager.go\<close>: the links that are
  down, the routing of a message, the partitions that \<open>triggerNodeFailures\<close> makes, and its random
  keys. Delays and random choices are arguments.
\<close>

section \<open>Partitions\<close>

text \<open>
  \<open>unavailableLinks\<close>: a node without an inner map is \<open>None\<close>. Reading through a nil inner map
  gives false, deleting from it does nothing, writing to it panics.
\<close>

type_synonym partitions = "int \<Rightarrow> int set option"
type_synonym links = "(int \<times> int list) list"

definition newPartitions :: "int \<Rightarrow> partitions" where
  "newPartitions n = (\<lambda>i. if 0 \<le> i \<and> i \<le> n then Some {} else None)"

definition linkAvailable :: "partitions \<Rightarrow> int \<Rightarrow> int \<Rightarrow> bool" where
  "linkAvailable p s d = (case p s of None \<Rightarrow> True | Some ds \<Rightarrow> d \<notin> ds)"

definition close_link :: "int \<Rightarrow> int \<Rightarrow> partitions \<Rightarrow> partitions res" where
  "close_link s d p = (case p s of None \<Rightarrow> Inl Panic | Some ds \<Rightarrow> Inr (p(s \<mapsto> insert d ds)))"

definition open_link :: "int \<Rightarrow> int \<Rightarrow> partitions \<Rightarrow> partitions" where
  "open_link s d p = (case p s of None \<Rightarrow> p | Some ds \<Rightarrow> p(s \<mapsto> ds - {d}))"

definition createPartition :: "links \<Rightarrow> partitions \<Rightarrow> partitions res" where
  "createPartition ls = fold_res (\<lambda>(s, ds). fold_res (close_link s) ds) ls"

definition removePartition :: "links \<Rightarrow> partitions \<Rightarrow> partitions" where
  "removePartition ls = fold (\<lambda>(s, ds). fold (open_link s) ds) ls"

section \<open>Routing\<close>

datatype route = Delivered int | Dropped | Misaddressed

text \<open>One iteration of \<open>startHelper\<close>; \<open>links[msg.Dest]\<close> panics for a negative address.\<close>

definition startHelper :: "int \<Rightarrow> partitions \<Rightarrow> Message \<Rightarrow> route res" where
  "startHelper len_links p msg =
     (if Dest msg < len_links
      then if Src msg < Dest msg \<and> \<not> linkAvailable p (Src msg) (Dest msg) then Inr Dropped
           else if Dest msg < Src msg \<and> \<not> linkAvailable p (Dest msg) (Src msg) then Inr Dropped
           else if Dest msg < 0 then Inl Panic
           else Inr (Delivered (Dest msg))
      else Inr Misaddressed)"

text \<open>The end of \<open>sendAfterDelay\<close>, on a link with a buffer of the given capacity.\<close>

definition sendAfterDelay :: "nat \<Rightarrow> Message \<Rightarrow> Message list \<Rightarrow> Message list" where
  "sendAfterDelay capacity msg link = (if length link < capacity then link @ [msg] else link)"

section \<open>Random partitions\<close>

text \<open>The links of a partition: each random pair is entered under its smaller node.\<close>

definition add_link :: "int \<times> int \<Rightarrow> links \<Rightarrow> links" where
  "add_link = (\<lambda>(s, d) ls.
     if s < d then AList.update s (List.insert d (get_or [] ls s)) ls
     else AList.update d (List.insert s (get_or [] ls d)) ls)"

definition random_links :: "(int \<times> int) list \<Rightarrow> links" where
  "random_links pairs = fold add_link pairs []"

section \<open>Random keys\<close>

text \<open>Every zero byte is drawn again until it is not zero; \<open>rs\<close> are the bytes drawn.\<close>

function removeZeroBytes :: "byte list \<Rightarrow> byte list \<Rightarrow> byte list option" where
  "removeZeroBytes [] rs = Some []"
| "removeZeroBytes (b # bs) rs =
     (if b \<noteq> 0 then map_option ((#) b) (removeZeroBytes bs rs)
      else case rs of [] \<Rightarrow> None | r # rs' \<Rightarrow> removeZeroBytes (r # bs) rs')"
  by pat_completeness auto
termination
  by (relation "measure (\<lambda>(bs, rs). length bs + length rs)") auto

lemma removeZeroBytes_spec:
  "removeZeroBytes bs rs = Some bs' \<Longrightarrow> length bs' = length bs \<and> 0 \<notin> set bs' \<and>
    (\<forall>i < length bs. bs ! i \<noteq> 0 \<longrightarrow> bs' ! i = bs ! i)"
proof (induction bs rs arbitrary: bs' rule: removeZeroBytes.induct)
  case (2 b bs rs)
  show ?case
  proof (cases "b = 0")
    case True
    then obtain r rs' where "rs = r # rs'" "removeZeroBytes (r # bs) rs' = Some bs'"
      using 2(3) by (auto split: list.splits)
    from 2(2) [OF _ this] True show ?thesis by (auto simp: nth_Cons split: nat.splits)
  next
    case False
    then obtain cs where "removeZeroBytes bs rs = Some cs" "bs' = b # cs" using 2(3) by auto
    with 2(1) [OF False] False show ?thesis by (auto simp: nth_Cons split: nat.splits)
  qed
qed simp

text \<open>It ends as soon as as many non-zero bytes have been drawn as there were zeros.\<close>

lemma removeZeroBytes_ends:
  "length (filter (\<lambda>b. b = 0) bs) \<le> length (filter (\<lambda>b. b \<noteq> 0) rs) \<Longrightarrow> removeZeroBytes bs rs \<noteq> None"
proof (induction bs rs rule: removeZeroBytes.induct)
  case (2 b bs rs)
  show ?case
  proof (cases "b = 0")
    case True
    with 2(3) obtain r rs' where "rs = r # rs'" by (cases rs) auto
    with 2(2) [of r rs'] 2(3) True show ?thesis by (auto split: if_splits)
  next
    case False
    with 2(1) 2(3) show ?thesis by simp
  qed
qed simp

section \<open>The links of a partition\<close>

definition link_set :: "links \<Rightarrow> (int \<times> int) set" where
  "link_set ls = {(s, d). \<exists>ds. (s, ds) \<in> set ls \<and> d \<in> set ds}"

lemma link_set_simps [simp]:
  "link_set [] = {}" "link_set ((s, ds) # ls) = Pair s ` set ds \<union> link_set ls"
  by (auto simp: link_set_def)

text \<open>The links that are down.\<close>

definition down :: "partitions \<Rightarrow> (int \<times> int) set" where
  "down p = {(s, d). \<not> linkAvailable p s d}"

lemma down_iff: "(s, d) \<in> down p \<longleftrightarrow> \<not> linkAvailable p s d"
  by (simp add: down_def)

lemma down_new [simp]: "down (newPartitions n) = {}"
  by (auto simp: down_def linkAvailable_def newPartitions_def split: if_splits)

lemma close_link_down:
  "s \<in> dom p \<Longrightarrow> \<exists>p'. close_link s d p = Inr p' \<and> dom p' = dom p \<and> down p' = insert (s, d) (down p)"
  by (auto simp: close_link_def down_def linkAvailable_def split: if_splits option.splits)

lemma open_link_down: "dom (open_link s d p) = dom p \<and> down (open_link s d p) = down p - {(s, d)}"
  by (auto simp: open_link_def down_def linkAvailable_def split: if_splits option.splits)

lemma close_links_down:
  assumes "s \<in> dom p"
  shows "\<exists>p'. fold_res (close_link s) ds p = Inr p' \<and> dom p' = dom p \<and>
    down p' = Pair s ` set ds \<union> down p"
  using assms
proof (induction ds arbitrary: p)
  case (Cons d ds)
  obtain p1 where 1: "close_link s d p = Inr p1" "dom p1 = dom p" "down p1 = insert (s, d) (down p)"
    using Cons.prems close_link_down by blast
  then have "s \<in> dom p1" using Cons.prems by simp
  from Cons.IH [OF this] 1 show ?case by auto
qed simp

lemma open_links_down:
  "dom (fold (open_link s) ds p) = dom p \<and> down (fold (open_link s) ds p) = down p - Pair s ` set ds"
  by (induction ds arbitrary: p) (auto simp: open_link_down)

lemma createPartition_down:
  assumes "fst ` set ls \<subseteq> dom p"
  shows "\<exists>p'. createPartition ls p = Inr p' \<and> dom p' = dom p \<and> down p' = link_set ls \<union> down p"
  using assms
proof (induction ls arbitrary: p)
  case (Cons l ls)
  obtain s ds where l: "l = (s, ds)" by fastforce
  then have "s \<in> dom p" using Cons.prems by auto
  then obtain p1 where 1: "fold_res (close_link s) ds p = Inr p1" "dom p1 = dom p"
      "down p1 = Pair s ` set ds \<union> down p"
    using close_links_down by blast
  have "fst ` set ls \<subseteq> dom p1" using Cons.prems 1(2) by simp
  from Cons.IH [OF this] 1 show ?case by (auto simp: createPartition_def l)
qed (simp add: createPartition_def)

lemma removePartition_down:
  "dom (removePartition ls p) = dom p \<and> down (removePartition ls p) = down p - link_set ls"
proof (induction ls arbitrary: p)
  case (Cons l ls)
  obtain s ds where l: "l = (s, ds)" by fastforce
  show ?case
    using Cons.IH [of "fold (open_link s) ds p"] open_links_down [of s ds p]
    by (auto simp: removePartition_def l)
qed (simp add: removePartition_def)

text \<open>A random pair becomes the link from its smaller to its larger node.\<close>

definition ordered :: "int \<times> int \<Rightarrow> int \<times> int" where
  "ordered = (\<lambda>(s, d). (min s d, max s d))"

lemma link_set_map_of:
  assumes "distinct (map fst ls)"
  shows "(s, d) \<in> link_set ls \<longleftrightarrow> d \<in> set (get_or [] ls s)"
proof
  assume "(s, d) \<in> link_set ls"
  then obtain ds where "(s, ds) \<in> set ls" "d \<in> set ds" by (auto simp: link_set_def)
  with assms show "d \<in> set (get_or [] ls s)" by (simp add: get_or_def)
next
  assume "d \<in> set (get_or [] ls s)"
  then show "(s, d) \<in> link_set ls"
    by (auto simp: link_set_def get_or_def split: option.splits dest!: map_of_SomeD [OF sym])
qed

lemma add_link_link_set:
  assumes "distinct (map fst ls)"
  shows "distinct (map fst (add_link sd ls)) \<and> link_set (add_link sd ls) = insert (ordered sd) (link_set ls)"
proof -
  obtain s d where sd: "sd = (s, d)" by fastforce
  have "distinct (map fst (add_link sd ls))"
    using assms by (simp add: sd add_link_def distinct_update)
  moreover have "(a, b) \<in> link_set (add_link sd ls) \<longleftrightarrow> (a, b) = ordered sd \<or> (a, b) \<in> link_set ls" for a b
    using assms
    by (simp add: link_set_map_of calculation) (auto simp: sd add_link_def ordered_def min_def max_def)
  ultimately show ?thesis by auto
qed

lemma random_links_set: "distinct (map fst (random_links ps)) \<and> link_set (random_links ps) = ordered ` set ps"
proof -
  have "distinct (map fst (fold add_link ps ls)) \<and>
      link_set (fold add_link ps ls) = ordered ` set ps \<union> link_set ls"
    if "distinct (map fst ls)" for ls
    using that
  proof (induction ps arbitrary: ls)
    case (Cons sd ps)
    with add_link_link_set [of ls sd] show ?case by simp
  qed simp
  from this [of "[]"] show ?thesis by (simp add: random_links_def)
qed

lemma random_links_fst:
  assumes "\<forall>(s, d) \<in> set ps. s \<in> A \<and> d \<in> A"
  shows "fst ` set (random_links ps) \<subseteq> A"
proof -
  have "fst ` set (fold add_link ps ls) \<subseteq> A" if "fst ` set ls \<subseteq> A" for ls
    using assms that
  proof (induction ps arbitrary: ls)
    case (Cons sd ps)
    have "fst ` set (add_link sd ls) \<subseteq> A"
      using Cons.prems by (auto simp: add_link_def dom_update split: prod.splits if_splits)
    with Cons show ?case by simp
  qed simp
  from this [of "[]"] show ?thesis by (simp add: random_links_def)
qed

end
