(* ===== verification/Simulation_Options.thy ===== *)
theory Simulation_Options
  imports Complex_Main Prelude
begin

text \<open>
  The options of a simulation: \<open>Options\<close> and the checks of \<open>Simulate\<close> in \<open>src/net/manager.go\<close>,
  and the command line of \<open>src/main.go\<close>. The floating-point options are rational numbers.
\<close>

section \<open>Options\<close>

record Options =
  NumNodes :: "64 word"
  RandomSeed :: "64 word"
  TransactionRate :: rat
  MeanMsgLatency :: rat
  MsgLatencyVariance :: rat
  NodeFailureRate :: rat
  MeanFailTime :: rat
  FailTimeVariance :: rat
  NumTransactions :: "64 word"
  ProportionWriteTransactions :: rat
  PersistentStore :: bool
  ReadQuorumSize :: "64 word"
  WriteQuorumSize :: "64 word"
  NumAttempts :: "64 word"
  SloppyQuorum :: bool
  ConvergenceTest :: bool
  LogWrites :: bool

definition sloppyQuorum :: "Options \<Rightarrow> bool" where
  "sloppyQuorum o' \<longleftrightarrow> SloppyQuorum o' \<or> ConvergenceTest o'"

text \<open>The checks at the start of \<open>Simulate\<close>.\<close>

definition check_options :: "Options \<Rightarrow> unit res" where
  "check_options o' =
     (let numNodes = NumNodes o'; rqs = ReadQuorumSize o'; wqs = WriteQuorumSize o'
      in if rqs > numNodes then Inl Fatal
         else if wqs > numNodes then Inl Fatal
         else if wqs \<le> numNodes div 2 then Inl Fatal
         else if \<not> sloppyQuorum o' \<and> rqs + wqs \<le> numNodes then Inl Fatal
         else if TransactionRate o' \<le> 0 then Inl Fatal
         else Inr ())"

section \<open>The command line\<close>

text \<open>The defaults of the flags, in the order \<open>main\<close> declares them.\<close>

definition main_defaults :: Options where
  "main_defaults =
     \<lparr>NumNodes = 5, RandomSeed = 0, TransactionRate = 10, MeanMsgLatency = 10, MsgLatencyVariance = 5,
      NodeFailureRate = 1, MeanFailTime = 10, FailTimeVariance = 5, NumTransactions = 100,
      ProportionWriteTransactions = 5 / 100, PersistentStore = False, ReadQuorumSize = 3,
      WriteQuorumSize = 3, NumAttempts = 1, SloppyQuorum = False, ConvergenceTest = False,
      LogWrites = False\<rparr>"

text \<open>What the command line sets, flag by flag; of two settings of a flag the later one holds.\<close>

datatype setting =
    Flag_n "64 word" | Flag_seed "64 word" | Flag_rate rat | Flag_latencymean rat | Flag_latencyvar rat
  | Flag_failurerate rat | Flag_failuremean rat | Flag_failurevar rat | Flag_t "64 word" | Flag_w rat
  | Flag_persistent bool | Flag_vr "64 word" | Flag_vw "64 word" | Flag_numattempts "64 word"
  | Flag_sloppy bool | Flag_convergence bool | Flag_logwrites bool

fun set_flag :: "setting \<Rightarrow> Options \<Rightarrow> Options" where
  "set_flag (Flag_n x) o' = o'\<lparr>NumNodes := x\<rparr>"
| "set_flag (Flag_seed x) o' = o'\<lparr>RandomSeed := x\<rparr>"
| "set_flag (Flag_rate x) o' = o'\<lparr>TransactionRate := x\<rparr>"
| "set_flag (Flag_latencymean x) o' = o'\<lparr>MeanMsgLatency := x\<rparr>"
| "set_flag (Flag_latencyvar x) o' = o'\<lparr>MsgLatencyVariance := x\<rparr>"
| "set_flag (Flag_failurerate x) o' = o'\<lparr>NodeFailureRate := x\<rparr>"
| "set_flag (Flag_failuremean x) o' = o'\<lparr>MeanFailTime := x\<rparr>"
| "set_flag (Flag_failurevar x) o' = o'\<lparr>FailTimeVariance := x\<rparr>"
| "set_flag (Flag_t x) o' = o'\<lparr>NumTransactions := x\<rparr>"
| "set_flag (Flag_w x) o' = o'\<lparr>ProportionWriteTransactions := x\<rparr>"
| "set_flag (Flag_persistent x) o' = o'\<lparr>PersistentStore := x\<rparr>"
| "set_flag (Flag_vr x) o' = o'\<lparr>ReadQuorumSize := x\<rparr>"
| "set_flag (Flag_vw x) o' = o'\<lparr>WriteQuorumSize := x\<rparr>"
| "set_flag (Flag_numattempts x) o' = o'\<lparr>NumAttempts := x\<rparr>"
| "set_flag (Flag_sloppy x) o' = o'\<lparr>SloppyQuorum := x\<rparr>"
| "set_flag (Flag_convergence x) o' = o'\<lparr>ConvergenceTest := x\<rparr>"
| "set_flag (Flag_logwrites x) o' = o'\<lparr>LogWrites := x\<rparr>"

definition main_options :: "setting list \<Rightarrow> Options" where
  "main_options flags = fold set_flag flags main_defaults"

section \<open>Accepted quorum sizes\<close>

lemma sets_intersect:
  assumes "finite A" "R \<subseteq> A" "W \<subseteq> A" "card A < card R + card W"
  shows "R \<inter> W \<noteq> {}"
proof
  assume "R \<inter> W = {}"
  then have "card (R \<union> W) = card R + card W"
    using assms(1-3) by (simp add: card_Un_disjoint finite_subset)
  then show False using assms card_mono [of A "R \<union> W"] by simp
qed

lemma accepted_sizes:
  assumes "check_options o' = Inr ()"
  shows "unat (ReadQuorumSize o') \<le> unat (NumNodes o')" "unat (WriteQuorumSize o') \<le> unat (NumNodes o')"
    "unat (NumNodes o') < 2 * unat (WriteQuorumSize o')" "0 < unat (NumNodes o')"
    "\<not> sloppyQuorum o' \<Longrightarrow> unat (NumNodes o') < 2 ^ 63 \<Longrightarrow>
       unat (NumNodes o') < unat (ReadQuorumSize o') + unat (WriteQuorumSize o')"
proof -
  have h: "ReadQuorumSize o' \<le> NumNodes o'" "WriteQuorumSize o' \<le> NumNodes o'"
    "NumNodes o' div 2 < WriteQuorumSize o'"
    "sloppyQuorum o' \<or> NumNodes o' < ReadQuorumSize o' + WriteQuorumSize o'"
    using assms by (auto simp: check_options_def Let_def not_le split: if_splits)
  show 1: "unat (ReadQuorumSize o') \<le> unat (NumNodes o')" "unat (WriteQuorumSize o') \<le> unat (NumNodes o')"
    using h(1,2) by (simp_all add: word_le_nat_alt)
  show 2: "unat (NumNodes o') < 2 * unat (WriteQuorumSize o')"
    using h(3) by (simp add: word_less_nat_alt unat_div)
  show "0 < unat (NumNodes o')" using 1 2 by linarith
  show "unat (NumNodes o') < unat (ReadQuorumSize o') + unat (WriteQuorumSize o')"
    if "\<not> sloppyQuorum o'" "unat (NumNodes o') < 2 ^ 63"
    using h(4) that 1 by (simp add: word_less_nat_alt unat_word_ariths)
qed

end
