(* ===== verification/Props_Harness.thy ===== *)
theory Props_Harness
  imports Locker Network Dbnode_Loop Simulation_Options
begin

text \<open>The properties of the client, the client locker, the partitions and the options.\<close>

section \<open>The client\<close>

text \<open>C34: a read of the client answers its own request. It sends at most \<open>numAttempts\<close>
  requests; if it succeeds, the value is that of a positive response routed, during the last
  attempt, to the id of that attempt, whatever other requests of the same client do; if it
  fails, all attempts were made and no value is returned.\<close>

theorem client_get_answers_own_request:
  assumes "Client_Get key s c = ((v, ts, ok), c')"
    and "\<And>j. list_all (leaves (a_id (s j))) (a_events (s j))"
  shows "\<exists>k. k \<le> nat (numAttempts c) \<and>
    requests c' = requests c @ map (\<lambda>j. read_request c key (s j)) [0..<k] \<and>
    (if ok then 0 < k \<and> (\<exists>m. Routed m \<in> set (a_events (s (k - 1))) \<and> Id' m = a_id (s (k - 1)) \<and>
        Ok m \<and> v = Value m \<and> ts = Timestamp m)
     else k = nat (numAttempts c) \<and> v = None \<and> ts = 0)"
proof -
  let ?as = "map s [0..<nat (numAttempts c)]"
  have "get_loop key ?as c = ((v, ts, ok), c')" "\<forall>a \<in> set ?as. list_all (leaves (a_id a)) (a_events a)"
    using assms by (auto simp: Client_Get_def)
  from get_loop_result [OF this] obtain k where k: "k \<le> length ?as"
      "requests c' = requests c @ map (read_request c key) (take k ?as)"
      "if ok then 0 < k \<and> (\<exists>m. routed_to (a_id (?as ! (k - 1))) (a_events (?as ! (k - 1))) m \<and> Ok m \<and>
         v = Value m \<and> ts = Timestamp m)
       else k = length ?as \<and> v = None \<and> ts = 0"
    by blast
  have "?as ! (k - 1) = s (k - 1)" if "0 < k" using that k(1) by simp
  moreover have "map (read_request c key) (take k ?as) = map (\<lambda>j. read_request c key (s j)) [0..<k]"
    using k(1) by (simp add: take_map)
  ultimately show ?thesis
    using k by (intro exI [of _ k]) (auto simp: routed_to_def split: if_splits)
qed

definition ex_answer :: "int \<Rightarrow> bool \<Rightarrow> Message" where
  "ex_answer i ok = zeroMessage\<lparr>Id' := i, DemuxKey := ClientReadResponse, Value := Some [7],
     Timestamp := 4, Ok := ok\<rparr>"

text \<open>Attempt \<open>j\<close> has id \<open>10 + j\<close>; the first is refused, the second answered.\<close>

definition ex_attempts :: "nat \<Rightarrow> attempt" where
  "ex_attempts j = \<lparr>a_id = 10 + int j, a_dest = 1,
     a_events = [Stored 3, Routed (ex_answer (10 + int j) (j = 1)), Deleted 3], a_timer = False\<rparr>"

lemma ex_attempts_simps [simp]:
  "a_id (ex_attempts j) = 10 + int j" "a_timer (ex_attempts j) = False" "a_dest (ex_attempts j) = 1"
  "a_events (ex_attempts j) = [Stored 3, Routed (ex_answer (10 + int j) (j = 1)), Deleted 3]"
  by (simp_all add: ex_attempts_def)

lemma ex_answer_simps [simp]:
  "Id' (ex_answer i b) = i" "Ok (ex_answer i b) = b" "Value (ex_answer i b) = Some [7]"
  "Timestamp (ex_answer i b) = 4"
  by (simp_all add: ex_answer_def)

lemma ex_get: "fst (Client_Get k ex_attempts (NewClient 6 2)) = (Some [7], 4, True)"
  by (simp add: Client_Get_def NewClient_def upt_rec attempt_answer_def routeResponses_def
      receive_chan_def Let_def)

theorem client_get_answers_own_request_ex:
  "\<exists>k. k \<le> 2 \<and> 0 < k \<and>
     requests (snd (Client_Get (Some [1]) ex_attempts (NewClient 6 2))) =
       map (\<lambda>j. read_request (NewClient 6 2) (Some [1]) (ex_attempts j)) [0..<k]"
proof -
  obtain c' where "Client_Get (Some [1]) ex_attempts (NewClient 6 2) = ((Some [7], 4, True), c')"
    using ex_get [of "Some [1]"] by (metis prod.collapse)
  from client_get_answers_own_request [OF this] this show ?thesis
    by (auto simp: NewClient_def)
qed

text \<open>A put can report an error for a write that may have been committed. When the first
  of two attempts gets no response (its request was sent and may be carried out) and the second
  is refused, the outcome is \<open>Error\<close>, which stands for a failed transaction, not \<open>Unknown\<close>.\<close>

theorem put_error_after_unknown:
  assumes "numAttempts c = 2" "routing c = None" "a_events (s 0) = []"
    and "a_events (s 1) = [Routed m]" "Id' m = a_id (s 1)" "\<not> Ok m" "\<not> a_timer (s 1)"
  shows "\<exists>c'. Client_put key val strong ts s c = ((Error, 0), c') \<and>
    requests c' = requests c @
      [write_request c key val strong ts (s 0), write_request c key val strong ts (s 1)]"
proof -
  let ?r = "write_request c key val strong ts"
  have "\<exists>c1. attempt_answer (?r (s 0)) (s 0) c = (None, c1) \<and> routing c1 = None \<and>
      requests c1 = requests c @ [?r (s 0)] \<and> numNodes c1 = numNodes c"
    using assms(2,3) by (simp add: attempt_answer_def Let_def set_chan_def chan_def AList.update_conv')
  then obtain c1 where 1: "attempt_answer (?r (s 0)) (s 0) c = (None, c1)" "routing c1 = None"
      "requests c1 = requests c @ [?r (s 0)]" "numNodes c1 = numNodes c"
    by blast
  have req: "write_request c1 key val strong ts (s 1) = ?r (s 1)"
    using 1(4) by (simp add: write_request_def)
  have "\<exists>c2. attempt_answer (?r (s 1)) (s 1) c1 = (Some m, c2)"
    using assms(4-7) 1(2) by (simp add: attempt_answer_def Let_def routeResponses_def)
  then obtain c2 where 2: "attempt_answer (?r (s 1)) (s 1) c1 = (Some m, c2)" by blast
  have "requests c2 = requests c1 @ [?r (s 1)]"
    using attempt_answer_fieldsD [OF 2] by simp
  then show ?thesis
    using assms(1,6) 1 2 req by (simp add: Client_put_def numeral_2_eq_2)
qed

theorem put_error_after_unknown_ex:
  "fst (Client_Put (Some [1]) (Some [2])
     (\<lambda>j. \<lparr>a_id = int j, a_dest = 0, a_events = (if j = 1 then [Routed (ex_answer 1 False)] else []),
           a_timer = False\<rparr>) (NewClient 6 2)) = (Error, 0)"
proof -
  let ?s = "\<lambda>j. \<lparr>a_id = int j, a_dest = 0,
      a_events = (if j = 1 then [Routed (ex_answer 1 False)] else []), a_timer = False\<rparr>"
  show ?thesis
    using put_error_after_unknown [of "NewClient 6 2" ?s "ex_answer 1 False" "Some [1]" "Some [2]" False 0]
    by (auto simp: NewClient_def Client_Put_def)
qed

text \<open>C37: late responses can block a client for ever. The channel of an attempt that timed
  out is never removed nor read again. The first late response to it fills the channel, a second
  one blocks the goroutine \<open>routeResponses\<close>; from then on every read fails, whatever responses
  arrive.\<close>

theorem late_responses_block_client:
  assumes "routing c = None" "chan c i = Some []" "Id' m1 = i" "Id' m2 = i"
    and "\<And>j. list_all (never_received i) (a_events (s j))"
    and "\<And>j. list_all (leaves (a_id (s j))) (a_events (s j))"
  shows "fst (Client_Get key s (fold routeResponses [m1, m2] c)) = (None, 0, False)"
  using wedged_get_loop [OF wedge [OF assms(1-4)]] assms(5,6)
  by (simp add: Client_Get_def)

text \<open>The state is that of a client after a read without response.\<close>

definition ex_silent :: "nat \<Rightarrow> attempt" where
  "ex_silent j = \<lparr>a_id = int j, a_dest = 1, a_events = [], a_timer = True\<rparr>"

theorem late_responses_block_client_ex:
  "fst (Client_Get (Some [1]) ex_attempts (fold routeResponses [ex_answer 0 True, ex_answer 0 True]
     (snd (Client_Get (Some [2]) ex_silent (NewClient 6 1))))) = (None, 0, False)"
  by (rule late_responses_block_client [where i = 0])
    (simp_all add: Client_Get_def NewClient_def ex_silent_def upt_rec attempt_answer_def Let_def)

section \<open>The client locker\<close>


lemma ex_inside: "\<exists>s. lock_reach s \<and> length (effects s) = 1 \<and> user_at (lockers s 0) = Inside"
proof -
  obtain s where s: "lock_reach s" "effects s = [(0, 0, Some (itoa 0), 1)]"
      "daemon_at (lockers s 0) = Acquiring 0 (Some (itoa 0)) 1" "lockResChan (lockers s 0)"
  proof -
    let ?s1 = "lock_init\<lparr>lockers := (lockers lock_init)(0 := Locker_Lock NewClientLocker)\<rparr>"
    let ?cl = "(Locker_Lock NewClientLocker)\<lparr>daemon_at := Acquiring 0 (Some (itoa 0)) 1\<rparr>"
    let ?w = "(0, 0, Some (itoa 0), 1)"
    let ?s2 = "?s1\<lparr>lockers := (lockers ?s1)(0 := ?cl), inflight := {?w}, calls_made := 1\<rparr>"
    have "lock_reach ?s1"
      using lock_reach.step [OF lock_reach.init lock_step.Lock [of lock_init 0]]
      by (simp add: lock_init_def NewClientLocker_def)
    moreover have "lock_step ?s1 ?s2"
      using lock_step.Read [of ?s1 0 None 0 ?cl True]
      by (simp add: lock_init_def NewClientLocker_def Locker_Lock_def version_def daemon_read_def in_int64_def)
    moreover have "lock_step ?s2 (?s2\<lparr>effects := [?w]\<rparr>)"
      using lock_step.Effect [of ?w ?s2] by (simp add: lock_init_def w_ts_def current_ts_def)
    ultimately have "lock_reach (?s2\<lparr>effects := [?w]\<rparr>)" by (blast intro: lock_reach.step)
    then show thesis
      by (rule that) (simp_all add: Locker_Lock_def NewClientLocker_def lock_init_def)
  qed
  have "lock_step s (s\<lparr>lockers := (lockers s)(0 := daemon_result Success (lockers s 0))\<rparr>)"
    by (rule lock_step.Result) (use s in simp_all)
  from lock_reach.step [OF s(1) this] s show ?thesis
    by (auto simp: daemon_result_def intro!: exI)
qed


text \<open>C39: a lost acknowledgement blocks the lock for ever. A state is reachable in which the
  strong write of locker \<open>i\<close> took effect but its outcome did not arrive; from there no user ever
  gets the lock, \<open>i\<close> included: its daemon finds the lock taken and only releases it once
  \<open>Unlock\<close> is called, which \<open>i\<close> may not do before \<open>Lock\<close> returns.\<close>

theorem locker_blocked_by_lost_outcome:
  assumes "in_int64 i"
  shows "\<exists>s. lock_reach s \<and> hd (effects s) = (0, i, Some (itoa i), 1) \<and>
    (\<forall>s'. lock_step\<^sup>*\<^sup>* s s' \<longrightarrow> user_at (lockers s' i) = Locking \<and> (\<forall>j. user_at (lockers s' j) \<noteq> Inside))"
proof -
  obtain s where s: "lock_reach s" "lost_ack i s" using lost_ack_reachable [OF assms] by blast
  have "user_at (lockers s' i) = Locking \<and> (\<forall>j. user_at (lockers s' j) \<noteq> Inside)"
    if "lock_step\<^sup>*\<^sup>* s s'" for s'
  proof -
    have "lost_ack i s'" by (rule lost_ack_forever [OF that s(2)])
    then have "user_at (lockers s' i) = Locking" "\<forall>j. user_at (lockers s' j) \<in> {Outside, Locking}"
      unfolding lost_ack_def by blast+
    then show ?thesis by (metis insert_iff singletonD user.distinct(3) user.distinct(7))
  qed
  with s show ?thesis by (auto simp: lost_ack_def)
qed

theorem locker_blocked_by_lost_outcome_ex:
  "\<exists>s. lock_reach s \<and> user_at (lockers s 3) = Locking"
  using locker_blocked_by_lost_outcome [of 3] by (auto simp: in_int64_def)

section \<open>Partitions and options\<close>

text \<open>C40: a partition separates exactly the pairs of nodes it was drawn from. Making one from
  random pairs of addresses does not panic; while it lasts, a message between two different
  addresses is dropped, in both directions, exactly if they form one of the pairs; removing it
  restores every link.\<close>

theorem partition_separates:
  assumes "\<forall>(s, d) \<in> set pairs. s \<in> {0..n} \<and> d \<in> {0..n}"
  shows "\<exists>p. createPartition (random_links pairs) (newPartitions n) = Inr p \<and>
    (\<forall>msg. 0 \<le> Dest msg \<and> Dest msg \<le> n \<and> Src msg \<noteq> Dest msg \<longrightarrow>
       startHelper (n + 1) p msg = Inr
         (if (Src msg, Dest msg) \<in> set pairs \<or> (Dest msg, Src msg) \<in> set pairs
          then Dropped else Delivered (Dest msg))) \<and>
    down (removePartition (random_links pairs) p) = {}"
proof -
  have "fst ` set (random_links pairs) \<subseteq> dom (newPartitions n)"
    using random_links_fst [OF assms] by (auto simp: newPartitions_def split: if_splits)
  from createPartition_down [OF this] obtain p where
    p: "createPartition (random_links pairs) (newPartitions n) = Inr p" "down p = ordered ` set pairs"
    using random_links_set [of pairs] by auto
  have link: "linkAvailable p s d \<longleftrightarrow> (s, d) \<notin> set pairs \<and> (d, s) \<notin> set pairs" if "s < d" for s d
  proof -
    have "linkAvailable p s d \<longleftrightarrow> (s, d) \<notin> ordered ` set pairs"
      using p(2) down_iff by blast
    also have "(s, d) \<in> ordered ` set pairs \<longleftrightarrow> (s, d) \<in> set pairs \<or> (d, s) \<in> set pairs"
      using that by (force simp: ordered_def image_iff min_def max_def split: if_splits)
    finally show ?thesis by blast
  qed
  have "startHelper (n + 1) p msg = Inr
      (if (Src msg, Dest msg) \<in> set pairs \<or> (Dest msg, Src msg) \<in> set pairs
       then Dropped else Delivered (Dest msg))"
    if "0 \<le> Dest msg" "Dest msg \<le> n" "Src msg \<noteq> Dest msg" for msg
    using that link [of "Src msg" "Dest msg"] link [of "Dest msg" "Src msg"]
    by (cases "Src msg < Dest msg") (auto simp: startHelper_def)
  then show ?thesis
    using p removePartition_down [of "random_links pairs" p] random_links_set [of pairs] by auto
qed

theorem partition_separates_ex:
  "\<exists>p. createPartition (random_links [(4, 1), (2, 2), (1, 4)]) (newPartitions 5) = Inr p \<and>
     startHelper 6 p (zeroMessage\<lparr>Src := 1, Dest := 4\<rparr>) = Inr Dropped \<and>
     startHelper 6 p (zeroMessage\<lparr>Src := 4, Dest := 2\<rparr>) = Inr (Delivered 2)"
  using partition_separates [of "[(4, 1), (2, 2), (1, 4)]" 5] by (force simp: zeroMessage_def)

text \<open>Overlapping partitions are not kept apart. When two partitions share a link, the end
  of the first makes it available although the second is still in force: links are marked, not
  counted.\<close>

theorem overlapping_partition_reopens:
  assumes "fst ` set a \<subseteq> dom p" "fst ` set b \<subseteq> dom p" "(s, d) \<in> link_set a" "(s, d) \<in> link_set b"
  shows "\<exists>p1 p2. createPartition a p = Inr p1 \<and> createPartition b p1 = Inr p2 \<and>
    \<not> linkAvailable p2 s d \<and> linkAvailable (removePartition a p2) s d"
proof -
  obtain p1 where 1: "createPartition a p = Inr p1" "dom p1 = dom p"
    using createPartition_down [OF assms(1)] by blast
  with assms(2) obtain p2 where 2: "createPartition b p1 = Inr p2" "down p2 = link_set b \<union> down p1"
    using createPartition_down [of b p1] by auto
  have "(s, d) \<in> down p2" "(s, d) \<notin> down (removePartition a p2)"
    using assms(3,4) 2(2) removePartition_down [of a p2] by auto
  then have "\<not> linkAvailable p2 s d" "linkAvailable (removePartition a p2) s d"
    by (simp_all only: down_iff simp_thms)
  then show ?thesis using 1(1) 2(1) by blast
qed

theorem overlapping_partition_reopens_ex:
  "\<exists>p1 p2. createPartition [(0, [1, 2])] (newPartitions 3) = Inr p1 \<and>
     createPartition [(0, [2, 3])] p1 = Inr p2 \<and>
     \<not> linkAvailable p2 0 2 \<and> linkAvailable (removePartition [(0, [1, 2])] p2) 0 2"
  by (rule overlapping_partition_reopens) (auto simp: newPartitions_def)

text \<open>The options \<open>Simulate\<close> accepts give quorums that intersect: any two write quorums do,
  and unless quorums are sloppy every read quorum meets every write quorum. (From \<open>2 ^ 63\<close> nodes
  on the sum of the sizes would wrap around.)\<close>

theorem accepted_quorums_intersect:
  assumes "check_options o' = Inr ()" "N = {0..<unat (NumNodes o')}"
    and "W \<subseteq> N" "card W = unat (WriteQuorumSize o')"
    and "R \<subseteq> N"
    and "card R = unat (WriteQuorumSize o') \<or>
      \<not> sloppyQuorum o' \<and> unat (NumNodes o') < 2 ^ 63 \<and> card R = unat (ReadQuorumSize o')"
  shows "R \<inter> W \<noteq> {} \<and> 0 < unat (NumNodes o') \<and> unat (ReadQuorumSize o') \<le> unat (NumNodes o')"
proof -
  note sizes = accepted_sizes [OF assms(1)]
  have "card N < card R + card W"
    using assms(2,4,6) sizes(3,5) by auto
  then have "R \<inter> W \<noteq> {}"
    using sets_intersect [of N R W] assms(2,3,5) by simp
  then show ?thesis using sizes(1,4) by simp
qed

definition ex_options :: Options where
  "ex_options = main_defaults"

theorem accepted_quorums_intersect_ex:
  "check_options ex_options = Inr () \<and> {0, 1, 2} \<inter> {2, 3, 4} \<noteq> ({} :: nat set)"
proof -
  have "check_options ex_options = Inr ()"
    by (simp add: check_options_def ex_options_def main_defaults_def sloppyQuorum_def)
  with accepted_quorums_intersect [of ex_options _ "{2, 3, 4}" "{0, 1, 2}"]
  show ?thesis by (simp add: ex_options_def main_defaults_def)
qed

text \<open>The accepted options include a read quorum of size 0 when quorums are sloppy; a node
  started with them panics on the first read it is sent.\<close>

theorem zero_read_quorum_panics:
  assumes "check_options o' = Inr ()" "ReadQuorumSize o' = 0"
    and "DemuxKey m = ClientReadRequest" "Dest m = i"
  shows "sloppyQuorum o' \<and> handleRequests_step e (Incoming m)
    (New h (uint (NumNodes o')) i ps (uint (ReadQuorumSize o')) (uint (WriteQuorumSize o')) (sloppyQuorum o')) =
      Inl Panic"
proof
  show "sloppyQuorum o'"
    using assms(1,2) by (auto simp: check_options_def Let_def not_le split: if_splits)
  show "handleRequests_step e (Incoming m)
    (New h (uint (NumNodes o')) i ps (uint (ReadQuorumSize o')) (uint (WriteQuorumSize o')) (sloppyQuorum o')) =
      Inl Panic"
    using assms(2-4)
    by (simp add: on_incoming_def New_def alloc_def Let_def on_timer_def dispatch_def enqueue_request_def
        serve_def enqueue_def dequeue_def queue_contains_def empty_queue_def queue_empty_def deref_def
        start_transaction_def fastReads_def continueProcessing_def continueFastRead_def assembleQuorum_def)
qed

theorem zero_read_quorum_panics_ex:
  "\<forall>e h. handleRequests_step e (Incoming (zeroMessage\<lparr>DemuxKey := ClientReadRequest, Dest := 2\<rparr>))
     (New h 5 2 False 0 3 True) = Inl Panic"
  using zero_read_quorum_panics [of "ex_options\<lparr>ReadQuorumSize := 0, SloppyQuorum := True\<rparr>"
      "zeroMessage\<lparr>DemuxKey := ClientReadRequest, Dest := 2\<rparr>" 2 _ _ False]
  by (simp add: check_options_def ex_options_def main_defaults_def sloppyQuorum_def)

end
