(* ===== verification/Cluster.thy ===== *)
theory Cluster
  imports Elector Dbnode_Loop Network
begin

text \<open>
  The system that \<open>Simulate\<close> in \<open>src/net/manager.go\<close> starts, as one machine: \<open>N\<close> nodes with
  their repeaters and electors, the links between them and to the client's address \<open>N\<close>, and
  the partitions. A client puts its request on the link of the coordinator it picks. Every goroutine of the program takes its steps as events of this machine:
  what a component puts on a channel is appended to the channel here, and what it takes from
  one is removed. Channels with random delays behind them are taken from in any order.
\<close>

section \<open>State\<close>

text \<open>
  \<open>outboxes i\<close> is the channel \<open>Outgoing\<close> of node \<open>i\<close>, which its elector and its repeater share
  with its main loop; \<open>el_calls i\<close> are the calls of the elector interface still on its way to the
  elector; \<open>net\<close> are the messages in \<open>sendAfterDelay\<close> or in the buffer of a link; \<open>asked\<close> are
  the client requests so far, by which new requests get fresh ids.
\<close>

record cluster =
  nodes :: "int \<Rightarrow> Dbnode"
  rings :: "int \<Rightarrow> ring"
  ringing :: "int \<Rightarrow> bool"
  outboxes :: "int \<Rightarrow> Message list"
  el_calls :: "int \<Rightarrow> elector_call list"
  parts :: partitions
  net :: "Message list"
  asked :: "Message list"

definition cluster_init :: "(byte list \<Rightarrow> byte list) \<Rightarrow> int \<Rightarrow> int \<Rightarrow> int \<Rightarrow> bool \<Rightarrow> cluster" where
  "cluster_init h N rqs wqs sloppy =
     \<lparr>nodes = (\<lambda>i. New h N i False rqs wqs sloppy), rings = (\<lambda>i. New_Elector i N), ringing = (\<lambda>_. False),
      outboxes = (\<lambda>_. []), el_calls = (\<lambda>_. []), parts = newPartitions N, net = [], asked = []\<rparr>"

section \<open>Events\<close>

datatype cluster_event =
    Ask Message
  | Route int nat
  | Lose nat
  | Receive env nat
  | Control int env Messagetype
  | Timer int env nat
  | Lock_timer int env nat
  | Query int env
  | Resend int nat
  | Stream int order
  | Ring_start int int
  | Call int int nat
  | Ring_timer int int nat
  | Ring_query int int
  | Partition links
  | Heal links

text \<open>The element at a position, and the list without it.\<close>

definition without :: "nat \<Rightarrow> 'a list \<Rightarrow> 'a list" where
  "without k xs = take k xs @ drop (Suc k) xs"

text \<open>What the steps of a node and of an elector leave on the channels they share.\<close>

definition after_node :: "int \<Rightarrow> Dbnode \<Rightarrow> cluster \<Rightarrow> cluster" where
  "after_node i n c =
     c\<lparr>nodes := (nodes c)(i := n),
       outboxes := (outboxes c)(i := outboxes c i @ drop (length (Outgoing (nodes c i))) (Outgoing n)),
       el_calls := (el_calls c)(i := el_calls c i @ drop (length (electorCalls (nodes c i))) (electorCalls n))\<rparr>"

definition after_ring :: "int \<Rightarrow> ring \<Rightarrow> cluster \<Rightarrow> cluster" where
  "after_ring i r c =
     c\<lparr>rings := (rings c)(i := r),
       outboxes := (outboxes c)(i := outboxes c i @ drop (length (r_outgoing (rings c i))) (r_outgoing r))\<rparr>"

definition node_step :: "env \<Rightarrow> event \<Rightarrow> int \<Rightarrow> cluster \<Rightarrow> cluster res" where
  "node_step e ev i c =
     bind_res (handleRequests_step e ev (nodes c i)) (\<lambda>n. Inr (after_node i n c))"

definition elector_step :: "int \<Rightarrow> Message \<Rightarrow> int \<Rightarrow> cluster \<Rightarrow> cluster res" where
  "elector_step now m i c = bind_res (ring_step now m (rings c i)) (\<lambda>r. Inr (after_ring i r c))"

text \<open>One iteration of a goroutine of the repeater.\<close>

definition resend :: "nat \<Rightarrow> Dbnode \<Rightarrow> Dbnode" where
  "resend k n =
     (let r = requestRepeater n; (out, next) = send_iter r (tasks r ! k)
      in n\<lparr>Outgoing := Outgoing n @ out,
           requestRepeater := r\<lparr>tasks := (case next of None \<Rightarrow> without k (tasks r) | Some t \<Rightarrow> (tasks r)[k := t])\<rparr>\<rparr>)"

text \<open>A round of the propagater's goroutine.\<close>

definition stream_round :: "order \<Rightarrow> Dbnode \<Rightarrow> Dbnode" where
  "stream_round ord n =
     (case backgroundWriteDaemon n of
        None \<Rightarrow> n
      | Some p \<Rightarrow> let (out, p') = streamWrites ord p
                  in n\<lparr>Outgoing := Outgoing n @ out, backgroundWriteDaemon := Some p'\<rparr>)"

fun cluster_step :: "int \<Rightarrow> cluster_event \<Rightarrow> cluster \<Rightarrow> cluster res" where
  "cluster_step N (Ask m) c =
     Inr (c\<lparr>asked := asked c @ [m], outboxes := (outboxes c)(Dest m := outboxes c (Dest m) @ [m])\<rparr>)"
| "cluster_step N (Route i k) c =
     (let m = outboxes c i ! k; c1 = c\<lparr>outboxes := (outboxes c)(i := without k (outboxes c i))\<rparr>
      in bind_res (startHelper (N + 1) (parts c) m) (\<lambda>r.
           Inr (case r of Delivered d \<Rightarrow> c1\<lparr>net := net c @ [m]\<rparr> | _ \<Rightarrow> c1)))"
| "cluster_step N (Lose k) c = Inr (c\<lparr>net := without k (net c)\<rparr>)"
| "cluster_step N (Receive e k) c =
     node_step e (Incoming (net c ! k)) (Dest (net c ! k)) (c\<lparr>net := without k (net c)\<rparr>)"
| "cluster_step N (Control i e k) c = node_step e (Incoming (zeroMessage\<lparr>DemuxKey := k\<rparr>)) i c"
| "cluster_step N (Timer i e k) c =
     node_step e (Incoming (timer_signal (nodes c i) (internalTimer (nodes c i) ! k))) i c"
| "cluster_step N (Lock_timer i e k) c = node_step e (TimedOutLockRequest (lockTimers (nodes c i) ! k)) i c"
| "cluster_step N (Query i e) c = node_step e StateQueryReq i c"
| "cluster_step N (Resend i k) c = Inr (after_node i (resend k (nodes c i)) c)"
| "cluster_step N (Stream i ord) c = Inr (after_node i (stream_round ord (nodes c i)) c)"
| "cluster_step N (Ring_start i now) c =
     bind_res (ring_start now (rings c i)) (\<lambda>r. Inr ((after_ring i r c)\<lparr>ringing := (ringing c)(i := True)\<rparr>))"
| "cluster_step N (Call i now k) c =
     (let c1 = c\<lparr>el_calls := (el_calls c)(i := without k (el_calls c i))\<rparr>
      in case el_calls c i ! k of
           ProcessMsg m \<Rightarrow> elector_step now m i c1
         | ForwardToLeader m \<Rightarrow> Inr (c1\<lparr>rings := (rings c)(i := ring_ForwardToLeader m (rings c i))\<rparr>))"
| "cluster_step N (Ring_timer i now k) c =
     elector_step now (zeroMessage\<lparr>Id' := r_internalTimer (rings c i) ! k, DemuxKey := InternalTimerSignal\<rparr>) i c"
| "cluster_step N (Ring_query i now) c = elector_step now (zeroMessage\<lparr>DemuxKey := InternalLeaderQuery\<rparr>) i c"
| "cluster_step N (Partition ls) c = bind_res (createPartition ls (parts c)) (\<lambda>p. Inr (c\<lparr>parts := p\<rparr>))"
| "cluster_step N (Heal ls) c = Inr (c\<lparr>parts := removePartition ls (parts c)\<rparr>)"

text \<open>
  One iteration of \<open>triggerNodeFailures\<close>, by its random choices: a node fails, or the links
  between random pairs of addresses do. The first event comes at once, the second after a delay.
\<close>

datatype fault = Node_failure int | Random_partition "(int \<times> int) list"

fun triggerNodeFailures :: "env \<Rightarrow> env \<Rightarrow> fault \<Rightarrow> cluster_event \<times> cluster_event" where
  "triggerNodeFailures e e' (Node_failure i) = (Control i e ControlFail, Control i e' ControlRecover)"
| "triggerNodeFailures e e' (Random_partition pairs) = (Partition (random_links pairs), Heal (random_links pairs))"

section \<open>Reachable states\<close>

text \<open>A random permutation of the peers, and orders of the loops over maps.\<close>

definition chance :: "int \<Rightarrow> env \<Rightarrow> bool" where
  "chance N e \<longleftrightarrow> distinct (peersPerm e) \<and> set (peersPerm e) = {0..<N - 1} \<and> (\<forall>site. valid_order (rangeOrder e site))"

text \<open>
  When an event can happen. A client asks under an id that no request has had (\<open>idStream\<close>),
  from the address \<open>N\<close>; the leader a main loop learns is the one its elector has. Messages to
  the client's address leave the network by \<open>Lose\<close>.
\<close>

fun possible :: "int \<Rightarrow> cluster_event \<Rightarrow> cluster \<Rightarrow> bool" where
  "possible N (Ask m) c \<longleftrightarrow> Src m = N \<and> 0 \<le> Dest m \<and> Dest m < N \<and> client_request_type (DemuxKey m) \<and>
     Id' m \<notin> Id' ` set (asked c)"
| "possible N (Route i k) c \<longleftrightarrow> 0 \<le> i \<and> i \<le> N \<and> k < length (outboxes c i)"
| "possible N (Lose k) c \<longleftrightarrow> k < length (net c)"
| "possible N (Receive e k) c \<longleftrightarrow> k < length (net c) \<and> 0 \<le> Dest (net c ! k) \<and> Dest (net c ! k) < N \<and>
     leaderAnswer e = leader (rings c (Dest (net c ! k)))"
| "possible N (Control i e k) c \<longleftrightarrow> 0 \<le> i \<and> i < N \<and> k \<in> {ControlFail, ControlRecover}"
| "possible N (Timer i e k) c \<longleftrightarrow> 0 \<le> i \<and> i < N \<and> k < length (internalTimer (nodes c i))"
| "possible N (Lock_timer i e k) c \<longleftrightarrow> 0 \<le> i \<and> i < N \<and> k < length (lockTimers (nodes c i))"
| "possible N (Query i e) c \<longleftrightarrow> 0 \<le> i \<and> i < N"
| "possible N (Resend i k) c \<longleftrightarrow> 0 \<le> i \<and> i < N \<and> k < length (tasks (requestRepeater (nodes c i)))"
| "possible N (Stream i ord) c \<longleftrightarrow> 0 \<le> i \<and> i < N \<and> backgroundWriteDaemon (nodes c i) \<noteq> None"
| "possible N (Ring_start i now) c \<longleftrightarrow> 0 \<le> i \<and> i < N \<and> \<not> ringing c i"
| "possible N (Call i now k) c \<longleftrightarrow> 0 \<le> i \<and> i < N \<and> ringing c i \<and> k < length (el_calls c i)"
| "possible N (Ring_timer i now k) c \<longleftrightarrow> 0 \<le> i \<and> i < N \<and> ringing c i \<and> k < length (r_internalTimer (rings c i))"
| "possible N (Ring_query i now) c \<longleftrightarrow> 0 \<le> i \<and> i < N \<and> ringing c i"
| "possible N (Partition ls) c \<longleftrightarrow> fst ` set ls \<subseteq> {0..N}"
| "possible N (Heal ls) c \<longleftrightarrow> True"

fun env_of :: "cluster_event \<Rightarrow> env option" where
  "env_of (Receive e k) = Some e"
| "env_of (Control i e k) = Some e"
| "env_of (Timer i e k) = Some e"
| "env_of (Lock_timer i e k) = Some e"
| "env_of (Query i e) = Some e"
| "env_of _ = None"

definition random_ok :: "int \<Rightarrow> cluster_event \<Rightarrow> bool" where
  "random_ok N ev \<longleftrightarrow> (case env_of ev of None \<Rightarrow> True | Some e \<Rightarrow> chance N e) \<and>
     (case ev of Stream i ord \<Rightarrow> valid_order ord | _ \<Rightarrow> True)"

definition enabled :: "int \<Rightarrow> cluster_event \<Rightarrow> cluster \<Rightarrow> bool" where
  "enabled N ev c \<longleftrightarrow> possible N ev c \<and> random_ok N ev"

inductive cluster_reach :: "int \<Rightarrow> cluster \<Rightarrow> cluster \<Rightarrow> bool" for N c0 where
  reach_init: "cluster_reach N c0 c0"
| reach_step: "cluster_reach N c0 c \<Longrightarrow> enabled N ev c \<Longrightarrow> cluster_step N ev c = Inr c' \<Longrightarrow> cluster_reach N c0 c'"

text \<open>The faults the simulation makes are among the events.\<close>

lemma faults_enabled:
  assumes "case f of Node_failure i \<Rightarrow> 0 \<le> i \<and> i < N | Random_partition ps \<Rightarrow> \<forall>(s, d) \<in> set ps. s \<in> {0..N} \<and> d \<in> {0..N}"
    and "chance N e" "chance N e'"
  shows "enabled N (fst (triggerNodeFailures e e' f)) c" "enabled N (snd (triggerNodeFailures e e' f)) c"
  using assms random_links_fst [of _ "{0..N}"]
  by (cases f; simp add: enabled_def random_ok_def)+

text \<open>A schedule of events, each enabled when its turn comes.\<close>

fun cluster_run :: "int \<Rightarrow> cluster_event list \<Rightarrow> cluster \<Rightarrow> cluster option" where
  "cluster_run N [] c = Some c"
| "cluster_run N (ev # evs) c =
     (if possible N ev c then case cluster_step N ev c of Inl _ \<Rightarrow> None | Inr c' \<Rightarrow> cluster_run N evs c' else None)"

lemma cluster_run_reach:
  "cluster_run N evs c = Some c' \<Longrightarrow> \<forall>ev \<in> set evs. random_ok N ev \<Longrightarrow> cluster_reach N c0 c \<Longrightarrow>
    cluster_reach N c0 c'"
proof (induction N evs c rule: cluster_run.induct)
  case (2 N ev evs c)
  then obtain c1 where c1: "possible N ev c" "cluster_step N ev c = Inr c1" "cluster_run N evs c1 = Some c'"
    by (auto split: if_splits sum.splits)
  then have "cluster_reach N c0 c1"
    using reach_step [OF 2(4) _ c1(2)] 2(3) by (simp add: enabled_def)
  with 2(1) [OF c1(1,2,3)] 2(3) show ?case by simp
qed simp

end
