(* ===== verification/Dbnode_Mail.thy ===== *)
theory Dbnode_Mail
  imports Dbnode_Safety Ring_Safety
begin

text \<open>
  What a node puts on the network, given that what it receives is in order: every message is
  addressed from its sender to its receiver, answers concern the request they answer, and
  every value that is stored, sent or answered was asked to be written under its key. The
  predicates are over a \<open>world\<close>: the number of nodes, the requests clients have made, the node
  that has accepted each of them as its coordinator, and whether committed writes are propagated.
\<close>

section \<open>Messages in order\<close>

record world =
  w_n :: int
  w_reqs :: "Message set"
  w_own :: "int \<Rightarrow> int option"
  w_sloppy :: bool

text \<open>Request ids are unique.\<close>

definition world_ok :: "world \<Rightarrow> bool" where
  "world_ok W \<longleftrightarrow> (\<forall>c \<in> w_reqs W. \<forall>d \<in> w_reqs W. Id' c = Id' d \<longrightarrow> c = d)"

definition is_node :: "world \<Rightarrow> int \<Rightarrow> bool" where
  "is_node W i \<longleftrightarrow> 0 \<le> i \<and> i < w_n W"

text \<open>A value some client asked to be written under the key, or none.\<close>

definition written :: "world \<Rightarrow> byte list \<Rightarrow> bytes \<Rightarrow> bool" where
  "written W k v \<longleftrightarrow> raw v = [] \<or>
     (\<exists>c \<in> w_reqs W. DemuxKey c \<in> {ClientWriteRequest, ClientStrongWriteRequest} \<and>
        raw (Key c) = k \<and> raw (Value c) = raw v)"

text \<open>A key some client has named.\<close>

definition known_key :: "world \<Rightarrow> bytes \<Rightarrow> bool" where
  "known_key W k \<longleftrightarrow> (\<exists>c \<in> w_reqs W. Key c = k)"

text \<open>A client's request, up to its addressee and its timestamp.\<close>

definition asks :: "world \<Rightarrow> Message \<Rightarrow> bool" where
  "asks W m \<longleftrightarrow> Src m = w_n W \<and> client_request_type (DemuxKey m) \<and>
     (\<exists>c \<in> w_reqs W. Id' c = Id' m \<and> DemuxKey c = DemuxKey m \<and> Key c = Key m \<and> Value c = Value m)"

definition concerns :: "world \<Rightarrow> Message \<Rightarrow> bool" where
  "concerns W m \<longleftrightarrow> (\<exists>c \<in> w_reqs W. Id' c = Id' m \<and> Key c = Key m)"

definition from_coordinator :: "world \<Rightarrow> Message \<Rightarrow> bool" where
  "from_coordinator W m \<longleftrightarrow> is_node W (Src m) \<and> is_node W (Dest m) \<and> Src m \<noteq> Dest m \<and> w_own W (Id' m) = Some (Src m)"

definition to_coordinator :: "world \<Rightarrow> Message \<Rightarrow> bool" where
  "to_coordinator W m \<longleftrightarrow> is_node W (Src m) \<and> is_node W (Dest m) \<and> Src m \<noteq> Dest m \<and> w_own W (Id' m) = Some (Dest m)"

definition answers_read :: "world \<Rightarrow> Message \<Rightarrow> bool" where
  "answers_read W m \<longleftrightarrow> written W (raw (Key m)) (Value m) \<and>
     (\<exists>c \<in> w_reqs W. DemuxKey c = ClientReadRequest \<and> Id' c = Id' m \<and> Key c = Key m)"

definition answers_write :: "world \<Rightarrow> Message \<Rightarrow> bool" where
  "answers_write W m \<longleftrightarrow>
     (\<exists>c \<in> w_reqs W. DemuxKey c \<in> {ClientWriteRequest, ClientStrongWriteRequest} \<and> Id' c = Id' m \<and>
        Key c = Key m \<and> Value c = Value m)"

definition propagates :: "world \<Rightarrow> Message \<Rightarrow> bool" where
  "propagates W m \<longleftrightarrow> w_sloppy W \<and> is_node W (Src m) \<and> is_node W (Dest m) \<and> known_key W (Key m) \<and>
     written W (raw (Key m)) (Value m)"

definition proper :: "world \<Rightarrow> Message \<Rightarrow> bool" where
  "proper W m \<longleftrightarrow>
     (case DemuxKey m of
        ClientReadRequest \<Rightarrow> asks W m \<and> is_node W (Dest m)
      | ClientWriteRequest \<Rightarrow> asks W m \<and> is_node W (Dest m)
      | ClientStrongWriteRequest \<Rightarrow> asks W m \<and> is_node W (Dest m)
      | ClientReadResponse \<Rightarrow> is_node W (Src m) \<and> Dest m = w_n W \<and> (Ok m \<longrightarrow> answers_read W m)
      | ClientWriteResponse \<Rightarrow> is_node W (Src m) \<and> Dest m = w_n W \<and> (Ok m \<longrightarrow> answers_write W m)
      | NodeLockRequest \<Rightarrow> from_coordinator W m
      | NodeLockRequestNoTimeout \<Rightarrow> from_coordinator W m
      | NodeLockResponse \<Rightarrow> to_coordinator W m
      | NodeUnlockRequest \<Rightarrow> from_coordinator W m
      | NodeUnlockAck \<Rightarrow> to_coordinator W m
      | NodeGetRequest \<Rightarrow> from_coordinator W m \<and> concerns W m
      | NodeGetResponse \<Rightarrow> to_coordinator W m \<and> concerns W m \<and> written W (raw (Key m)) (Value m)
      | NodePutRequest \<Rightarrow> from_coordinator W m \<and> concerns W m \<and> written W (raw (Key m)) (Value m)
      | NodePutResponse \<Rightarrow> to_coordinator W m
      | NodeTimestampRequest \<Rightarrow> from_coordinator W m \<and> concerns W m
      | NodeBackgroundWriteRequest \<Rightarrow> propagates W m
      | NodeBackgroundWriteResponse \<Rightarrow> propagates W m
      | ElectionElect \<Rightarrow> is_node W (Src m) \<and> is_node W (Dest m) \<and> holds (w_n W) any_ids (Value m)
      | ElectionAck \<Rightarrow> is_node W (Src m) \<and> is_node W (Dest m)
      | _ \<Rightarrow> False)"

text \<open>What a node sends of its own accord: no client request.\<close>

definition plain :: "world \<Rightarrow> Message \<Rightarrow> bool" where
  "plain W m \<longleftrightarrow> proper W m \<and> \<not> client_request_type (DemuxKey m)"

text \<open>The world grows: more requests are made and more of them accepted.\<close>

definition grows :: "world \<Rightarrow> world \<Rightarrow> bool" where
  "grows W W' \<longleftrightarrow> w_n W' = w_n W \<and> w_sloppy W' = w_sloppy W \<and> w_reqs W \<subseteq> w_reqs W' \<and> w_own W \<subseteq>\<^sub>m w_own W'"

lemma grows_refl [simp]: "grows W W"
  by (simp add: grows_def)

lemma grows_own: "grows W W' \<Longrightarrow> w_own W i = Some j \<Longrightarrow> w_own W' i = Some j"
  by (metis domI grows_def map_le_def)

lemma grows_mono:
  assumes "grows W W'"
  shows "is_node W i \<Longrightarrow> is_node W' i" "written W k v \<Longrightarrow> written W' k v" "asks W m \<Longrightarrow> asks W' m"
    "concerns W m \<Longrightarrow> concerns W' m" "from_coordinator W m \<Longrightarrow> from_coordinator W' m"
    "to_coordinator W m \<Longrightarrow> to_coordinator W' m" "answers_read W m \<Longrightarrow> answers_read W' m"
    "propagates W m \<Longrightarrow> propagates W' m" "answers_write W m \<Longrightarrow> answers_write W' m" "known_key W b \<Longrightarrow> known_key W' b"
  using assms grows_own [OF assms]
  by (auto simp: grows_def is_node_def written_def asks_def concerns_def from_coordinator_def to_coordinator_def
      answers_read_def answers_write_def propagates_def known_key_def)

lemma proper_mono: "grows W W' \<Longrightarrow> proper W m \<Longrightarrow> proper W' m"
  using grows_mono [of W W'] 
  by (cases "DemuxKey m") (simp_all add: proper_def grows_def)

lemma plain_mono: "grows W W' \<Longrightarrow> plain W m \<Longrightarrow> plain W' m"
  by (simp add: plain_def proper_mono)

lemma written_raw: "raw v = raw v' \<Longrightarrow> written W k v = written W k v'"
  by (simp add: written_def)

lemma written_empty [simp]: "written W k None" "written W k (Some [])"
  by (simp_all add: written_def)

lemma asks_written:
  "asks W m \<Longrightarrow> DemuxKey m \<noteq> ClientReadRequest \<Longrightarrow> written W (raw (Key m)) (Value m)"
  by (auto simp: asks_def written_def client_request_type_def)

lemma asks_answers_write:
  "asks W c \<Longrightarrow> DemuxKey c \<noteq> ClientReadRequest \<Longrightarrow> Id' m = Id' c \<Longrightarrow> Key m = Key c \<Longrightarrow> Value m = Value c \<Longrightarrow>
    answers_write W m"
  by (auto simp: asks_def answers_write_def client_request_type_def)

lemma asks_known: "asks W m \<Longrightarrow> known_key W (Key m)"
  by (auto simp: asks_def known_key_def)

lemma asks_concerns: "asks W m \<Longrightarrow> Id' m' = Id' m \<Longrightarrow> Key m' = Key m \<Longrightarrow> concerns W m'"
  by (auto simp: asks_def concerns_def)

text \<open>Two messages about one request agree on the key.\<close>

lemma concerns_key:
  assumes "world_ok W" "concerns W m" "asks W c" "Id' m = Id' c"
  shows "Key m = Key c"
  using assms by (fastforce simp: world_ok_def concerns_def asks_def)

section \<open>The store\<close>

definition entry :: "world \<Rightarrow> byte list \<Rightarrow> byte list \<Rightarrow> bool" where
  "entry W k x \<longleftrightarrow> x = [] \<or> (\<exists>ts v. x = raw (encodeTimestampVal ts v) \<and> written W k v)"

definition stored :: "world \<Rightarrow> Store \<Rightarrow> bool" where
  "stored W st \<longleftrightarrow> (\<exists>s. st = Mem s \<and> (\<forall>k. entry W k (mem_content s k)) \<and>
     (\<forall>i p. uncommitted s i = Some p \<longrightarrow> entry W (raw (pkey p)) (raw (pvalue p))))"

lemma entry_decode:
  assumes "entry W k (raw x)" "decodeTimestampVal x = Inr (t, v)"
  shows "written W k v"
proof (cases "raw x = []")
  case True
  with assms(2) show ?thesis by (simp add: decodeTimestampVal_def)
next
  case False
  with assms(1) obtain ts w where w: "raw x = raw (encodeTimestampVal ts w)" "written W k w"
    by (auto simp: entry_def)
  with decode_of_raw_encode [OF w(1)] assms(2) show ?thesis by (simp add: written_def)
qed

lemma entry_written: "written W k v \<Longrightarrow> entry W k (raw (encodeTimestampVal ts v))"
  by (auto simp: entry_def)

lemma entry_mono: "grows W W' \<Longrightarrow> entry W k x \<Longrightarrow> entry W' k x"
  using grows_mono(2) [of W W'] by (auto simp: entry_def)

lemma stored_mono: "grows W W' \<Longrightarrow> stored W st \<Longrightarrow> stored W' st"
  using entry_mono [of W W'] unfolding stored_def by blast

lemma stored_Get:
  assumes "stored W st" "Store_Get io st k = Inr (x, err)" "decodeTimestampVal x = Inr (t, v)"
  shows "written W (raw k) v"
proof -
  obtain s where s: "st = Mem s" "entry W (raw k) (mem_content s (raw k))"
    using assms(1) by (auto simp: stored_def)
  then have "raw x = mem_content s (raw k)"
    using assms(2) by (simp add: memstore_Get_def mem_content_def)
  with s(2) assms(3) show ?thesis by (metis entry_decode)
qed

lemma stored_Put:
  assumes "stored W st" "Store_Put io st k (encodeTimestampVal ts v) = Inr (st', tx)" "written W (raw k) v"
  shows "stored W st'"
  using assms entry_written [OF assms(3)]
  by (auto simp: stored_def memstore_Put_def Let_def)

lemma stored_Commit:
  assumes "stored W st"
  shows "stored W (fst (Store_Commit io st k i))"
proof -
  obtain s where s: "st = Mem s" "\<forall>k. entry W k (mem_content s k)"
    "\<forall>i p. uncommitted s i = Some p \<longrightarrow> entry W (raw (pkey p)) (raw (pvalue p))"
    using assms by (auto simp: stored_def)
  have "entry W (raw k) (raw (pvalue p))" if "uncommitted s i = Some p" "raw (pkey p) = raw k" for p
    using s(3) that by metis
  with s show ?thesis
    by (auto simp: stored_def memstore_Commit_def Let_def mem_content_insert bytes_Equal_def
        split: option.splits) (simp add: entry_def)
qed

lemma stored_Rollback: "stored W st \<Longrightarrow> stored W (Store_Rollback io st i)"
  by (auto simp: stored_def memstore_Rollback_def)

lemma stored_new: "stored W (Mem new_memstore)"
  by (simp add: stored_def entry_def) (simp add: new_memstore_def)

section \<open>The propagater\<close>

text \<open>A node has a propagater when quorums are sloppy, and it streams values that were written.\<close>

definition txns :: "propagater \<Rightarrow> transaction set" where
  "txns p = snd ` set (transactions p)"

definition streams_ok :: "world \<Rightarrow> int \<Rightarrow> int \<Rightarrow> propagater option \<Rightarrow> bool" where
  "streams_ok W i k d \<longleftrightarrow>
     (case d of
        None \<Rightarrow> \<not> w_sloppy W
      | Some p \<Rightarrow> w_sloppy W \<and> p_id p = i \<and> p_n p = k + 1 \<and>
          (\<forall>t \<in> txns p. known_key W (t_key t) \<and> written W (raw (t_key t)) (t_value t)))"

definition daemon_ok :: "world \<Rightarrow> Dbnode \<Rightarrow> bool" where
  "daemon_ok W n \<longleftrightarrow> streams_ok W (dbid n) (numPeers n) (backgroundWriteDaemon n)"

lemma daemon_mono: "grows W W' \<Longrightarrow> daemon_ok W n \<Longrightarrow> daemon_ok W' n"
  using grows_mono(2,10) [of W W'] by (auto simp: daemon_ok_def streams_ok_def grows_def split: option.splits)

lemma txns_update: "txns (p\<lparr>transactions := AList.update i t (transactions p)\<rparr>) \<subseteq> insert t (txns p)"
  using set_update_subset [of i t "transactions p"] by (force simp: txns_def)

lemma txns_delete: "txns (p\<lparr>transactions := AList.delete i (transactions p)\<rparr>) \<subseteq> txns p"
  using set_delete_subset [of i "transactions p"] by (force simp: txns_def)

lemma daemon_propagate:
  assumes "daemon_ok W n" "backgroundWriteDaemon n = Some p" "known_key W k" "written W (raw k) v"
  shows "daemon_ok W (n\<lparr>backgroundWriteDaemon := Some (propagateTransaction p i ms k v ts)\<rparr>)"
proof -
  let ?t = "\<lparr>t_key = k, t_value = v, t_timestamp = ts, numConfirmedNodes = int (length ms), nodes = set ms\<rparr>"
  have "\<forall>t \<in> insert ?t (txns p). known_key W (t_key t) \<and> written W (raw (t_key t)) (t_value t)"
    using assms by (simp add: daemon_ok_def streams_ok_def)
  then have "\<forall>t \<in> txns (propagateTransaction p i ms k v ts). known_key W (t_key t) \<and> written W (raw (t_key t)) (t_value t)"
    unfolding propagateTransaction_def using txns_update [where p = p] by blast
  with assms(1,2) show ?thesis by (simp add: daemon_ok_def streams_ok_def) (simp add: propagateTransaction_def)
qed

lemma response_txns:
  assumes "response p m = Inr p'" "u \<in> txns p'"
  shows "\<exists>t \<in> txns p. t_key u = t_key t \<and> t_value u = t_value t"
proof (cases "map_of (transactions p) (Id' m)")
  case (Some t)
  then have t: "t \<in> txns p" by (force simp: txns_def dest: map_of_SomeD)
  consider "p' = p" | "p' = p\<lparr>transactions := AList.delete (Id' m) (transactions p)\<rparr>"
    | "p' = p\<lparr>transactions := AList.update (Id' m)
        (t\<lparr>nodes := insert (Src m) (nodes t), numConfirmedNodes := numConfirmedNodes t + 1\<rparr>) (transactions p)\<rparr>"
    using assms(1) Some by (auto simp: response_def Let_def split: if_splits)
  then show ?thesis
  proof cases
    case 2
    with assms(2) txns_delete show ?thesis by blast
  next
    case 3
    with assms(2) txns_update [where p = p] have "u \<in> txns p \<or> t_key u = t_key t \<and> t_value u = t_value t" by fastforce
    with t show ?thesis by blast
  qed (use assms(2) in auto)
qed (use assms in \<open>auto simp: response_def split: if_splits\<close>)

lemma daemon_response:
  assumes "daemon_ok W n" "backgroundWriteDaemon n = Some p" "response p m = Inr p'"
  shows "daemon_ok W (n\<lparr>backgroundWriteDaemon := Some p'\<rparr>)"
proof -
  have "\<forall>t \<in> txns p'. known_key W (t_key t) \<and> written W (raw (t_key t)) (t_value t)"
    using response_txns [OF assms(3)] assms(1,2) by (fastforce simp: daemon_ok_def streams_ok_def)
  moreover have "p_id p' = p_id p" "p_n p' = p_n p"
    using assms(3) by (auto simp: response_def Let_def split: if_splits option.splits)
  ultimately show ?thesis using assms(1,2) by (simp add: daemon_ok_def streams_ok_def)
qed

lemma daemon_New: "daemon_ok W (New h (w_n W) i b rqs wqs (w_sloppy W))"
  by (simp add: daemon_ok_def streams_ok_def New_def newPropagater_def txns_def)

section \<open>What a handler may do\<close>

text \<open>Everything an operation puts on the network is in order, and so is the store it leaves.\<close>

definition conveys :: "world \<Rightarrow> Dbnode \<Rightarrow> Dbnode \<Rightarrow> bool" where
  "conveys W n n' \<longleftrightarrow>
     (\<exists>out. Outgoing n' = Outgoing n @ out \<and> (\<forall>m \<in> set out. plain W m)) \<and>
     (\<forall>m \<in> set (sent n'). m \<in> set (sent n) \<or> plain W m) \<and>
     electorCalls n' = electorCalls n \<and> lockRequests n' = lockRequests n \<and> lockTimers n' = lockTimers n \<and>
     cells n' = cells n \<and> dbid n' = dbid n \<and> numPeers n' = numPeers n \<and>
     readQuorumSize n' = readQuorumSize n \<and> writeQuorumSize n' = writeQuorumSize n \<and> stored W (dstore n') \<and>
     (daemon_ok W n \<longrightarrow> daemon_ok W n')"

lemma conveys_refl [simp, intro]: "stored W (dstore n) \<Longrightarrow> conveys W n n"
  by (simp add: conveys_def)

lemma conveys_stored: "conveys W n n' \<Longrightarrow> stored W (dstore n')"
  by (simp add: conveys_def)

lemma conveys_trans [trans]: "conveys W n n1 \<Longrightarrow> conveys W n1 n2 \<Longrightarrow> conveys W n n2"
  by (auto simp: conveys_def)

named_theorems conveys_frame \<open>updates that put nothing on the network\<close>

lemma conveys_upd [conveys_frame]:
  "conveys W n (n1\<lparr>quorumMembers := ms\<rparr>) = conveys W n n1"
  "conveys W n (n1\<lparr>numWaitingNodes := w\<rparr>) = conveys W n n1"
  "conveys W n (n1\<lparr>currentMode := m\<rparr>) = conveys W n n1"
  "conveys W n (n1\<lparr>currentTxid := t\<rparr>) = conveys W n n1"
  "conveys W n (n1\<lparr>clientRequest := c\<rparr>) = conveys W n n1"
  "conveys W n (n1\<lparr>uncommitedKey := k\<rparr>) = conveys W n n1"
  "conveys W n (n1\<lparr>uncommitedTxid := i\<rparr>) = conveys W n n1"
  "conveys W n (n1\<lparr>unlockTxids := us\<rparr>) = conveys W n n1"
  "conveys W n (n1\<lparr>timeoutCounter := c1\<rparr>) = conveys W n n1"
  "conveys W n (n1\<lparr>internalTimer := ts\<rparr>) = conveys W n n1"
  "conveys W n (to_idle n1) = conveys W n n1"
  "conveys W n (repeat_ack m' n1) = conveys W n n1"
  by (simp_all add: conveys_def sent_def repeat_ack_def to_idle_def daemon_ok_def)

lemma conveys_from [conveys_frame]:
  "conveys W (n\<lparr>quorumMembers := ms\<rparr>) n1 = conveys W n n1"
  "conveys W (n\<lparr>numWaitingNodes := w\<rparr>) n1 = conveys W n n1"
  "conveys W (n\<lparr>currentMode := m\<rparr>) n1 = conveys W n n1"
  "conveys W (n\<lparr>currentTxid := t\<rparr>) n1 = conveys W n n1"
  "conveys W (n\<lparr>clientRequest := c\<rparr>) n1 = conveys W n n1"
  "conveys W (n\<lparr>uncommitedKey := k\<rparr>) n1 = conveys W n n1"
  "conveys W (n\<lparr>uncommitedTxid := i\<rparr>) n1 = conveys W n n1"
  "conveys W (n\<lparr>dstore := st\<rparr>) n1 = conveys W n n1"
  "conveys W (repeat_ack m' n) n1 = conveys W n n1"
  by (simp_all add: conveys_def sent_def repeat_ack_def daemon_ok_def)

lemma conveys_store [conveys_frame]:
  "conveys W n n1 \<Longrightarrow> stored W st \<Longrightarrow> conveys W n (n1\<lparr>dstore := st\<rparr>)"
  by (auto simp: conveys_def sent_def daemon_ok_def)

lemma conveys_daemon [conveys_frame]:
  "conveys W n n1 \<Longrightarrow> (daemon_ok W n1 \<Longrightarrow> daemon_ok W (n1\<lparr>backgroundWriteDaemon := d\<rparr>)) \<Longrightarrow>
    conveys W n (n1\<lparr>backgroundWriteDaemon := d\<rparr>)"
  by (simp add: conveys_def sent_def)

lemma conveys_emit [conveys_frame]: "conveys W n n1 \<Longrightarrow> plain W m \<Longrightarrow> conveys W n (emit m n1)"
  by (auto simp: conveys_def sent_def emit_def daemon_ok_def)

lemma conveys_send:
  assumes "repeat_send m u n1 = Inr n2" "conveys W n n1" "plain W m"
  shows "(\<exists>r. n2 = n1\<lparr>requestRepeater := r\<rparr>) \<and> conveys W n n2"
proof -
  obtain r where r: "Repeater_Send (requestRepeater n1) m u = Inr r" "n2 = n1\<lparr>requestRepeater := r\<rparr>"
    using assms(1) by (auto simp: repeat_send_def)
  then have "sent n2 = sent n1 @ [m]" using Repeater_Send_tasks [OF r(1)] by (simp add: sent_def)
  with r(2) assms(2,3) show ?thesis by (auto simp: conveys_def daemon_ok_def)
qed

lemma conveys_set_member: "set_member k m n1 = Inr n2 \<Longrightarrow> conveys W n n2 = conveys W n n1"
  by (auto simp: set_member_def conveys_frame split: option.splits)

lemma conveys_send_members:
  assumes "send_members e site mk u n = Inr n'" "repeater_free mk" "env_ok e n" "stored W (dstore n)"
    and "\<And>k m. (k, m) \<in> set (memberList n) \<Longrightarrow> k \<noteq> dbid n \<Longrightarrow> plain W (mk n k m)"
  shows "(\<exists>r. n' = n\<lparr>requestRepeater := r\<rparr>) \<and> conveys W n n'"
proof (rule fold_res_invariant [OF assms(1) [unfolded send_members_def]])
  show "(\<exists>r. n = n\<lparr>requestRepeater := r\<rparr>) \<and> conveys W n n"
    using assms(4) by (auto intro: exI [of _ "requestRepeater n"])
  fix x s s'
  assume x: "x \<in> set (range_members e site n)" and s: "(\<exists>r. s = n\<lparr>requestRepeater := r\<rparr>) \<and> conveys W n s"
    and step: "(case x of (node, res) \<Rightarrow> \<lambda>s. if node = dbid s then Inr s else repeat_send (mk s node res) u s) s = Inr s'"
  obtain k m where km: "x = (k, m)" by fastforce
  have "x \<in> set (memberList n)"
    using x assms(3) set_go_range by (fastforce simp: range_members_def env_ok_def)
  with assms(2,5) s km have "k \<noteq> dbid s \<longrightarrow> plain W (mk s k m)" by (auto simp: repeater_free_def)
  with s step km conveys_send [of "mk s k m" u s s' W n]
  show "(\<exists>r. s' = n\<lparr>requestRepeater := r\<rparr>) \<and> conveys W n s'"
    by (auto split: if_splits)
qed

section \<open>The transaction a node works on\<close>

definition site :: "world \<Rightarrow> Dbnode \<Rightarrow> bool" where
  "site W n \<longleftrightarrow> w_n W = numPeers n + 1 \<and> is_node W (dbid n)"

definition inorder :: "world \<Rightarrow> env \<Rightarrow> Dbnode \<Rightarrow> bool" where
  "inorder W e n \<longleftrightarrow> world_ok W \<and> site W n \<and> env_ok e n \<and> stored W (dstore n)"

definition coordinating :: "mode \<Rightarrow> bool" where
  "coordinating m \<longleftrightarrow> m \<in> {assemblingQuorum, coordinatingWrite, coordinatingFastRead}"

text \<open>The node has accepted the request it coordinates, and its members are nodes.\<close>

definition owner :: "world \<Rightarrow> Dbnode \<Rightarrow> bool" where
  "owner W n \<longleftrightarrow> asks W (clientRequest n) \<and> w_own W (Id' (clientRequest n)) = Some (dbid n) \<and>
     currentTxid n = Id' (clientRequest n) \<and> fst ` set (memberList n) \<subseteq> {0..<w_n W}"

text \<open>The answers of a fast read: those not yet in have the timestamp 0.\<close>

definition answers_ok :: "world \<Rightarrow> Dbnode \<Rightarrow> bool" where
  "answers_ok W n \<longleftrightarrow>
     (\<forall>(k, m) \<in> set (memberList n). Timestamp m = 0 \<or> written W (raw (Key (clientRequest n))) (Value m))"

definition participant :: "world \<Rightarrow> Dbnode \<Rightarrow> bool" where
  "participant W n \<longleftrightarrow> from_coordinator W (clientRequest n) \<and> Dest (clientRequest n) = dbid n \<and>
     DemuxKey (clientRequest n) \<in> {NodeLockRequest, NodeLockRequestNoTimeout} \<and>
     currentTxid n = Id' (clientRequest n)"

definition txn :: "world \<Rightarrow> Dbnode \<Rightarrow> bool" where
  "txn W n \<longleftrightarrow> currentMode n \<noteq> coordinatingRead \<and>
     (quorumMembers n \<noteq> None \<longrightarrow> coordinating (currentMode n)) \<and>
     (coordinating (currentMode n) \<longrightarrow> owner W n \<and>
        (DemuxKey (clientRequest n) = ClientReadRequest \<longleftrightarrow> currentMode n = coordinatingFastRead)) \<and>
     (currentMode n = coordinatingFastRead \<longrightarrow> answers_ok W n) \<and>
     (currentMode n \<in> {processingRead, processingWrite} \<longrightarrow> participant W n)"

lemmas txn_defs = txn_def owner_def answers_ok_def participant_def

lemma txn_idle [simp]: "txn W (to_idle n)"
  by (simp add: txn_def to_idle_def coordinating_def)

lemma txn_ack [simp]: "txn W (repeat_ack m n) = txn W n"
  by (simp add: txn_defs repeat_ack_def memberList_def)

lemma txn_emit [simp]: "txn W (emit m n) = txn W n"
  by (simp add: txn_defs emit_def memberList_def)

lemma txn_frame [simp]:
  "txn W (n\<lparr>requestRepeater := r\<rparr>) = txn W n" "txn W (n\<lparr>dstore := st\<rparr>) = txn W n"
  "txn W (n\<lparr>uncommitedTxid := i\<rparr>) = txn W n" "txn W (n\<lparr>uncommitedKey := k\<rparr>) = txn W n"
  "txn W (n\<lparr>numWaitingNodes := w\<rparr>) = txn W n" "txn W (n\<lparr>backgroundWriteDaemon := d\<rparr>) = txn W n"
  "txn W (n\<lparr>internalTimer := ts\<rparr>) = txn W n" "txn W (n\<lparr>timeoutCounter := c\<rparr>) = txn W n"
  "txn W (n\<lparr>electorCalls := cs\<rparr>) = txn W n" "txn W (n\<lparr>lockRequests := q\<rparr>) = txn W n"
  "txn W (n\<lparr>lockTimers := lt\<rparr>) = txn W n" "txn W (n\<lparr>cells := h\<rparr>) = txn W n"
  "txn W (n\<lparr>unlockTxids := us\<rparr>) = txn W n" "txn W (n\<lparr>stateQueryRes := qs\<rparr>) = txn W n"
  "txn W (n\<lparr>disabled := b\<rparr>) = txn W n" "txn W (n\<lparr>Outgoing := out\<rparr>) = txn W n"
  by (simp_all add: txn_defs memberList_def)

lemma txn_mono: "grows W W' \<Longrightarrow> txn W n \<Longrightarrow> txn W' n"
  using grows_mono [of W W'] grows_own [of W W']
  by (auto simp: txn_defs grows_def)

lemma txn_member:
  assumes "txn W n" "(k, m) \<in> set (memberList n)"
  shows "coordinating (currentMode n)" "owner W n" "is_node W k"
proof -
  show "coordinating (currentMode n)"
    using assms by (auto simp: txn_def memberList_def split: option.splits)
  with assms show "owner W n" by (auto simp: txn_def)
  with assms(2) show "is_node W k" by (force simp: owner_def is_node_def)
qed

text \<open>What a coordinator sends to another member of its quorum.\<close>

lemma to_member_plain:
  assumes "owner W n" "site W n" "is_node W k" "k \<noteq> dbid n"
  shows "plain W (unlock_msg b n k m)" "plain W (timestamp_request_msg n k m)" "plain W (get_request_msg n k m)"
    "DemuxKey (clientRequest n) \<noteq> ClientReadRequest \<Longrightarrow> plain W (put_request_msg ts n k m)"
  using assms asks_written [of W "clientRequest n"]
  by (auto simp: plain_def proper_def from_coordinator_def unlock_msg_def timestamp_request_msg_def
      get_request_msg_def put_request_msg_def owner_def site_def client_request_type_def asks_concerns)

lemma abort_answer_mail:
  assumes "txn W n" "site W n" "conveys W n0 n"
  shows "conveys W n0 (abort_answer n)"
proof (cases "currentMode n \<in> {assemblingQuorum, coordinatingWrite}")
  case True
  then have "Src (clientRequest n) = w_n W" using assms(1) by (auto simp: txn_defs coordinating_def asks_def)
  with True assms(2,3) show ?thesis
    by (auto simp: abort_answer_def plain_def proper_def client_request_type_def site_def intro!: conveys_emit)
next
  case other: False
  show ?thesis
  proof (cases "currentMode n \<in> {processingRead, processingWrite}")
    case True
    then have "participant W n" using assms(1) by (simp add: txn_def)
    with True assms(3) show ?thesis
      by (auto simp: abort_answer_def participant_def plain_def proper_def client_request_type_def
          from_coordinator_def to_coordinator_def intro!: conveys_emit)
  next
    case False
    with other assms(1,3) show ?thesis by (simp add: abort_answer_def txn_def)
  qed
qed

lemma abort_mail:
  assumes "abortProcessing e n = Inr n'" "inorder W e n" "txn W n"
  shows "conveys W n n' \<and> txn W n'"
proof -
  let ?n0 = "rollback_uncommitted e n"
  obtain n1 where n1: "send_members e 0 (unlock_msg False) True ?n0 = Inr n1" "n' = to_idle (abort_answer n1)"
    using assms(1) by (auto simp: abortProcessing_def)
  have st: "site W n" "env_ok e n" "stored W (dstore n)" using assms(2) by (simp_all add: inorder_def)
  have n0: "conveys W n ?n0" "stored W (dstore ?n0)" "env_ok e ?n0" "txn W ?n0" "site W ?n0"
    using st assms(3)
    by (simp_all add: rollback_uncommitted_def conveys_frame stored_Rollback env_ok_def perm_ok_def site_def)
  have "(\<exists>r. n1 = ?n0\<lparr>requestRepeater := r\<rparr>) \<and> conveys W ?n0 n1"
    by (rule conveys_send_members [OF n1(1) _ n0(3,2)])
      (auto intro: to_member_plain txn_member [OF n0(4)] n0(5))
  then obtain r where r: "n1 = ?n0\<lparr>requestRepeater := r\<rparr>" "conveys W n n1"
    using conveys_trans [OF n0(1)] by blast
  with n0(4,5) have "txn W n1" "site W n1" by (simp_all add: site_def)
  then have "conveys W n (abort_answer n1)" using r(2) by (rule abort_answer_mail)
  then show ?thesis by (simp add: n1(2) conveys_frame)
qed

section \<open>Coordination\<close>

text \<open>The node as it stands in the loop of \<open>assembleQuorum\<close>: members without answers.\<close>

definition unanswered :: "world \<Rightarrow> (int \<times> Message) list \<Rightarrow> bool" where
  "unanswered W ms \<longleftrightarrow> fst ` set ms \<subseteq> {0..<w_n W} \<and> (\<forall>(i, m) \<in> set ms. Timestamp m = 0)"

definition assembling :: "world \<Rightarrow> Dbnode \<Rightarrow> Dbnode \<Rightarrow> bool" where
  "assembling W n s \<longleftrightarrow> conveys W n s \<and> clientRequest s = clientRequest n \<and> currentMode s = currentMode n \<and>
     currentTxid s = currentTxid n \<and> (\<exists>ms. quorumMembers s = Some ms \<and> unanswered W ms)"

lemma unanswered_update:
  "unanswered W ms \<Longrightarrow> is_node W i \<Longrightarrow> Timestamp m = 0 \<Longrightarrow> unanswered W (AList.update i m ms)"
  using set_update_subset [of i m ms] by (auto simp: unanswered_def dom_update is_node_def)

lemma assembling_member:
  assumes "assembling W n s" "set_member i m s = Inr s'" "is_node W i" "Timestamp m = 0"
  shows "assembling W n s'"
  using assms(1,2) unanswered_update [OF _ assms(3,4)]
  by (auto simp: assembling_def set_member_def conveys_frame)

lemma assembling_waiting: "assembling W n s \<Longrightarrow> assembling W n (s\<lparr>numWaitingNodes := w\<rparr>)"
  by (simp add: assembling_def conveys_frame)

lemma assembling_send:
  assumes "assembling W n s" "repeat_send m u s = Inr s'" "plain W m"
  shows "assembling W n s'"
  using assms(1) conveys_send [OF assms(2) _ assms(3)] by (fastforce simp: assembling_def)

lemma assembling_fields:
  assumes "assembling W n s"
  shows "dbid s = dbid n" "numPeers s = numPeers n" "clientRequest s = clientRequest n"
  using assms by (auto simp: assembling_def conveys_def)

lemma add_peer_mail:
  assumes "add_peer k x s = Inr s'" "assembling W n s" "owner W n" "site W n" "0 \<le> x" "x < numPeers n"
    and "k \<in> {NodeGetRequest, NodeLockRequestNoTimeout}"
  shows "assembling W n s'"
proof -
  note s = assembling_fields [OF assms(2)]
  define i where "i = (if x = dbid n then numPeers n else x)"
  define m where "m = zeroMessage\<lparr>Id' := Id' (clientRequest n), Src := dbid n, Dest := i, DemuxKey := k,
      Key := (if k = NodeGetRequest then Key (clientRequest n) else None),
      Value := (if k = NodeGetRequest then Value (clientRequest n) else None), Ok := True\<rparr>"
  have i: "is_node W i" "i \<noteq> dbid n" using assms(4-6) by (auto simp: i_def site_def is_node_def)
  have m: "plain W m" "Timestamp m = 0"
    using assms(3,4,7) i asks_concerns [of W "clientRequest n" m]
    by (auto simp: m_def plain_def proper_def from_coordinator_def owner_def site_def client_request_type_def
        zeroMessage_def)
  have "add_peer k x s = bind_res (set_member i m s) (repeat_send m False)"
    by (simp add: add_peer_def s i_def m_def Let_def)
  with assms(1) have "bind_res (set_member i m s) (repeat_send m False) = Inr s'" by simp
  then obtain s1 where s1: "set_member i m s = Inr s1" "repeat_send m False s1 = Inr s'" by blast
  show ?thesis
    by (rule assembling_send [OF assembling_member [OF assms(2) s1(1) i(1) m(2)] s1(2) m(1)])
qed

lemma assemble_mail:
  assumes "assembleQuorum e qs k n = Inr n'" "inorder W e n" "owner W n"
    and "k \<in> {NodeGetRequest, NodeLockRequestNoTimeout}"
  shows "assembling W n n'"
proof -
  have h: "site W n" "stored W (dstore n)" "env_ok e n" using assms(2) by (simp_all add: inorder_def)
  let ?tail = "\<lambda>n1. bind_res (if k = NodeLockRequest
           then set_member (dbid n1) (zeroMessage\<lparr>DemuxKey := NodeGetRequest\<rparr>) n1
           else if k = NodeLockRequestNoTimeout
           then set_member (dbid n1) (zeroMessage\<lparr>DemuxKey := NodeTimestampRequest\<rparr>) n1
           else Inr n1) (\<lambda>n2. Inr (n2\<lparr>numWaitingNodes := qs - 1\<rparr>))"
  have "bind_res (fold_res (add_peer k) (take (nat (qs - 1)) (peersPerm e)) (n\<lparr>quorumMembers := Some []\<rparr>)) ?tail = Inr n'"
    using assms(1) by (cases "qs - 1 < 0 \<or> qs - 1 > int (length (peersPerm e))")
      (simp_all only: assembleQuorum_def if_True if_False sum.distinct)
  then obtain n1 where f: "fold_res (add_peer k) (take (nat (qs - 1)) (peersPerm e))
      (n\<lparr>quorumMembers := Some []\<rparr>) = Inr n1" and n2: "?tail n1 = Inr n'"
    by (rule bind_res_InrE)
  have "assembling W n (n\<lparr>quorumMembers := Some []\<rparr>)"
    using h(2) by (simp add: assembling_def unanswered_def conveys_frame)
  then have n1: "assembling W n n1"
  proof (rule fold_res_invariant [OF f])
    fix x s s'
    assume x: "x \<in> set (take (nat (qs - 1)) (peersPerm e))" and s: "assembling W n s" "add_peer k x s = Inr s'"
    have "set (peersPerm e) = {0..<numPeers n}" using h(3) by (simp add: env_ok_def perm_ok_def)
    with in_set_takeD [OF x] have "x \<in> {0..<numPeers n}" by simp
    with add_peer_mail [OF s(2,1) assms(3) h(1) _ _ assms(4)] show "assembling W n s'" by simp
  qed
  have i: "is_node W (dbid n1)" using assembling_fields [OF n1] h(1) by (simp add: site_def)
  show ?thesis
  proof (cases "k = NodeGetRequest")
    case True
    with n2 have "n' = n1\<lparr>numWaitingNodes := qs - 1\<rparr>" by simp
    with assembling_waiting [OF n1] show ?thesis by simp
  next
    case False
    with n2 assms(4) obtain n3 where n3: "n' = n3\<lparr>numWaitingNodes := qs - 1\<rparr>"
      "set_member (dbid n1) (zeroMessage\<lparr>DemuxKey := NodeTimestampRequest\<rparr>) n1 = Inr n3" by auto
    have "assembling W n n3" by (rule assembling_member [OF n1 n3(2) i]) (simp add: zeroMessage_def)
    with assembling_waiting n3(1) show ?thesis by simp
  qed
qed

lemma assembling_txn:
  assumes "assembling W n s" "owner W n" "coordinating (currentMode n)"
    and "DemuxKey (clientRequest n) = ClientReadRequest \<longleftrightarrow> currentMode n = coordinatingFastRead"
  shows "txn W s"
proof -
  obtain ms where "quorumMembers s = Some ms" "unanswered W ms" using assms(1) by (auto simp: assembling_def)
  then show ?thesis
    using assms assembling_fields [OF assms(1)]
    by (auto simp: txn_defs assembling_def memberList_def unanswered_def coordinating_def)
qed

lemma set_member_mail:
  assumes "set_member i m n = Inr n'" "txn W n" "stored W (dstore n)" "is_node W i"
    and "currentMode n = coordinatingFastRead \<Longrightarrow> Timestamp m = 0 \<or> written W (raw (Key (clientRequest n))) (Value m)"
  shows "conveys W n n' \<and> txn W n'"
proof -
  obtain ms where ms: "quorumMembers n = Some ms" "n' = n\<lparr>quorumMembers := Some (AList.update i m ms)\<rparr>"
    using assms(1) by (auto simp: set_member_def split: option.splits)
  have o: "owner W n'" if "owner W n"
    using that assms(4) ms by (auto simp: owner_def memberList_def dom_update is_node_def)
  have a: "answers_ok W n'" if "answers_ok W n" "currentMode n = coordinatingFastRead"
    using that assms(5) ms set_update_subset [of i m ms] by (fastforce simp: answers_ok_def memberList_def)
  have "conveys W n n'" using assms(3) ms(2) by (simp add: conveys_frame)
  moreover have "txn W n'"
    using assms(2) ms o a unfolding txn_def participant_def by simp
  ultimately show ?thesis ..
qed

lemma newer_written:
  "\<forall>m \<in> set ms. Timestamp m = 0 \<or> written W k (Value m) \<Longrightarrow> written W k (snd tv) \<Longrightarrow>
    written W k (snd (foldl newer tv ms))"
  by (induction ms arbitrary: tv) (auto simp: newer_def)

lemma fast_read_mail:
  assumes "continueFastRead e n = Inr n'" "inorder W e n" "txn W n" "currentMode n = coordinatingFastRead"
  shows "conveys W n n' \<and> txn W n'"
proof (cases "quorumMembers n = None")
  case True
  have c: "coordinating (currentMode n)" using assms(4) by (simp add: coordinating_def)
  then have o: "owner W n" "DemuxKey (clientRequest n) = ClientReadRequest"
    using assms(3,4) by (auto simp: txn_def)
  have "assembling W n n'"
    using assemble_mail [OF _ assms(2) o(1), of _ NodeGetRequest n'] assms(1) True
    by (simp add: continueFastRead_def)
  then show ?thesis
    using assembling_txn [OF _ o(1) c] assms(4) o(2) by (simp add: assembling_def)
next
  case False
  have st: "stored W (dstore n)" "site W n" "env_ok e n" using assms(2) by (simp_all add: inorder_def)
  have o: "owner W n" "DemuxKey (clientRequest n) = ClientReadRequest" "answers_ok W n"
    using assms(3,4) by (auto simp: txn_def coordinating_def)
  obtain x err where g: "Store_Get (getIO e) (dstore n) (Key (clientRequest n)) = Inr (x, err)"
    using assms(1) False by (auto simp: continueFastRead_def)
  show ?thesis
  proof (cases err)
    case True
    then show ?thesis using abort_mail assms(1-3) False g by (auto simp: continueFastRead_def)
  next
    case ok: False
    then obtain tv where tv: "decodeTimestampVal x = Inr tv"
      "n' = to_idle (emit (read_answer n (foldl newer tv (map snd (range_members e 1 n)))) n)"
      using assms(1) False g by (auto simp: continueFastRead_def)
    have "written W (raw (Key (clientRequest n))) (snd tv)"
      using stored_Get [OF st(1) g, of "fst tv" "snd tv"] tv(1) by simp
    moreover have "\<forall>m \<in> set (map snd (range_members e 1 n)).
        Timestamp m = 0 \<or> written W (raw (Key (clientRequest n))) (Value m)"
      using o(3) st(3) set_go_range by (fastforce simp: answers_ok_def range_members_def env_ok_def)
    ultimately have "written W (raw (Key (clientRequest n))) (snd (foldl newer tv (map snd (range_members e 1 n))))"
      by (simp only: newer_written)
    moreover have "Src (clientRequest n) = w_n W"
      "\<exists>c \<in> w_reqs W. DemuxKey c = ClientReadRequest \<and> Id' c = Id' (clientRequest n) \<and> Key c = Key (clientRequest n)"
      using o(1,2) by (auto simp: owner_def asks_def)
    ultimately have "plain W (read_answer n (foldl newer tv (map snd (range_members e 1 n))))"
      using st(2)
      by (simp add: plain_def proper_def read_answer_def answers_read_def site_def client_request_type_def)
    then show ?thesis using st(1) by (auto simp: tv(2) conveys_frame intro!: conveys_emit)
  qed
qed

lemma write_ask_mail:
  assumes "write_ask e n = Inr n'" "inorder W e n" "txn W n" "currentMode n = coordinatingWrite"
  shows "conveys W n n' \<and> txn W n'"
proof -
  have st: "stored W (dstore n)" "site W n" "env_ok e n" using assms(2) by (simp_all add: inorder_def)
  obtain n1 n2 where n1: "send_members e 4 timestamp_request_msg True n = Inr n1"
    and n2: "set_member (dbid n1) (zeroMessage\<lparr>DemuxKey := NodePutRequest\<rparr>) n1 = Inr n2"
    and n': "n' = n2\<lparr>numWaitingNodes := writeQuorumSize n2 - 1\<rparr>"
    using assms(1) by (auto simp: write_ask_def)
  have "(\<exists>r. n1 = n\<lparr>requestRepeater := r\<rparr>) \<and> conveys W n n1"
    by (rule conveys_send_members [OF n1 _ st(3,1)]) (auto intro: to_member_plain txn_member [OF assms(3)] st(2))
  then obtain r where r: "n1 = n\<lparr>requestRepeater := r\<rparr>" "conveys W n n1" by blast
  have "conveys W n1 n2 \<and> txn W n2"
    by (rule set_member_mail [OF n2]) (use r(1) assms(3,4) st(1,2) in \<open>simp_all add: site_def\<close>)
  then show ?thesis using conveys_trans [OF r(2)] by (simp add: n' conveys_frame)
qed

lemma write_put_mail:
  assumes "write_put e n = Inr n'" "inorder W e n" "txn W n" "currentMode n = coordinatingWrite"
  shows "conveys W n n' \<and> txn W n'"
proof -
  have st: "stored W (dstore n)" "site W n" "env_ok e n" "world_ok W" using assms(2) by (simp_all add: inorder_def)
  have o: "owner W n" "DemuxKey (clientRequest n) \<noteq> ClientReadRequest"
    using assms(3,4) by (auto simp: txn_def coordinating_def)
  have refuse: "conveys W n n' \<and> txn W n'"
    if "abortProcessing e (n\<lparr>clientRequest := (clientRequest n)\<lparr>Timestamp := t\<rparr>\<rparr>) = Inr n'" for t
  proof -
    have "txn W (n\<lparr>clientRequest := (clientRequest n)\<lparr>Timestamp := t\<rparr>\<rparr>)"
      using assms(3,4) by (simp add: txn_defs memberList_def coordinating_def asks_def)
    with abort_mail [OF that] assms(2) show ?thesis
      by (simp add: inorder_def site_def env_ok_def perm_ok_def conveys_frame)
  qed
  have put: "conveys W n n' \<and> txn W n'"
    if p: "Store_Put (putIO e) (dstore n) (Key (clientRequest n)) (encodeTimestampVal ts (Value (clientRequest n))) = Inr (s', tx)"
      and n2: "send_members e 6 (put_request_msg ts) True
          (n\<lparr>dstore := s', uncommitedTxid := tx, uncommitedKey := Key (clientRequest n)\<rparr>) = Inr n2"
      and n3: "set_member (dbid n2) m n2 = Inr n3" "n' = n3\<lparr>numWaitingNodes := w\<rparr>" for ts s' tx n2 m n3 w
  proof -
    let ?n1 = "n\<lparr>dstore := s', uncommitedTxid := tx, uncommitedKey := Key (clientRequest n)\<rparr>"
    have s': "stored W s'"
      using stored_Put [OF st(1) p] asks_written [of W "clientRequest n"] o by (auto simp: owner_def)
    have n1: "env_ok e ?n1" "txn W ?n1" "site W ?n1" "conveys W n ?n1" "owner W ?n1"
      using st assms(3) s' o(1)
      by (simp_all add: env_ok_def perm_ok_def site_def conveys_frame owner_def memberList_def)
    have "(\<exists>r. n2 = ?n1\<lparr>requestRepeater := r\<rparr>) \<and> conveys W ?n1 n2"
      by (rule conveys_send_members [OF n2 _ n1(1)])
        (use s' o(2) to_member_plain(4) [OF n1(5,3)] txn_member(3) [OF n1(2)] in auto)
    then obtain r where r: "n2 = ?n1\<lparr>requestRepeater := r\<rparr>" "conveys W n n2"
      using conveys_trans [OF n1(4)] by blast
    have "conveys W n2 n3 \<and> txn W n3"
      by (rule set_member_mail [OF n3(1)]) (use r(1) n1(2,3) assms(4) s' in \<open>simp_all add: site_def\<close>)
    then show ?thesis using conveys_trans [OF r(2)] by (simp add: n3(2) conveys_frame)
  qed
  from assms(1) consider "abortProcessing e n = Inr n'"
    | ts where "abortProcessing e (n\<lparr>clientRequest := (clientRequest n)\<lparr>Timestamp := ts\<rparr>\<rparr>) = Inr n'"
    | ts s' tx n2 m n3 w where
        "Store_Put (putIO e) (dstore n) (Key (clientRequest n)) (encodeTimestampVal ts (Value (clientRequest n))) = Inr (s', tx)"
        "send_members e 6 (put_request_msg ts) True
          (n\<lparr>dstore := s', uncommitedTxid := tx, uncommitedKey := Key (clientRequest n)\<rparr>) = Inr n2"
        "set_member (dbid n2) m n2 = Inr n3" "n' = n3\<lparr>numWaitingNodes := w\<rparr>"
    by (auto simp: write_put_def Let_def split: if_splits)
  then show ?thesis
    using abort_mail [OF _ assms(2,3)] refuse put by cases blast+
qed

lemma daemon_commit:
  assumes "conveys W n (emit m n1)" "known_key W k" "written W (raw k) v"
  shows "conveys W n (emit m n1\<lparr>backgroundWriteDaemon :=
    map_option (\<lambda>p. propagateTransaction p i ms k v ts) (backgroundWriteDaemon n1)\<rparr>)"
proof (rule conveys_daemon [OF assms(1)])
  have e: "backgroundWriteDaemon (emit m n1) = backgroundWriteDaemon n1" by (simp add: emit_def)
  assume "daemon_ok W (emit m n1)"
  with daemon_propagate [OF this _ assms(2,3)] e
  show "daemon_ok W (emit m n1\<lparr>backgroundWriteDaemon :=
      map_option (\<lambda>p. propagateTransaction p i ms k v ts) (backgroundWriteDaemon n1)\<rparr>)"
    by (cases "backgroundWriteDaemon n1") (simp_all add: daemon_ok_def)
qed

lemma write_commit_mail:
  assumes "write_commit e n = Inr n'" "inorder W e n" "txn W n" "currentMode n = coordinatingWrite"
  shows "conveys W n n' \<and> txn W n'"
proof -
  have st: "stored W (dstore n)" "site W n" "env_ok e n" "world_ok W" using assms(2) by (simp_all add: inorder_def)
  have o: "owner W n" using assms(3,4) by (auto simp: txn_def coordinating_def)
  obtain s' ok where c: "Store_Commit (commitIO e) (dstore n) (uncommitedKey n) (uncommitedTxid n) = (s', ok)"
    by fastforce
  have s': "stored W s'" using stored_Commit [OF st(1), of "commitIO e" "uncommitedKey n" "uncommitedTxid n"] c by simp
  let ?n0 = "n\<lparr>dstore := s'\<rparr>" and ?n1 = "n\<lparr>dstore := s', uncommitedKey := None, uncommitedTxid := 0\<rparr>"
  have n0: "inorder W e ?n0" "txn W ?n0" using st s' assms(3) by (simp_all add: inorder_def site_def env_ok_def perm_ok_def)
  have n1: "env_ok e ?n1" "txn W ?n1" "site W ?n1" "conveys W n ?n1"
    using st assms(3) s' by (simp_all add: env_ok_def perm_ok_def site_def conveys_frame)
  show ?thesis
  proof (cases ok)
    case False
    with assms(1) c have "abortProcessing e ?n0 = Inr n'" by (simp add: write_commit_def)
    from abort_mail [OF this n0] show ?thesis by (simp add: conveys_frame)
  next
    case True
    then obtain n2 m ts where n2: "send_members e 7 (unlock_msg True) True ?n1 = Inr n2"
      and n': "n' = to_idle (emit m n2\<lparr>backgroundWriteDaemon := map_option
            (\<lambda>p. propagateTransaction p (Id' (clientRequest n2)) (map fst (memberList n2)) (Key (clientRequest n2))
              (Value (clientRequest n2)) ts) (backgroundWriteDaemon n2)\<rparr>)"
      and m: "DemuxKey m = ClientWriteResponse" "Src m = dbid n2" "Dest m = Src (clientRequest n2)"
        "Id' m = Id' (clientRequest n2)" "Key m = Key (clientRequest n2)" "Value m = Value (clientRequest n2)"
      using assms(1) c by (auto simp: write_commit_def Let_def emit_def memberList_def)
    have "(\<exists>r. n2 = ?n1\<lparr>requestRepeater := r\<rparr>) \<and> conveys W ?n1 n2"
      by (rule conveys_send_members [OF n2 _ n1(1)])
        (use s' to_member_plain(1) [OF txn_member(2) [OF n1(2)] n1(3)] txn_member(3) [OF n1(2)] in auto)
    then obtain r where r: "n2 = ?n1\<lparr>requestRepeater := r\<rparr>" "conveys W n n2"
      using conveys_trans [OF n1(4)] by blast
    have "answers_write W m"
      using asks_answers_write [of W "clientRequest n" m] m(4-6) o assms(3,4) r(1)
      by (simp add: owner_def txn_def coordinating_def)
    then have "plain W m"
      using m(1-3) o st(2) r(1) by (simp add: plain_def proper_def client_request_type_def owner_def asks_def site_def)
    then have "conveys W n (emit m n2)" using r(2) by (rule conveys_emit [rotated])
    moreover have "known_key W (Key (clientRequest n2))" "written W (raw (Key (clientRequest n2))) (Value (clientRequest n2))"
      using asks_known [of W "clientRequest n"] asks_written [of W "clientRequest n"] o assms(3,4) r(1)
      by (simp_all add: owner_def txn_def coordinating_def)
    ultimately show ?thesis
      using daemon_commit by (simp add: n' conveys_frame)
  qed
qed

lemma continueWrite_mail:
  assumes "continueWrite e n = Inr n'" "inorder W e n" "txn W n" "currentMode n = coordinatingWrite"
  shows "conveys W n n' \<and> txn W n'"
  using assms write_ask_mail [OF _ assms(2-4)] write_put_mail [OF _ assms(2-4)] write_commit_mail [OF _ assms(2-4)]
  by (auto simp: continueWrite_def inorder_def split: Messagetype.splits)

lemma continue_mail:
  assumes "continueProcessing e n = Inr n'" "inorder W e n" "txn W n"
  shows "conveys W n n' \<and> txn W n'"
proof (cases "currentMode n = assemblingQuorum")
  case True
  then have o: "owner W n" "DemuxKey (clientRequest n) \<noteq> ClientReadRequest"
    using assms(3) by (auto simp: txn_def coordinating_def)
  show ?thesis
  proof (cases "quorumMembers n = None")
    case none: True
    with True assms(1) assemble_mail [OF _ assms(2) o(1), of _ NodeLockRequestNoTimeout n']
    have "assembling W n n'" by (simp add: continueProcessing_def)
    then show ?thesis
      using assembling_txn [OF _ o(1)] True o(2) by (simp add: assembling_def coordinating_def)
  next
    case False
    let ?n = "n\<lparr>currentMode := coordinatingWrite\<rparr>"
    have "txn W ?n" using o by (simp add: txn_def coordinating_def owner_def memberList_def)
    with continueWrite_mail [of e ?n n' W] assms(1,2) True False show ?thesis
      by (auto simp: continueProcessing_def inorder_def site_def env_ok_def perm_ok_def conveys_frame)
  qed
next
  case False
  with assms fast_read_mail [OF _ assms(2,3)] continueWrite_mail [OF _ assms(2,3)] show ?thesis
    by (cases "currentMode n") (auto simp: continueProcessing_def inorder_def txn_def)
qed

end
