(* ===== verification/Dbnode_Delivery.thy ===== *)
theory Dbnode_Delivery
  imports Dbnode_Mail
begin

text \<open>
  One iteration of the main loop on a message that is in order: the handlers, the queue of
  lock requests, and what happens to a client's request. A node either accepts a request
  (then it coordinates it), or answers it, or passes it on, and never does two of these.
\<close>

section \<open>The handlers\<close>

text \<open>The state between two handlers.\<close>

lemma inorder_conveys: "inorder W e n \<Longrightarrow> conveys W n n' \<Longrightarrow> inorder W e n'"
  by (simp add: inorder_def site_def env_ok_def perm_ok_def conveys_def)

lemma inorder_ack [simp]: "inorder W e (repeat_ack m n) = inorder W e n"
  by (simp add: inorder_def site_def env_ok_def perm_ok_def) (simp add: repeat_ack_def)

lemma count_mail:
  assumes "count_answer e m n = Inr n'" "inorder W e n" "txn W n" "is_node W (Src m)"
    and "currentMode n = coordinatingFastRead \<Longrightarrow> written W (raw (Key (clientRequest n))) (Value m)"
  shows "conveys W n n' \<and> txn W n'"
proof -
  have st: "stored W (dstore n)" using assms(2) by (simp add: inorder_def)
  have step: "conveys W n n' \<and> txn W n'"
    if "set_member (Src m) m n = Inr n1" "continueProcessing e (n1\<lparr>numWaitingNodes := w\<rparr>) = Inr n' \<or> n' = n1\<lparr>numWaitingNodes := w\<rparr>"
    for n1 w
  proof -
    have 1: "conveys W n n1" "txn W n1"
      using set_member_mail [OF that(1) assms(3) st assms(4)] assms(5) by simp_all
    then have "inorder W e (n1\<lparr>numWaitingNodes := w\<rparr>)" "txn W (n1\<lparr>numWaitingNodes := w\<rparr>)"
      using inorder_conveys [OF assms(2), of "n1\<lparr>numWaitingNodes := w\<rparr>"] by (simp_all add: conveys_frame)
    from continue_mail [OF _ this, of n'] 1 that(2) conveys_trans [of W n n1 n'] show ?thesis
      by (auto simp: conveys_frame)
  qed
  show ?thesis
  proof (cases "Ok m \<and> DemuxKey (member n (Src m)) \<noteq> DemuxKey m")
    case True
    then obtain n1 where n1: "set_member (Src m) m n = Inr n1"
      using assms(1) by (auto simp: count_answer_def)
    with True assms(1) have "continueProcessing e (n1\<lparr>numWaitingNodes := numWaitingNodes n1 - 1\<rparr>) = Inr n' \<or>
        n' = n1\<lparr>numWaitingNodes := numWaitingNodes n1 - 1\<rparr>"
      by (simp add: count_answer_def Let_def split: if_splits)
    with step [OF n1] show ?thesis by blast
  next
    case False
    with assms(1) have "abortProcessing e n = Inr n' \<or> n' = n" by (auto simp: count_answer_def split: if_splits)
    with abort_mail [OF _ assms(2,3)] assms(3) st show ?thesis by auto
  qed
qed

text \<open>A counted answer of a fast read is about the key that is read.\<close>

lemma answer_key:
  assumes "txn W n" "world_ok W" "currentMode n = coordinatingFastRead" "currentTxid n = Id' m"
    and "concerns W m" "written W (raw (Key m)) (Value m)"
  shows "written W (raw (Key (clientRequest n))) (Value m)"
proof -
  have "asks W (clientRequest n)" "Id' m = Id' (clientRequest n)"
    using assms(1,3,4) by (auto simp: txn_defs coordinating_def)
  from concerns_key [OF assms(2,5) this] assms(6) show ?thesis by simp
qed

lemma answers_mail:
  assumes "inorder W e n" "txn W n" "proper W m" "Dest m = dbid n"
  shows "DemuxKey m = NodeLockResponse \<Longrightarrow> handleLockRes e m n = Inr n' \<Longrightarrow> conveys W n n' \<and> txn W n'"
    "DemuxKey m = NodeGetResponse \<Longrightarrow> handleGetRes e m n = Inr n' \<Longrightarrow> conveys W n n' \<and> txn W n'"
    "DemuxKey m = NodePutResponse \<Longrightarrow> handlePutRes e m n = Inr n' \<Longrightarrow> conveys W n n' \<and> txn W n'"
proof -
  have st: "stored W (dstore n)" "world_ok W" "site W n" using assms(1) by (simp_all add: inorder_def)
  have count: "conveys W n n' \<and> txn W n'" if "count_answer e m (repeat_ack m n) = Inr n'" "is_node W (Src m)"
    "currentMode n = coordinatingFastRead \<Longrightarrow> written W (raw (Key (clientRequest n))) (Value m)"
  proof -
    have a: "inorder W e (repeat_ack m n)" "txn W (repeat_ack m n)" using assms(1,2) by simp_all
    have "clientRequest (repeat_ack m n) = clientRequest n" by (simp add: repeat_ack_def)
    with count_mail [OF that(1) a that(2)] that(3) show ?thesis by (simp add: conveys_frame)
  qed
  have refl: "conveys W n (repeat_ack m n)" "txn W (repeat_ack m n)" using st assms(2) by (simp_all add: conveys_frame)
  have send: "conveys W n n1 \<and> txn W n1"
    if "repeat_send u b (repeat_ack m n) = Inr n1" "plain W u" for u b n1
    using conveys_send [OF that(1) refl(1) that(2)] assms(2) by auto
  show "conveys W n n' \<and> txn W n'" if "DemuxKey m = NodeLockResponse" "handleLockRes e m n = Inr n'"
  proof -
    have t: "to_coordinator W m" using that(1) assms(3) by (simp add: proper_def)
    then have "plain W (zeroMessage\<lparr>Id' := Id' m, Src := dbid n, Dest := Src m, DemuxKey := NodeUnlockRequest, Ok := False\<rparr>)"
      using assms(4) by (auto simp: plain_def proper_def client_request_type_def to_coordinator_def from_coordinator_def)
    then show ?thesis
      using that(2) t count send refl
      by (auto simp: handleLockRes_def Let_def to_coordinator_def split: if_splits)
  qed
  show "conveys W n n' \<and> txn W n'" if "DemuxKey m = NodeGetResponse" "handleGetRes e m n = Inr n'"
  proof -
    have t: "is_node W (Src m)" "concerns W m" "written W (raw (Key m)) (Value m)"
      using that(1) assms(3) by (simp_all add: proper_def to_coordinator_def)
    show ?thesis
      using that(2) count [OF _ t(1)] answer_key [OF assms(2) st(2) _ _ t(2,3)] refl
      by (auto simp: handleGetRes_def Let_def split: if_splits)
  qed
  show "conveys W n n' \<and> txn W n'" if "DemuxKey m = NodePutResponse" "handlePutRes e m n = Inr n'"
  proof -
    have "is_node W (Src m)" using that(1) assms(3) by (simp add: proper_def to_coordinator_def)
    then show ?thesis
      using that(2) count refl by (auto simp: handlePutRes_def Let_def split: if_splits)
  qed
qed

lemma unlock_mail:
  assumes "inorder W e n" "txn W n" "proper W m" "DemuxKey m = NodeUnlockRequest" "Dest m = dbid n"
  shows "conveys W n (handleUnlockReq e m n) \<and> txn W (handleUnlockReq e m n)"
proof -
  have st: "stored W (dstore n)" using assms(1) by (simp add: inorder_def)
  have f: "from_coordinator W m" using assms(3,4) by (simp add: proper_def)
  let ?ack = "zeroMessage\<lparr>Id' := Id' m, Src := dbid n, Dest := Src m, DemuxKey := NodeUnlockAck, Ok := True\<rparr>"
  have ack: "plain W ?ack"
    using f assms(5) by (auto simp: plain_def proper_def client_request_type_def to_coordinator_def from_coordinator_def)
  have idle: "\<not> coordinating (currentMode n)" if "currentTxid n = Id' m"
    using that f assms(2,5) by (auto simp: txn_def owner_def from_coordinator_def)
  then have t: "txn W (n\<lparr>currentMode := idle, currentTxid := -1\<rparr>)" if "currentTxid n = Id' m"
    using that assms(2) by (auto simp: txn_def coordinating_def)
  have upd: "conveys W n (n1\<lparr>unlockTxids := us\<rparr>) \<and> txn W (n1\<lparr>unlockTxids := us\<rparr>)"
    if "conveys W n n1" "txn W n1" for n1 us
    using that by (simp add: conveys_frame)
  let ?st = "fst (Store_Commit (commitIO e) (dstore n) (uncommitedKey n) (uncommitedTxid n))"
  have "txn W (n\<lparr>dstore := ?st, uncommitedKey := None, uncommitedTxid := 0, currentMode := idle, currentTxid := -1\<rparr>)"
    if "currentTxid n = Id' m"
    using idle [OF that] assms(2) by (auto simp: txn_def coordinating_def)
  then show ?thesis
    using st ack t assms(2) stored_Commit [OF st]
    by (auto simp: handleUnlockReq_def Let_def conveys_frame)
qed

lemma get_answer_plain:
  assumes "from_coordinator W m" "concerns W m" "Dest m = dbid n" "written W (raw (Key m)) v"
  shows "plain W (get_answer m n v ts ok)"
  using assms
  by (auto simp: plain_def proper_def get_answer_def from_coordinator_def to_coordinator_def concerns_def
      client_request_type_def)

lemma requests_mail:
  assumes "inorder W e n" "txn W n" "proper W m" "Dest m = dbid n"
  shows "DemuxKey m = NodeGetRequest \<Longrightarrow> handleGetReq e m n = Inr n' \<Longrightarrow> conveys W n n' \<and> txn W n'"
    "DemuxKey m = NodeTimestampRequest \<Longrightarrow> handleTimestampReq e m n = Inr n' \<Longrightarrow> conveys W n n' \<and> txn W n'"
    "DemuxKey m = NodePutRequest \<Longrightarrow> handlePutReq e m n = Inr n' \<Longrightarrow> conveys W n n' \<and> txn W n'"
proof -
  have st: "stored W (dstore n)" using assms(1) by (simp add: inorder_def)
  then have refl: "conveys W n n" by simp
  show "conveys W n n' \<and> txn W n'" if k: "DemuxKey m = NodeGetRequest" and h: "handleGetReq e m n = Inr n'"
  proof -
    have "from_coordinator W m" "concerns W m" using k assms(3) by (simp_all add: proper_def)
    note a = get_answer_plain [OF this assms(4)]
    have v: "plain W (get_answer m n v t b)"
      if "Store_Get (getIO e) (dstore n) (Key m) = Inr (x, err)" "decodeTimestampVal x = Inr (t, v)" for x err t v b
      using a stored_Get [OF st that] by blast
    have "\<not> err" if "Store_Get (getIO e) (dstore n) (Key m) = Inr (x, err)" for x err
      using that st by (auto simp: stored_def memstore_Get_def)
    then show ?thesis
      using h v a assms(2) refl
      by (auto simp: handleGetReq_def conveys_frame split: if_splits)
  qed
  show "conveys W n n' \<and> txn W n'" if k: "DemuxKey m = NodeTimestampRequest" and h: "handleTimestampReq e m n = Inr n'"
  proof -
    have "from_coordinator W m" "concerns W m" using k assms(3) by (simp_all add: proper_def)
    with get_answer_plain [OF this assms(4), of None] h assms(2) refl show ?thesis
      by (auto simp: handleTimestampReq_def conveys_frame split: if_splits)
  qed
  show "conveys W n n' \<and> txn W n'" if k: "DemuxKey m = NodePutRequest" and h: "handlePutReq e m n = Inr n'"
  proof -
    have w: "from_coordinator W m" "written W (raw (Key m)) (Value m)" using k assms(3) by (simp_all add: proper_def)
    have p: "plain W (put_answer m n b)" for b
      using w(1) assms(4)
      by (auto simp: plain_def proper_def put_answer_def from_coordinator_def to_coordinator_def client_request_type_def)
    then have p': "plain W (put_answer m n1 b)" if "dbid n1 = dbid n" for n1 b
      using that by (simp add: put_answer_def)
    show ?thesis
      using h p p' assms(2) refl stored_Put [OF st _ w(2)]
      by (auto simp: handlePutReq_def Let_def conveys_frame split: if_splits)
  qed
qed

text \<open>Background writes: the answer carries the value sent or the value stored.\<close>

lemma merge_mail:
  assumes "merge_write e m t v n = Inr n'" "conveys W n0 n" "txn W n" "written W (raw (Key m)) (Value m)"
  shows "conveys W n0 n' \<and> txn W n'"
proof -
  have "stored W (dstore n)" using assms(2) by (rule conveys_stored)
  then have "stored W (fst (Store_Commit (commitIO e) st (Key m) tx))"
    if "Store_Put (putIO e) (dstore n) (Key m) (encodeTimestampVal (Timestamp m) (Value m)) = Inr (st, tx)" for st tx
    using stored_Commit [OF stored_Put [OF _ that assms(4)]] by blast
  with assms(1-3) show ?thesis by (auto simp: merge_write_def conveys_frame split: if_splits)
qed

lemma background_mail:
  assumes "inorder W e n" "txn W n" "proper W m" "Dest m = dbid n"
  shows "DemuxKey m = NodeBackgroundWriteRequest \<Longrightarrow> handleBackgroundWriteReq e m n = Inr n' \<Longrightarrow>
      conveys W n n' \<and> txn W n'"
    "DemuxKey m = NodeBackgroundWriteResponse \<Longrightarrow> handleBackgroundWriteRes e m n = Inr n' \<Longrightarrow>
      conveys W n n' \<and> txn W n'"
proof -
  have st: "stored W (dstore n)" using assms(1) by (simp add: inorder_def)
  show "conveys W n n' \<and> txn W n'"
    if k: "DemuxKey m = NodeBackgroundWriteRequest" and h: "handleBackgroundWriteReq e m n = Inr n'"
  proof -
    have p: "propagates W m" using k assms(3) by (simp add: proper_def)
    then have a: "plain W (background_answer m n v t b)" if "written W (raw (Key m)) v" for v t b
      using that assms(4)
      by (auto simp: plain_def proper_def background_answer_def client_request_type_def propagates_def)
    obtain x err t v n1 where g: "Store_Get (getIO e) (dstore n) (Key m) = Inr (x, err)"
      "decodeTimestampVal x = Inr (t, v)" "merge_write e m t v n = Inr n1"
      "n' = emit (if Timestamp m \<ge> t then background_answer m n (Value m) (Timestamp m) True
             else background_answer m n v t False) n1"
      using h by (auto simp: handleBackgroundWriteReq_def)
    have "conveys W n n1 \<and> txn W n1"
      using merge_mail [OF g(3) conveys_refl [OF st] assms(2)] p by (simp add: propagates_def)
    moreover have "written W (raw (Key m)) v" "written W (raw (Key m)) (Value m)"
      using stored_Get [OF st g(1,2)] p by (simp_all add: propagates_def)
    ultimately show ?thesis using a by (auto simp: g(4) intro!: conveys_emit)
  qed
  show "conveys W n n' \<and> txn W n'"
    if k: "DemuxKey m = NodeBackgroundWriteResponse" and h: "handleBackgroundWriteRes e m n = Inr n'"
  proof -
    have p: "written W (raw (Key m)) (Value m)" using k assms(3) by (simp add: proper_def propagates_def)
    obtain d d' where d: "backgroundWriteDaemon n = Some d" "response d m = Inr d'"
      using h by (auto simp: handleBackgroundWriteRes_def split: option.splits)
    let ?n1 = "n\<lparr>backgroundWriteDaemon := Some d'\<rparr>"
    have n1: "conveys W n ?n1" "txn W ?n1"
      using conveys_daemon [OF conveys_refl [OF st]] daemon_response [OF _ d] assms(2) by simp_all
    have "n' = ?n1 \<or> (\<exists>t v. merge_write e m t v ?n1 = Inr n')"
      using h d by (auto simp: handleBackgroundWriteRes_def Let_def split: if_splits)
    with merge_mail [OF _ n1 p] n1 show ?thesis by blast
  qed
qed

text \<open>A request that needs no quorum is answered, or put back while a write is open.\<close>

lemma local_mail:
  assumes "inorder W e n" "txn W n" "asks W m"
  shows "DemuxKey m = ClientReadRequest \<Longrightarrow> processLocalRead e m n = Inr n' \<Longrightarrow>
      n' = emit m n \<or> conveys W n n' \<and> txn W n'"
    "DemuxKey m \<noteq> ClientReadRequest \<Longrightarrow> processLocalWrite e m n = Inr n' \<Longrightarrow>
      n' = emit m n \<or> conveys W n n' \<and> txn W n'"
proof -
  have st: "stored W (dstore n)" "is_node W (dbid n)" using assms(1) by (simp_all add: inorder_def site_def)
  then have refl: "conveys W n n" by simp
  have src: "Src m = w_n W" using assms(3) by (simp add: asks_def)
  show "n' = emit m n \<or> conveys W n n' \<and> txn W n'"
    if k: "DemuxKey m = ClientReadRequest" and h: "processLocalRead e m n = Inr n'"
  proof -
    have "\<exists>c \<in> w_reqs W. DemuxKey c = ClientReadRequest \<and> Id' c = Id' m \<and> Key c = Key m"
      using assms(3) k by (auto simp: asks_def)
    then have "plain W (zeroMessage\<lparr>Id' := Id' m, Src := dbid n, Dest := Src m, DemuxKey := ClientReadResponse,
        Key := Key m, Value := v, Timestamp := t, Ok := True\<rparr>)"
      if "Store_Get (getIO e) (dstore n) (Key m) = Inr (x, err)" "decodeTimestampVal x = Inr (t, v)" for x err t v
      using stored_Get [OF st(1) that] st(2) src
      by (simp add: plain_def proper_def client_request_type_def answers_read_def)
    moreover have "plain W (zeroMessage\<lparr>Id' := Id' m, Src := dbid n, Dest := Src m, DemuxKey := ClientReadResponse,
        Key := Key m, Ok := False\<rparr>)"
      using st(2) src by (simp add: plain_def proper_def client_request_type_def)
    ultimately show ?thesis
      using h refl assms(2) by (auto simp: processLocalRead_def conveys_frame split: if_splits)
  qed
  show "n' = emit m n \<or> conveys W n n' \<and> txn W n'"
    if k: "DemuxKey m \<noteq> ClientReadRequest" and h: "processLocalWrite e m n = Inr n'"
  proof -
    have "answers_write W (local_write_answer m n (Value m) t ok)" for t ok
      by (rule asks_answers_write [OF assms(3) k]) (simp_all add: local_write_answer_def)
    then have a: "plain W (local_write_answer m n (Value m) t ok)" "plain W (local_write_answer m n v t False)" for v t ok
      using st(2) src by (simp_all add: plain_def proper_def client_request_type_def local_write_answer_def)
    have w: "stored W s'" if "Store_Put (putIO e) (dstore n) (Key m) (encodeTimestampVal t (Value m)) = Inr (s, tx)"
      "Store_Commit (commitIO e) s (Key m) tx = (s', ok)" for t s tx s' ok
      using stored_Commit [OF stored_Put [OF st(1) that(1) asks_written [OF assms(3) k]], of "commitIO e" "Key m" tx] that(2)
      by simp
    show ?thesis
      using h refl assms(2) a w
      by (auto simp: processLocalWrite_def Let_def conveys_frame split: if_splits prod.splits)
  qed
qed

section \<open>The invariant of a node\<close>

definition request_ids :: "Message list \<Rightarrow> int multiset" where
  "request_ids ms = mset (map Id' (filter (\<lambda>m. client_request_type (DemuxKey m)) ms))"

lemma request_ids_simps [simp]:
  "request_ids [] = {#}" "request_ids (xs @ ys) = request_ids xs + request_ids ys"
  "request_ids (m # ms) = (if client_request_type (DemuxKey m) then {#Id' m#} else {#}) + request_ids ms"
  by (simp_all add: request_ids_def)

lemma request_ids_plain: "\<forall>m \<in> set ms. plain W m \<Longrightarrow> request_ids ms = {#}"
  by (induction ms) (auto simp: plain_def)

definition forwarded :: "elector_call list \<Rightarrow> Message list" where
  "forwarded cs = concat (map (\<lambda>c. case c of ForwardToLeader m \<Rightarrow> [m] | ProcessMsg m \<Rightarrow> []) cs)"

lemma forwarded_simps [simp]:
  "forwarded [] = []" "forwarded (xs @ ys) = forwarded xs @ forwarded ys"
  "forwarded (ForwardToLeader m # cs) = m # forwarded cs" "forwarded (ProcessMsg m # cs) = forwarded cs"
  by (simp_all add: forwarded_def)

fun call_ok :: "world \<Rightarrow> elector_call \<Rightarrow> bool" where
  "call_ok W (ForwardToLeader m) \<longleftrightarrow> asks W m"
| "call_ok W (ProcessMsg m) \<longleftrightarrow> DemuxKey m \<in> {ControlFail, ControlRecover} \<or>
     DemuxKey m \<in> {ElectionElect, ElectionAck} \<and> proper W m"

lemma call_ok_mono: "grows W W' \<Longrightarrow> call_ok W c \<Longrightarrow> call_ok W' c"
  using grows_mono(3) proper_mono by (cases c) auto

text \<open>
  What a step hands to the network and to the elector. Of client requests it hands on at most
  those whose ids are in \<open>A\<close>, and none twice.
\<close>

definition yields :: "world \<Rightarrow> int multiset \<Rightarrow> Dbnode \<Rightarrow> Dbnode \<Rightarrow> bool" where
  "yields W A n n' \<longleftrightarrow> (\<exists>out calls. Outgoing n' = Outgoing n @ out \<and> electorCalls n' = electorCalls n @ calls \<and>
     (\<forall>m \<in> set out. proper W m) \<and> (\<forall>c \<in> set calls. call_ok W c) \<and>
     request_ids out + request_ids (forwarded calls) \<subseteq># A)"

lemma yields_same: "Outgoing n' = Outgoing n \<Longrightarrow> electorCalls n' = electorCalls n \<Longrightarrow> yields W A n n'"
  by (simp add: yields_def)

lemma yields_trans:
  assumes "yields W A n n1" "yields W B n1 n2"
  shows "yields W (A + B) n n2"
proof -
  obtain o1 c1 where 1: "Outgoing n1 = Outgoing n @ o1" "electorCalls n1 = electorCalls n @ c1"
    "\<forall>m \<in> set o1. proper W m" "\<forall>c \<in> set c1. call_ok W c" "request_ids o1 + request_ids (forwarded c1) \<subseteq># A"
    using assms(1) unfolding yields_def by blast
  obtain o2 c2 where 2: "Outgoing n2 = Outgoing n1 @ o2" "electorCalls n2 = electorCalls n1 @ c2"
    "\<forall>m \<in> set o2. proper W m" "\<forall>c \<in> set c2. call_ok W c" "request_ids o2 + request_ids (forwarded c2) \<subseteq># B"
    using assms(2) unfolding yields_def by blast
  have "request_ids (o1 @ o2) + request_ids (forwarded (c1 @ c2)) \<subseteq># A + B"
    using subset_mset.add_mono [OF 1(5) 2(5)] by (simp add: ac_simps)
  then show ?thesis
    unfolding yields_def using 1 2 by (intro exI [of _ "o1 @ o2"] exI [of _ "c1 @ c2"]) auto
qed

definition lock_request_type :: "Messagetype \<Rightarrow> bool" where
  "lock_request_type k \<longleftrightarrow> k \<in> {NodeLockRequest, NodeLockRequestNoTimeout}"

text \<open>What may wait in the queue of node \<open>i\<close>: requests it has accepted, and lock requests.\<close>

definition held :: "world \<Rightarrow> int \<Rightarrow> Message \<Rightarrow> bool" where
  "held W i m \<longleftrightarrow> asks W m \<and> w_own W (Id' m) = Some i \<or>
     lock_request_type (DemuxKey m) \<and> from_coordinator W m \<and> Dest m = i"

definition kept :: "world \<Rightarrow> Dbnode \<Rightarrow> bool" where
  "kept W n \<longleftrightarrow> (\<forall>p \<in> set (qvalues (lockRequests n)) \<union> set (lockTimers n).
     p < length (cells n) \<and> held W (dbid n) (cells n ! p))"

definition mail :: "world \<Rightarrow> Dbnode \<Rightarrow> bool" where
  "mail W n \<longleftrightarrow> site W n \<and> stored W (dstore n) \<and> txn W n \<and> kept W n \<and> daemon_ok W n \<and>
     (\<forall>m \<in> set (sent n). plain W m)"

lemma held_mono: "grows W W' \<Longrightarrow> held W i m \<Longrightarrow> held W' i m"
  using grows_mono [of W W'] grows_own [of W W'] by (auto simp: held_def)

lemma mail_mono: "grows W W' \<Longrightarrow> mail W n \<Longrightarrow> mail W' n"
  using grows_mono(1) [of W W'] stored_mono [of W W'] txn_mono [of W W'] held_mono [of W W'] plain_mono [of W W'] daemon_mono [of W W']
  by (auto simp: mail_def site_def kept_def grows_def)

lemma mail_inorder: "mail W n \<Longrightarrow> world_ok W \<Longrightarrow> env_ok e n \<Longrightarrow> inorder W e n"
  by (simp add: mail_def inorder_def)

text \<open>A step that keeps the invariant and hands on at most the requests \<open>A\<close>.\<close>

definition delivers :: "world \<Rightarrow> int multiset \<Rightarrow> Dbnode \<Rightarrow> Dbnode \<Rightarrow> bool" where
  "delivers W A n n' \<longleftrightarrow> mail W n' \<and> yields W A n n' \<and> dbid n' = dbid n \<and> numPeers n' = numPeers n \<and>
     readQuorumSize n' = readQuorumSize n \<and> writeQuorumSize n' = writeQuorumSize n \<and>
     length (cells n) \<le> length (cells n')"

lemma delivers_trans: "delivers W A n n1 \<Longrightarrow> delivers W B n1 n2 \<Longrightarrow> delivers W (A + B) n n2"
  by (auto simp: delivers_def intro: yields_trans)

lemma conveys_delivers:
  assumes "conveys W n n' \<and> txn W n'" "mail W n"
  shows "delivers W A n n'"
proof -
  obtain out where "Outgoing n' = Outgoing n @ out" "\<forall>m \<in> set out. plain W m" "electorCalls n' = electorCalls n"
    using assms(1) by (auto simp: conveys_def)
  then have "yields W A n n'"
    unfolding yields_def
    by (intro exI [of _ out] exI [of _ "[]"]) (simp add: request_ids_plain, simp add: plain_def)
  with assms show ?thesis by (auto simp: delivers_def mail_def conveys_def site_def kept_def)
qed

lemma mail_frame [simp]:
  "mail W (n\<lparr>electorCalls := cs\<rparr>) = mail W n" "mail W (n\<lparr>timeoutCounter := c\<rparr>) = mail W n"
  "mail W (n\<lparr>internalTimer := ts\<rparr>) = mail W n" "mail W (n\<lparr>unlockTxids := us\<rparr>) = mail W n"
  "mail W (n\<lparr>stateQueryRes := qs\<rparr>) = mail W n" "mail W (emit m n) = mail W n"
  by (simp_all add: mail_def site_def kept_def sent_def daemon_ok_def) (simp_all add: emit_def)

lemma same_delivers:
  "mail W n' \<Longrightarrow> Outgoing n' = Outgoing n \<Longrightarrow> electorCalls n' = electorCalls n \<Longrightarrow> dbid n' = dbid n \<Longrightarrow>
    numPeers n' = numPeers n \<Longrightarrow> readQuorumSize n' = readQuorumSize n \<Longrightarrow>
    writeQuorumSize n' = writeQuorumSize n \<Longrightarrow> length (cells n) \<le> length (cells n') \<Longrightarrow> delivers W A n n'"
  by (simp add: delivers_def yields_same)

section \<open>The main loop\<close>

text \<open>The client requests that a node keeps and coordinates.\<close>

definition accepts :: "env \<Rightarrow> Dbnode \<Rightarrow> Message \<Rightarrow> bool" where
  "accepts e n m \<longleftrightarrow> DemuxKey m = ClientReadRequest \<and> readQuorumSize n \<noteq> 1 \<or>
     DemuxKey m \<in> {ClientWriteRequest, ClientStrongWriteRequest} \<and> writeQuorumSize n \<noteq> 1 \<and> leaderAnswer e = dbid n"

definition passes :: "env \<Rightarrow> Dbnode \<Rightarrow> Message \<Rightarrow> int multiset" where
  "passes e n m = (if client_request_type (DemuxKey m) \<and> \<not> accepts e n m then {#Id' m#} else {#})"

lemma dispatch_cases:
  assumes "dispatch e p m n = Inr n'" "inorder W e n" "txn W n" "Dest m = dbid n"
    and "proper W m \<or> DemuxKey m = InternalTimerSignal"
  shows "conveys W n n' \<and> txn W n' \<or>
    client_request_type (DemuxKey m) \<and> asks W m \<and> \<not> accepts e n m \<and>
      (n' = emit m n \<or> n' = n\<lparr>electorCalls := electorCalls n @ [ForwardToLeader m]\<rparr>) \<or>
    DemuxKey m \<in> {ElectionElect, ElectionAck} \<and> proper W m \<and>
      n' = n\<lparr>timeoutCounter := timeoutCounter n - 1, electorCalls := electorCalls n @ [ProcessMsg m]\<rparr> \<or>
    n' = enqueue_request p n \<and> (accepts e n m \<and> asks W m \<or> lock_request_type (DemuxKey m) \<and> from_coordinator W m)"
proof (cases "client_request_type (DemuxKey m)")
  case True
  then have a: "asks W m" using assms(5) by (auto simp: client_request_type_def proper_def)
  consider (accept) "accepts e n m" | (read) "\<not> accepts e n m" "DemuxKey m = ClientReadRequest"
    | (wr) "\<not> accepts e n m" "DemuxKey m \<in> {ClientWriteRequest, ClientStrongWriteRequest}"
    using True by (auto simp: client_request_type_def)
  then show ?thesis
  proof cases
    case accept
    then have "n' = enqueue_request p n" using assms(1) by (auto simp: accepts_def dispatch_def)
    with accept a show ?thesis by blast
  next
    case read
    then have "processLocalRead e m n = Inr n'" using assms(1) by (simp add: accepts_def dispatch_def)
    from local_mail(1) [OF assms(2,3) a read(2) this] read True a show ?thesis by blast
  next
    case wr
    then have "processLocalWrite e m n = Inr n' \<or> n' = n\<lparr>electorCalls := electorCalls n @ [ForwardToLeader m]\<rparr>"
      using assms(1) by (auto simp: accepts_def dispatch_def split: if_splits)
    moreover have "DemuxKey m \<noteq> ClientReadRequest" using wr(2) by auto
    ultimately show ?thesis using local_mail(2) [OF assms(2,3) a, of n'] wr True a by blast
  qed
next
  case nc: False
  have st: "stored W (dstore n)" using assms(2) by (simp add: inorder_def)
  show ?thesis
  proof (cases "proper W m")
    case True
    note p = assms(2,3) True assms(4)
    show ?thesis
      using assms(1) True nc answers_mail [OF p] requests_mail [OF p] background_mail [OF p] unlock_mail [OF p(1-3)] p(4) st assms(3)
      by (cases "DemuxKey m")
        (auto simp: dispatch_def client_request_type_def lock_request_type_def proper_def handleUnlockAck_def
          conveys_frame)
  next
    case False
    with assms st show ?thesis by (auto simp: dispatch_def)
  qed
qed

lemma enqueue_mail:
  assumes "mail W n" "p < length (cells n)" "held W (dbid n) (cells n ! p)"
  shows "mail W (enqueue_request p n)"
  using assms by (auto simp: mail_def site_def kept_def sent_def daemon_ok_def enqueue_request_def enqueue_def)

lemma dispatch_delivers:
  assumes "dispatch e p m n = Inr n'" "mail W n" "world_ok W" "env_ok e n" "Dest m = dbid n"
    and "proper W m \<or> DemuxKey m = InternalTimerSignal" "p < length (cells n)" "cells n ! p = m"
    and "accepts e n m \<Longrightarrow> w_own W (Id' m) = Some (dbid n)"
  shows "delivers W (passes e n m) n n'"
proof -
  have i: "inorder W e n" "txn W n" using assms(2-4) by (simp_all add: mail_def inorder_def)
  have call: "delivers W A n (n\<lparr>timeoutCounter := c, electorCalls := electorCalls n @ [a]\<rparr>)"
    if "call_ok W a" "request_ids (forwarded [a]) \<subseteq># A" for a A c
    using assms(2) that by (auto simp: delivers_def yields_def)
  from dispatch_cases [OF assms(1) i assms(5,6)] show ?thesis
  proof (elim disjE conjE)
    assume "conveys W n n'" "txn W n'"
    then show ?thesis using conveys_delivers assms(2) by blast
  next
    assume "client_request_type (DemuxKey m)" "asks W m" "\<not> accepts e n m" "n' = emit m n"
    moreover have "Outgoing (emit m n) = Outgoing n @ [m]" "electorCalls (emit m n) = electorCalls n"
      "dbid (emit m n) = dbid n" "numPeers (emit m n) = numPeers n" "cells (emit m n) = cells n"
      "readQuorumSize (emit m n) = readQuorumSize n" "writeQuorumSize (emit m n) = writeQuorumSize n"
      by (simp_all add: emit_def)
    moreover have "proper W m" using assms(6) calculation(1) by (auto simp: client_request_type_def)
    ultimately show ?thesis using assms(2) by (simp add: delivers_def yields_def passes_def)
  next
    assume "client_request_type (DemuxKey m)" "asks W m" "\<not> accepts e n m"
      "n' = n\<lparr>electorCalls := electorCalls n @ [ForwardToLeader m]\<rparr>"
    then show ?thesis using call [of "ForwardToLeader m" "{#Id' m#}" "timeoutCounter n"] by (simp add: passes_def)
  next
    assume "DemuxKey m \<in> {ElectionElect, ElectionAck}" "proper W m"
      "n' = n\<lparr>timeoutCounter := timeoutCounter n - 1, electorCalls := electorCalls n @ [ProcessMsg m]\<rparr>"
    then show ?thesis using call [of "ProcessMsg m" "passes e n m"] by simp
  next
    assume "n' = enqueue_request p n" "accepts e n m" "asks W m"
    then show ?thesis
      using enqueue_mail [OF assms(2,7)] assms(8,9)
      by (intro same_delivers) (auto simp: held_def enqueue_request_def)
  next
    assume "n' = enqueue_request p n" "lock_request_type (DemuxKey m)" "from_coordinator W m"
    then show ?thesis
      using enqueue_mail [OF assms(2,7)] assms(5,8)
      by (intro same_delivers) (auto simp: held_def enqueue_request_def)
  qed
qed

text \<open>An idle node turns to a request it has accepted.\<close>

lemma start_txn:
  assumes "asks W m" "w_own W (Id' m) = Some (dbid n)" "quorumMembers n = None"
  shows "DemuxKey m = ClientReadRequest \<Longrightarrow>
      txn W (n\<lparr>currentTxid := Id' m, clientRequest := m, currentMode := coordinatingFastRead\<rparr>)"
    "DemuxKey m \<noteq> ClientReadRequest \<Longrightarrow>
      txn W (n\<lparr>currentTxid := Id' m, clientRequest := m, currentMode := assemblingQuorum\<rparr>)"
  using assms by (simp_all add: txn_defs coordinating_def memberList_def)

lemma start_mail:
  assumes "start_transaction e m n = Inr n'" "mail W n" "world_ok W" "env_ok e n" "held W (dbid n) m" "currentMode n = idle"
  shows "conveys W n n' \<and> txn W n'"
proof -
  have q: "quorumMembers n = None" using assms(2,6) by (auto simp: mail_def txn_def coordinating_def)
  have st: "stored W (dstore n)" "site W n" using assms(2) by (simp_all add: mail_def)
  let ?n = "\<lambda>b. n\<lparr>currentTxid := Id' m, clientRequest := m, currentMode := b\<rparr>"
  have i: "inorder W e (?n b)" for b
    using st assms(3,4) by (simp add: inorder_def site_def env_ok_def perm_ok_def)
  have go: "conveys W n n' \<and> txn W n'" if "continueProcessing e (?n b) = Inr n'" "txn W (?n b)" for b
    using continue_mail [OF that(1) i that(2)] by (simp add: conveys_frame)
  show ?thesis
  proof (cases "lock_request_type (DemuxKey m)")
    case True
    then have f: "from_coordinator W m" "Dest m = dbid n"
      using assms(5) by (auto simp: held_def asks_def client_request_type_def lock_request_type_def)
    then have l: "plain W (lock_answer m (n\<lparr>currentTxid := Id' m, clientRequest := m\<rparr>))"
      by (auto simp: plain_def proper_def lock_answer_def client_request_type_def from_coordinator_def to_coordinator_def)
    have "txn W (?n processingRead)" "txn W (?n processingWrite)"
      using True f q by (simp_all add: txn_def participant_def coordinating_def lock_request_type_def)
    with True assms(1) l st(1) show ?thesis
      by (auto simp: lock_request_type_def start_transaction_def Let_def conveys_frame intro!: conveys_emit)
  next
    case False
    then have a: "asks W m" "w_own W (Id' m) = Some (dbid n)" using assms(5) by (auto simp: held_def)
    note start_txn [OF a q]
    moreover have "client_request_type (DemuxKey m)" using a(1) by (simp add: asks_def)
    ultimately show ?thesis
      using assms(1) go by (auto simp: start_transaction_def client_request_type_def fastReads_def Let_def)
  qed
qed

lemma serve_delivers:
  assumes "serve e p n = Inr n'" "mail W n" "world_ok W" "env_ok e n" "p < length (cells n)"
  shows "delivers W {#} n n'"
proof (cases "currentMode n = idle \<and> \<not> queue_empty (lockRequests n)")
  case False
  with assms(1,2) show ?thesis by (auto simp: serve_def intro: same_delivers)
next
  case True
  then obtain q qs where qs: "qvalues (lockRequests n) = q # qs"
    by (auto simp: queue_empty_def neq_Nil_conv)
  let ?m = "cells n ! q" and ?rest = "(lockRequests n)\<lparr>qvalues := qs\<rparr>"
  let ?n1 = "n\<lparr>lockRequests := ?rest, cells := (cells n)[p := ?m]\<rparr>"
  have q: "q < length (cells n)" "held W (dbid n) ?m" using assms(2) qs by (auto simp: mail_def kept_def)
  have h: "held W (dbid n) ((cells n)[p := ?m] ! r)" if "held W (dbid n) (cells n ! r)" for r
    using that q(2) assms(5) by (cases "r = p") simp_all
  have n1: "mail W ?n1" "env_ok e ?n1"
    using assms(2,4) qs h by (auto simp: mail_def site_def kept_def sent_def daemon_ok_def env_ok_def perm_ok_def)
  have "(if Id' ?m \<in> set (unlockTxids n) then Inr ?n1 else start_transaction e ?m ?n1) = Inr n'"
    using assms(1) True qs q(1) by (simp add: serve_def dequeue_def deref_def Let_def)
  then have "n' = ?n1 \<or> conveys W ?n1 n' \<and> txn W n'"
    using start_mail [OF _ n1(1) assms(3) n1(2)] q(2) True by (auto split: if_splits)
  then have "delivers W {#} ?n1 n'"
    using conveys_delivers [OF _ n1(1)] same_delivers [OF n1(1)] by blast
  moreover have "delivers W {#} n ?n1" by (rule same_delivers [OF n1(1)]) simp_all
  ultimately show ?thesis using delivers_trans by fastforce
qed

lemma on_timer_delivers:
  assumes "on_timer e m n = Inr n'" "mail W n" "world_ok W" "env_ok e n"
  shows "delivers W {#} n n'"
proof -
  have i: "inorder W e n" "txn W n" using assms(2-4) by (simp_all add: mail_def inorder_def)
  have same: "delivers W {#} n (n1\<lparr>timeoutCounter := c\<rparr>)" "delivers W {#} n (n1\<lparr>internalTimer := ts\<rparr>)"
    if "delivers W {#} n n1" for n1 c ts
    using that by (simp_all add: delivers_def yields_def)
  have "delivers W {#} n n1" if "abortProcessing e n = Inr n1" for n1
    using conveys_delivers [OF abort_mail [OF that i] assms(2)] .
  moreover have "delivers W {#} n n" using assms(2) by (auto intro: same_delivers)
  ultimately show ?thesis
    using assms(1) same by (auto simp: on_timer_def split: if_splits)
qed

text \<open>Failure and recovery.\<close>

lemma control_delivers:
  assumes "mail W n"
  shows "delivers W {#} n (recover_node n)" "delivers W {#} n (fail_node n)"
proof -
  have r: "tasks (Repeater_Recover r) = tasks r" "tasks (Repeater_Fail r) = tasks r" for r
    by (simp_all add: Repeater_Recover_def Repeater_Fail_def)
  have "mail W (recover_node n)"
    using assms r(1) by (simp add: recover_node_def mail_def site_def kept_def sent_def daemon_ok_def)
  then show "delivers W {#} n (recover_node n)"
    by (auto simp: delivers_def yields_def recover_node_def)
  have "txn W (fail_node n)"
    using assms by (auto simp: mail_def fail_node_def Let_def) (simp_all add: txn_def coordinating_def)
  then have "mail W (fail_node n)"
    using assms r(2) by (auto simp: fail_node_def Let_def mail_def site_def kept_def sent_def daemon_ok_def)
  then show "delivers W {#} n (fail_node n)"
    by (auto simp: delivers_def yields_def fail_node_def Let_def)
qed

text \<open>A message that may arrive: from the network, from the timer, or from the simulation.\<close>

definition arrives :: "world \<Rightarrow> Dbnode \<Rightarrow> Message \<Rightarrow> bool" where
  "arrives W n m \<longleftrightarrow> DemuxKey m \<in> {ControlFail, ControlRecover} \<or>
     Dest m = dbid n \<and> (proper W m \<or> DemuxKey m = InternalTimerSignal)"

lemma arrives_msg_ok: "arrives W n m \<Longrightarrow> site W n \<Longrightarrow> daemon_ok W n \<Longrightarrow> msg_ok n m"
  by (cases "DemuxKey m")
    (auto simp: arrives_def msg_ok_def proper_def site_def is_node_def to_coordinator_def in_system_def propagates_def
      daemon_ok_def streams_ok_def split: option.splits)

lemma mail_cells: "mail W n \<Longrightarrow> mail W (n\<lparr>cells := cells n @ [m]\<rparr>)"
  by (auto simp: mail_def site_def kept_def sent_def daemon_ok_def nth_append intro: less_SucI)

text \<open>
  One message: what is handed on is at most the request that arrived, and only if the node has
  not accepted it; an accepted request must be the node's own.
\<close>

lemma incoming_delivers:
  assumes "on_incoming e m n = Inr n'" "mail W n" "world_ok W" "env_ok e n" "arrives W n m"
    and "client_request_type (DemuxKey m) \<Longrightarrow> accepts e n m \<Longrightarrow> w_own W (Id' m) = Some (dbid n)"
  shows "delivers W (passes e n m) n n'"
proof -
  let ?n0 = "n\<lparr>cells := cells n @ [m]\<rparr>" and ?p = "length (cells n)"
  have "mail W ?n0" using assms(2) by (rule mail_cells)
  then have n0: "mail W ?n0" "delivers W {#} n ?n0" by (auto intro: same_delivers)
  have more: "delivers W (passes e n m) n n1" if "delivers W {#} ?n0 n1" for n1
  proof -
    have "delivers W {#} n n1" using delivers_trans [OF n0(2) that] by simp
    then show ?thesis by (auto simp: delivers_def yields_def)
  qed
  show ?thesis
  proof (cases "disabled n \<or> DemuxKey m \<in> {ControlRecover, ControlFail}")
    case True
    with assms(1) have "n' = ?n0 \<or> n' = recover_node ?n0 \<or> n' = fail_node ?n0"
      by (auto simp: on_incoming_def alloc_def Let_def split: if_splits)
    then show ?thesis
      using more control_delivers [OF n0(1)] same_delivers [OF n0(1)] by auto
  next
    case False
    with assms(1,5) obtain n1 n2 where s: "on_timer e m ?n0 = Inr n1"
      "dispatch e ?p m (if DemuxKey m = ElectionElect then cleanUnlockTxids n1 else n1) = Inr n2"
      "serve e ?p n2 = Inr n'"
      by (auto simp: on_incoming_def alloc_def Let_def split: if_splits)
    have c1: "cells n1 = cells n @ [m]"
    proof -
      have "conveys W ?n0 n2" if "abortProcessing e ?n0 = Inr n2" for n2
        using abort_mail [OF that] n0(1) assms(3,4) mail_inorder [OF n0(1) assms(3), of e]
        by (simp add: mail_def env_ok_def perm_ok_def)
      then show ?thesis
        using s(1) by (auto simp: on_timer_def conveys_def split: if_splits)
    qed
    have d1: "delivers W {#} ?n0 n1"
      using on_timer_delivers [OF s(1) n0(1) assms(3)] assms(4) by (simp add: env_ok_def perm_ok_def)
    let ?n2 = "if DemuxKey m = ElectionElect then cleanUnlockTxids n1 else n1"
    have d2: "delivers W {#} n ?n2" "mail W ?n2" "cells ?n2 = cells n @ [m]"
      using delivers_trans [OF n0(2) d1] c1
      by (auto simp: delivers_def yields_def cleanUnlockTxids_def Let_def)
    then have n2: "env_ok e ?n2" "dbid ?n2 = dbid n" "passes e ?n2 m = passes e n m" "accepts e ?n2 m = accepts e n m"
      using assms(4) by (simp_all add: delivers_def env_ok_def perm_ok_def passes_def accepts_def split del: if_split)
    have d3: "delivers W (passes e n m) ?n2 n2"
      using dispatch_delivers [OF s(2) d2(2) assms(3) n2(1)] assms(5,6) n2(2-4) d2(3) False
      by (auto simp: arrives_def accepts_def client_request_type_def split del: if_split)
    have "delivers W {#} n2 n'"
      using serve_delivers [OF s(3) _ assms(3)] d3 d2(3) n2(1)
      by (auto simp: delivers_def env_ok_def perm_ok_def)
    from delivers_trans [OF delivers_trans [OF d2(1) d3] this] show ?thesis by simp
  qed
qed

lemma lock_timeout_delivers:
  assumes "on_lock_timeout e p n = Inr n'" "mail W n" "world_ok W" "env_ok e n" "p \<in> set (lockTimers n)"
  shows "delivers W {#} n n'"
proof -
  have h: "p < length (cells n)" "held W (dbid n) (cells n ! p)" "is_node W (dbid n)"
    using assms(2,5) by (auto simp: mail_def kept_def site_def)
  then have "plain W (timeout_answer (cells n ! p) n)"
    by (auto simp: held_def asks_def plain_def proper_def timeout_answer_def client_request_type_def
        lock_request_type_def from_coordinator_def to_coordinator_def)
  note ans = this
  have out: "delivers W {#} n (emit (timeout_answer (cells n ! p) n) (n\<lparr>lockRequests := fst (queue_remove (lockRequests n) p)\<rparr>))"
  proof -
    let ?n1 = "n\<lparr>lockRequests := fst (queue_remove (lockRequests n) p)\<rparr>"
    have "set (qvalues (fst (queue_remove (lockRequests n) p))) \<subseteq> set (qvalues (lockRequests n))"
      using set_remove1_subset by (fastforce simp: queue_remove_def remove_first_eq)
    then have n1: "mail W ?n1" using assms(2) by (auto simp: mail_def site_def kept_def sent_def daemon_ok_def)
    then have "conveys W ?n1 (emit (timeout_answer (cells n ! p) n) ?n1)"
      using ans by (intro conveys_emit) (simp_all add: mail_def)
    then have "delivers W {#} ?n1 (emit (timeout_answer (cells n ! p) n) ?n1)"
      using conveys_delivers [OF _ n1] n1 by (simp add: mail_def)
    then show ?thesis by (simp add: delivers_def yields_def)
  qed
  have "delivers W {#} n n" using assms(2) by (auto intro: same_delivers)
  moreover have "delivers W {#} n n1" if "abortProcessing e n = Inr n1" for n1
    using conveys_delivers [OF abort_mail [OF that mail_inorder [OF assms(2-4)]] assms(2)] assms(2)
    by (simp add: mail_def)
  ultimately show ?thesis
    using assms(1) out h(1)
    by (cases "queue_remove (lockRequests n) p") (auto simp: on_lock_timeout_def deref_def split: if_splits)
qed

lemma state_query_delivers: "mail W n \<Longrightarrow> delivers W {#} n (n\<lparr>stateQueryRes := qs\<rparr>)"
  by (auto intro: same_delivers)

lemma mail_New:
  assumes "0 \<le> i" "i < w_n W"
  shows "mail W (New h (w_n W) i False rqs wqs (w_sloppy W))"
  using assms stored_new daemon_New [of W h i False rqs wqs]
  by (simp add: mail_def) (simp add: New_def site_def is_node_def txn_def coordinating_def kept_def sent_def new_Store_def
      empty_queue_def new_Repeater_def)

end
