(* ===== verification/Ring_Mail.thy ===== *)
theory Ring_Mail
  imports Dbnode_Delivery Elector
begin

text \<open>
  The elector beside a node: its tokens and acknowledgements are in order, and of the client
  requests it was given to forward it puts each on the network at most once.
\<close>

definition ring_mail :: "world \<Rightarrow> ring \<Rightarrow> bool" where
  "ring_mail W r \<longleftrightarrow> ring_inv (w_n W) any_ids r \<and> DemuxKey (token r) = ElectionElect \<and>
     is_node W (Src (token r)) \<and> is_node W (Dest (token r)) \<and> (\<forall>m \<in> set (requestsToForward r). asks W m)"

definition ring_yields :: "world \<Rightarrow> ring \<Rightarrow> ring \<Rightarrow> bool" where
  "ring_yields W r r' \<longleftrightarrow> (\<exists>out. r_outgoing r' = r_outgoing r @ out \<and> (\<forall>m \<in> set out. proper W m) \<and>
     request_ids out + request_ids (requestsToForward r') \<subseteq># request_ids (requestsToForward r))"

text \<open>What the main loop of the elector is sent.\<close>

definition ring_takes :: "world \<Rightarrow> Message \<Rightarrow> bool" where
  "ring_takes W m \<longleftrightarrow> call_ok W (ProcessMsg m) \<or> DemuxKey m \<in> {InternalTimerSignal, InternalLeaderQuery}"

lemma ring_mail_mono: "grows W W' \<Longrightarrow> ring_mail W r \<Longrightarrow> ring_mail W' r"
  using grows_mono [of W W'] by (auto simp: ring_mail_def grows_def)

lemma ring_yields_trans:
  assumes "ring_yields W r r1" "ring_yields W r1 r2"
  shows "ring_yields W r r2"
proof -
  obtain o1 where 1: "r_outgoing r1 = r_outgoing r @ o1" "\<forall>m \<in> set o1. proper W m"
    "request_ids o1 + request_ids (requestsToForward r1) \<subseteq># request_ids (requestsToForward r)"
    using assms(1) unfolding ring_yields_def by blast
  obtain o2 where 2: "r_outgoing r2 = r_outgoing r1 @ o2" "\<forall>m \<in> set o2. proper W m"
    "request_ids o2 + request_ids (requestsToForward r2) \<subseteq># request_ids (requestsToForward r1)"
    using assms(2) unfolding ring_yields_def by blast
  have "request_ids (o1 @ o2) + request_ids (requestsToForward r2) \<subseteq># request_ids o1 + request_ids (requestsToForward r1)"
    using 2(3) by (simp add: ac_simps)
  with 1(3) have "request_ids (o1 @ o2) + request_ids (requestsToForward r2) \<subseteq># request_ids (requestsToForward r)"
    by (rule subset_mset.order_trans [rotated])
  with 1 2 show ?thesis unfolding ring_yields_def by (intro exI [of _ "o1 @ o2"]) auto
qed

lemma ring_yields_same:
  "r_outgoing r' = r_outgoing r \<Longrightarrow> requestsToForward r' = requestsToForward r \<Longrightarrow> ring_yields W r r'"
  by (simp add: ring_yields_def)

lemma ring_yields_plain:
  "r_outgoing r' = r_outgoing r @ out \<Longrightarrow> \<forall>m \<in> set out. plain W m \<Longrightarrow>
    requestsToForward r' = requestsToForward r \<Longrightarrow> ring_yields W r r'"
  unfolding ring_yields_def by (intro exI [of _ out]) (simp add: request_ids_plain, simp add: plain_def)

lemma token_plain: "ring_mail W r \<Longrightarrow> plain W (token r)"
  by (simp add: ring_mail_def ring_inv_def plain_def proper_def client_request_type_def)

section \<open>One iteration\<close>

lemma ring_timeout_token:
  assumes "ring_timeout now r = Inr r'"
  shows "Src (token r') = r_id r" "Dest (token r') = nextInRing r" "DemuxKey (token r') = DemuxKey (token r)"
    "requestsToForward r' = requestsToForward r"
    "r_outgoing r' = r_outgoing r \<or> r_outgoing r' = r_outgoing r @ [token r']"
  using assms by (auto simp: ring_timeout_def Let_def forwardToken_def split: if_splits option.splits)

lemma ring_timeout_mail:
  assumes "ring_mail W r"
  shows "\<exists>r'. ring_timeout now r = Inr r' \<and> ring_mail W r' \<and> ring_yields W r r'"
proof -
  have inv: "ring_inv (w_n W) any_ids r" using assms by (simp add: ring_mail_def)
  obtain r' where r': "ring_timeout now r = Inr r'" "ring_inv (w_n W) any_ids r'"
    using ring_timeout_inv [OF inv any_ids_stable] by blast
  note t = ring_timeout_token [OF r'(1)]
  have "ring_mail W r'" using assms r'(2) t(1-4) by (simp add: ring_mail_def ring_inv_def is_node_def)
  with r'(1) t(4,5) ring_yields_plain [OF _ _ t(4)] token_plain ring_yields_same show ?thesis by fastforce
qed

lemma ring_elect_token:
  assumes "ring_elect now m r = Inr r'"
  shows "Src (token r') = r_id r" "Dest (token r') = nextInRing r" "DemuxKey (token r') = DemuxKey m"
    "requestsToForward r' = requestsToForward r"
    "\<exists>out. r_outgoing r' = r_outgoing r @
       zeroMessage\<lparr>Src := r_id r, Dest := Src m, DemuxKey := ElectionAck, Ok := True\<rparr> # out \<and>
       (out = [] \<or> out = [token r'])"
  using assms by (auto simp: ring_elect_def Let_def forwardToken_def split: if_splits option.splits)

lemma ring_elect_mail:
  assumes "ring_mail W r" "proper W m" "DemuxKey m = ElectionElect"
  shows "\<exists>r'. ring_elect now m r = Inr r' \<and> ring_mail W r' \<and> ring_yields W r r'"
proof -
  have inv: "ring_inv (w_n W) any_ids r" using assms(1) by (simp add: ring_mail_def)
  have m: "is_node W (Src m)" "holds (w_n W) any_ids (Value m)" using assms(2,3) by (simp_all add: proper_def)
  obtain r' where r': "ring_elect now m r = Inr r'" "ring_inv (w_n W) any_ids r'"
    using ring_elect_inv [OF inv any_ids_stable m(2)] by blast
  note t = ring_elect_token [OF r'(1)]
  have mail: "ring_mail W r'" using assms(1,3) r'(2) t(1-4) by (simp add: ring_mail_def ring_inv_def is_node_def)
  have "plain W (zeroMessage\<lparr>Src := r_id r, Dest := Src m, DemuxKey := ElectionAck, Ok := True\<rparr>)"
    using m(1) inv by (simp add: plain_def proper_def client_request_type_def is_node_def ring_inv_def)
  with t(4,5) token_plain [OF mail] have "ring_yields W r r'"
    by (elim exE conjE, intro ring_yields_plain) auto
  with r'(1) mail show ?thesis by blast
qed

lemma asks_proper: "asks W m \<Longrightarrow> is_node W (Dest m) \<Longrightarrow> proper W m"
  by (auto simp: asks_def proper_def client_request_type_def)

lemma asks_Dest [simp]: "asks W (m\<lparr>Dest := d\<rparr>) = asks W m"
  by (simp add: asks_def)

lemma ring_end_mail:
  assumes "ring_mail W r"
  shows "ring_mail W (ring_end r) \<and> ring_yields W r (ring_end r)"
proof (cases "leader r > -1")
  case True
  let ?out = "map (\<lambda>m. m\<lparr>Dest := leader r\<rparr>) (requestsToForward r)"
  have inv: "ring_inv (w_n W) any_ids r" using assms by (simp add: ring_mail_def)
  then have l: "is_node W (leader r)"
    using ring_inv_leader_range [OF inv] True by (simp add: is_node_def)
  have "request_ids (map (\<lambda>m. m\<lparr>Dest := leader r\<rparr>) ms) = request_ids ms" for ms
    by (induction ms) simp_all
  moreover have "\<forall>m \<in> set ?out. proper W m"
    using assms l by (auto simp: ring_mail_def intro!: asks_proper)
  ultimately have "ring_yields W r (ring_end r)"
    using True unfolding ring_yields_def by (intro exI [of _ ?out]) (simp add: ring_end_def forwardRequests_def)
  moreover have "ring_mail W (ring_end r)"
    using assms ring_end_inv [OF inv] True by (simp add: ring_mail_def ring_end_def forwardRequests_def)
  ultimately show ?thesis by simp
next
  case False
  with assms show ?thesis by (simp add: ring_end_def ring_yields_same)
qed

lemma ring_mail_upd [simp]:
  "ring_mail W (r\<lparr>r_internalTimer := x\<rparr>) = ring_mail W r" "ring_mail W (r\<lparr>r_timeoutCounter := c\<rparr>) = ring_mail W r"
  "ring_mail W (r\<lparr>leaderQueryRes := y\<rparr>) = ring_mail W r" "ring_mail W (r\<lparr>r_disabled := b\<rparr>) = ring_mail W r"
  by (simp_all add: ring_mail_def ring_inv_def)

lemma ring_step_mail:
  assumes "ring_mail W r" "ring_takes W m"
  shows "\<exists>r'. ring_step now m r = Inr r' \<and> ring_mail W r' \<and> ring_yields W r r'"
proof (cases "r_disabled r \<or> DemuxKey m \<in> {ControlRecover, ControlFail}")
  case True
  have "ring_mail W (r\<lparr>r_disabled := True, leader := -1\<rparr>)" using assms(1) by (simp add: ring_mail_def ring_inv_def)
  with True assms(1) show ?thesis by (auto simp: ring_step_def intro!: ring_yields_same)
next
  case False
  have fin: "\<exists>r'. Inr (ring_end r1) = (Inr r' :: ring res) \<and> ring_mail W r' \<and> ring_yields W r r'"
    if "ring_mail W r1" "ring_yields W r r1" for r1
    using ring_end_mail [OF that(1)] ring_yields_trans [OF that(2)] by auto
  show ?thesis
  proof (cases "DemuxKey m = InternalTimerSignal")
    case True
    obtain r1 where r1: "(if Id' m = r_timeoutCounter r then ring_timeout now r else Inr r) = Inr r1"
      "ring_mail W r1" "ring_yields W r r1"
      using ring_timeout_mail [OF assms(1)] assms(1) ring_yields_same [of r r W]
      by (cases "Id' m = r_timeoutCounter r") auto
    have "ring_yields W r (r1\<lparr>r_internalTimer := r_internalTimer r1 @ [r_timeoutCounter r1]\<rparr>)"
      using r1(3) by (simp add: ring_yields_def)
    with fin r1(2) have "\<exists>r'. Inr (ring_end (r1\<lparr>r_internalTimer := r_internalTimer r1 @ [r_timeoutCounter r1]\<rparr>)) =
        (Inr r' :: ring res) \<and> ring_mail W r' \<and> ring_yields W r r'" by simp
    with False True r1(1) show ?thesis by (simp add: ring_step_def)
  next
    case nt: False
    let ?r1 = "r\<lparr>r_timeoutCounter := r_timeoutCounter r + 1\<rparr>"
    have r1: "ring_mail W ?r1" "ring_yields W r ?r1" using assms(1) by (simp_all add: ring_yields_same)
    show ?thesis
    proof (cases "DemuxKey m = ElectionElect")
      case True
      then have "proper W m" using assms(2) by (simp add: ring_takes_def)
      then obtain r2 where r2: "ring_elect now m ?r1 = Inr r2" "ring_mail W r2" "ring_yields W ?r1 r2"
        using ring_elect_mail [OF r1(1) _ True] by blast
      with fin [OF r2(2) ring_yields_trans [OF r1(2) r2(3)]] False nt True show ?thesis
        by (simp add: ring_step_def)
    next
      case ne: False
      then have k: "DemuxKey m = ElectionAck \<or> DemuxKey m = InternalLeaderQuery"
        using assms(2) False nt by (auto simp: ring_takes_def)
      let ?r2 = "?r1\<lparr>leaderQueryRes := leaderQueryRes r @ [leader r]\<rparr>"
      have "ring_mail W ?r2" "ring_yields W r ?r2" using assms(1) by (simp_all add: ring_yields_same)
      from fin [OF this] k False r1 show ?thesis by (auto simp: ring_step_def)
    qed
  qed
qed

section \<open>Start, and requests to forward\<close>

lemma ring_start_mail:
  assumes "0 \<le> i" "i < w_n W" "w_n W \<le> 1000"
  shows "ring_mail W (newRing i (w_n W))"
    "\<exists>r'. ring_start now (newRing i (w_n W)) = Inr r' \<and> ring_mail W r' \<and> ring_yields W (newRing i (w_n W)) r'"
proof -
  let ?r = "newRing i (w_n W)"
  have inv: "ring_inv (w_n W) any_ids ?r" by (rule newRing_inv [OF assms])
  show 0: "ring_mail W ?r"
    using inv wrap_next_range [OF assms(1,2)] assms(1,2) by (simp add: ring_mail_def) (simp add: newRing_def is_node_def)
  obtain v where v: "addId (Value (token ?r)) (r_id ?r) = Inr v" "token_of v ([] @ [i])"
    using addId_token [of "Value (token ?r)" "[]" i] assms by (auto simp: newRing_def valid_id_def)
  let ?s = "?r\<lparr>r_timeoutCounter := 0, r_internalTimer := r_internalTimer ?r @ [0]\<rparr>"
  let ?r1 = "?s\<lparr>token := (token ?s)\<lparr>Value := v\<rparr>\<rparr>"
  have "holds (w_n W) any_ids v" using v(2) assms by (auto simp: holds_def any_ids_def)
  then have 1: "ring_mail W ?r1" using 0 by (simp add: ring_mail_def ring_inv_def)
  then have 2: "ring_mail W (forwardToken now ?r1)" "plain W (token ?r1)"
    using token_plain [OF 1] by (auto simp: ring_mail_def ring_inv_def forwardToken_def carries_def split: option.splits)
  have 3: "ring_yields W ?r (forwardToken now ?r1)"
  proof (rule disjE [OF forwardToken_outgoing [of now ?r1]])
    assume "r_outgoing (forwardToken now ?r1) = r_outgoing ?r1 @ [token ?r1]"
    with 2(2) show ?thesis by (intro ring_yields_plain [of _ _ "[token ?r1]"]) simp_all
  qed (intro ring_yields_same; simp)
  have r0: "ring_mail W ?s" "ring_yields W ?r ?s" using 0 by (simp_all add: ring_yields_same)
  have s: "ring_start now ?r = Inr (if r_id ?r = r_n ?r - 1 then forwardToken now ?r1 else ?s)"
    using v(1) by (cases "r_id ?r = r_n ?r - 1") (simp_all add: ring_start_def Let_def)
  show "\<exists>r'. ring_start now ?r = Inr r' \<and> ring_mail W r' \<and> ring_yields W ?r r'"
    unfolding s using 2(1) 3 r0 by auto
qed

lemma ring_forward_mail:
  "ring_mail W r \<Longrightarrow> asks W m \<Longrightarrow> ring_mail W (ring_ForwardToLeader m r)"
  by (auto simp: ring_mail_def ring_inv_def ring_ForwardToLeader_def asks_def client_request_type_def)

end
