(* ===== verification/Cluster_Safety.thy ===== *)
theory Cluster_Safety
  imports Cluster Ring_Mail
begin

text \<open>
  The invariant of the whole system: every node is good, everything on a channel is in order,
  and every client request is in one place only. The last part is counted: \<open>waiting\<close> is the
  multiset of the ids of requests that are under way; a request leaves it when a node accepts
  it, and that node stays its only coordinator.
\<close>

declare enabled_def [simp] random_ok_def [simp]

section \<open>Requests under way\<close>

definition stock :: "cluster \<Rightarrow> int \<Rightarrow> int multiset" where
  "stock c i = request_ids (outboxes c i) + request_ids (forwarded (el_calls c i)) +
     request_ids (requestsToForward (rings c i))"

definition waiting :: "int \<Rightarrow> cluster \<Rightarrow> int multiset" where
  "waiting N c = request_ids (net c) + (\<Sum>i \<in> {0..N}. stock c i)"

lemma waiting_at:
  assumes "i \<in> {0..N}"
  shows "waiting N c = request_ids (net c) + stock c i + (\<Sum>j \<in> {0..N} - {i}. stock c j)"
  using assms by (simp add: waiting_def sum.remove [of "{0..N}" i] ac_simps)

lemma waiting_mono_at:
  assumes "i \<in> {0..N}" "\<And>j. j \<noteq> i \<Longrightarrow> stock c' j = stock c j"
    and "request_ids (net c') + stock c' i \<subseteq># request_ids (net c) + stock c i + A"
  shows "waiting N c' \<subseteq># waiting N c + A"
proof -
  have "(\<Sum>j \<in> {0..N} - {i}. stock c' j) = (\<Sum>j \<in> {0..N} - {i}. stock c j)"
    by (rule sum.cong) (use assms(2) in auto)
  then show ?thesis
    using subset_mset.add_right_mono [OF assms(3), of "\<Sum>j \<in> {0..N} - {i}. stock c j"]
    by (simp add: waiting_at [OF assms(1)] ac_simps)
qed

lemma without_split:
  "k < length xs \<Longrightarrow> request_ids xs = request_ids (without k xs) + request_ids [xs ! k]"
  by (subst id_take_nth_drop [of k xs]) (simp_all add: without_def)

lemma forwarded_without:
  "k < length cs \<Longrightarrow> request_ids (forwarded cs) =
    request_ids (forwarded (without k cs)) + request_ids (forwarded [cs ! k])"
  by (subst id_take_nth_drop [of k cs]) (auto simp: without_def forwarded_def)

lemma set_without: "set (without k xs) \<subseteq> set xs"
  by (auto simp: without_def dest: in_set_takeD in_set_dropD)

section \<open>The invariant\<close>

text \<open>Everything but the counting.\<close>

definition tidy :: "world \<Rightarrow> cluster \<Rightarrow> bool" where
  "tidy W c \<longleftrightarrow> w_n W \<le> 1000 \<and> world_ok W \<and>
     (\<forall>i \<in> {0..<w_n W}. good (nodes c i) \<and> wiring (nodes c i) = (i, w_n W - 1, w_sloppy W) \<and> mail W (nodes c i)) \<and>
     (\<forall>i \<in> {0..<w_n W}. ring_mail W (rings c i) \<and> (\<not> ringing c i \<longrightarrow> rings c i = newRing i (w_n W))) \<and>
     (\<forall>i. \<forall>m \<in> set (outboxes c i). proper W m) \<and> (\<forall>i. \<forall>cl \<in> set (el_calls c i). call_ok W cl) \<and>
     (\<forall>m \<in> set (net c). proper W m) \<and> dom (parts c) = {0..w_n W}"

abbreviation world_of :: "int \<Rightarrow> bool \<Rightarrow> (int \<Rightarrow> int option) \<Rightarrow> cluster \<Rightarrow> world" where
  "world_of N sl own c \<equiv> \<lparr>w_n = N, w_reqs = set (asked c), w_own = own, w_sloppy = sl\<rparr>"

definition cluster_inv :: "int \<Rightarrow> bool \<Rightarrow> (int \<Rightarrow> int option) \<Rightarrow> cluster \<Rightarrow> bool" where
  "cluster_inv N sl own c \<longleftrightarrow> tidy (world_of N sl own c) c \<and>
     dom own \<subseteq> Id' ` set (asked c) \<and>
     (\<forall>t. count (waiting N c) t \<le> 1) \<and> (\<forall>t \<in># waiting N c. own t = None \<and> t \<in> Id' ` set (asked c))"

lemma tidy_mono:
  assumes "tidy W c" "grows W W'" "world_ok W'"
  shows "tidy W' c"
  using assms mail_mono [OF assms(2)] ring_mail_mono [OF assms(2)] proper_mono [OF assms(2)] call_ok_mono [OF assms(2)]
  by (auto simp: tidy_def grows_def)

lemma cluster_inv_init:
  assumes "1 \<le> N" "N \<le> 1000" "1 \<le> rqs" "rqs \<le> N" "1 \<le> wqs" "wqs \<le> N"
  shows "cluster_inv N sl (\<lambda>_. None) (cluster_init h N rqs wqs sl)"
proof -
  let ?W = "\<lparr>w_n = N, w_reqs = {}, w_own = \<lambda>_. None, w_sloppy = sl\<rparr>"
  have g: "good (New h N i False rqs wqs sl) \<and> wiring (New h N i False rqs wqs sl) = (i, N - 1, sl) \<and>
      mail ?W (New h N i False rqs wqs sl)" if "i \<in> {0..<N}" for i
    using that assms good_New [of i N rqs wqs h sl] mail_New [of i ?W h rqs wqs] by simp
  have r: "ring_mail ?W (newRing i N)" if "i \<in> {0..<N}" for i
    using that assms(2) ring_start_mail(1) [of i ?W] by simp
  have z: "requestsToForward (newRing i N) = []" for i by (simp add: newRing_def)
  have "dom (newPartitions N) = {0..N}" by (auto simp: newPartitions_def split: if_splits)
  then have "tidy ?W (cluster_init h N rqs wqs sl)"
    using g r assms(2) by (simp add: tidy_def cluster_init_def New_Elector_def world_ok_def)
  moreover have "waiting N (cluster_init h N rqs wqs sl) = {#}"
    by (simp add: waiting_def stock_def cluster_init_def New_Elector_def z)
  ultimately show ?thesis by (simp add: cluster_inv_def) (simp add: cluster_init_def)
qed

text \<open>A step that starts no request and accepts none.\<close>

lemma inv_step:
  assumes "cluster_inv N sl own c" "asked c' = asked c"
    and "tidy (world_of N sl own c) c \<Longrightarrow> tidy (world_of N sl own c) c'"
    and "waiting N c' \<subseteq># waiting N c"
  shows "cluster_inv N sl own c'"
proof -
  have "count (waiting N c') t \<le> 1" for t
    using mset_subset_eq_count [OF assms(4), of t] assms(1) le_trans by (fastforce simp: cluster_inv_def)
  with assms mset_subset_eqD [OF assms(4)] show ?thesis by (auto simp: cluster_inv_def)
qed

section \<open>Steps of a node and of an elector\<close>

lemma yields_drop:
  assumes "yields W A n n'"
  shows "\<forall>m \<in> set (drop (length (Outgoing n)) (Outgoing n')). proper W m"
    "\<forall>cl \<in> set (drop (length (electorCalls n)) (electorCalls n')). call_ok W cl"
    "request_ids (drop (length (Outgoing n)) (Outgoing n')) +
      request_ids (forwarded (drop (length (electorCalls n)) (electorCalls n'))) \<subseteq># A"
  using assms by (auto simp: yields_def)

lemma mail_wiring: "mail W n \<Longrightarrow> wiring n = (dbid n, numPeers n, w_sloppy W)"
  by (cases "backgroundWriteDaemon n") (auto simp: mail_def daemon_ok_def streams_ok_def wiring_def)

lemma after_node_tidy:
  assumes "tidy W c" "i \<in> {0..<w_n W}" "delivers W A (nodes c i) n" "good n"
  shows "tidy W (after_node i n c)"
proof -
  have y: "yields W A (nodes c i) n" and m: "mail W n" and w: "wiring n = wiring (nodes c i)"
    using assms(1-3) mail_wiring [of W n] by (auto simp: delivers_def tidy_def wiring_def)
  show ?thesis
    using assms(1,2,4) m w yields_drop(1,2) [OF y] by (auto simp: tidy_def after_node_def)
qed

lemma after_node_waiting:
  assumes "i \<in> {0..<N}" "delivers W A (nodes c i) n"
  shows "waiting N (after_node i n c) \<subseteq># waiting N c + A"
proof (rule waiting_mono_at [of i])
  have y: "yields W A (nodes c i) n" using assms(2) by (simp add: delivers_def)
  show "request_ids (net (after_node i n c)) + stock (after_node i n c) i \<subseteq># request_ids (net c) + stock c i + A"
    using yields_drop(3) [OF y] by (simp add: after_node_def stock_def ac_simps)
qed (use assms(1) in \<open>auto simp: after_node_def stock_def\<close>)

lemma after_ring_tidy:
  assumes "tidy W c" "i \<in> {0..<w_n W}" "ring_mail W r" "ring_yields W (rings c i) r" "ringing c i"
  shows "tidy W (after_ring i r c)"
proof -
  have "\<forall>m \<in> set (drop (length (r_outgoing (rings c i))) (r_outgoing r)). proper W m"
    using assms(4) by (auto simp: ring_yields_def)
  with assms(1-3,5) show ?thesis by (auto simp: tidy_def after_ring_def)
qed

lemma after_ring_waiting:
  assumes "i \<in> {0..<N}" "ring_yields W (rings c i) r"
  shows "waiting N (after_ring i r c) \<subseteq># waiting N c"
proof -
  have "request_ids (drop (length (r_outgoing (rings c i))) (r_outgoing r)) + request_ids (requestsToForward r) \<subseteq>#
      request_ids (requestsToForward (rings c i))"
    using assms(2) by (auto simp: ring_yields_def)
  then have "request_ids (net (after_ring i r c)) + stock (after_ring i r c) i \<subseteq># request_ids (net c) + stock c i + {#}"
    by (simp add: after_ring_def stock_def ac_simps)
  with waiting_mono_at [of i N "after_ring i r c" c "{#}"] assms(1) show ?thesis
    by (auto simp: after_ring_def stock_def)
qed

section \<open>Every event\<close>

text \<open>A message that may arrive at node \<open>i\<close>, and a timeout of a request that waits there.\<close>

lemma tidy_env: "tidy W c \<Longrightarrow> i \<in> {0..<w_n W} \<Longrightarrow> chance (w_n W) e \<Longrightarrow> env_ok e (nodes c i)"
  by (auto simp: tidy_def env_ok_def perm_ok_def chance_def wiring_def)

lemma tidy_incoming:
  assumes "tidy W c" "i \<in> {0..<w_n W}" "chance (w_n W) e" "arrives W (nodes c i) m"
    and "client_request_type (DemuxKey m) \<Longrightarrow> accepts e (nodes c i) m \<Longrightarrow> w_own W (Id' m) = Some i"
  shows "background (DemuxKey m) \<and> handleRequests_step e (Incoming m) (nodes c i) = Inl Fatal \<or>
    (\<exists>n. handleRequests_step e (Incoming m) (nodes c i) = Inr n \<and> good n \<and>
      delivers W (passes e (nodes c i) m) (nodes c i) n)"
proof -
  have g: "good (nodes c i)" "mail W (nodes c i)" "world_ok W" "dbid (nodes c i) = i"
    using assms(1,2) by (auto simp: tidy_def wiring_def)
  have env: "env_ok e (nodes c i)" by (rule tidy_env [OF assms(1-3)])
  have "msg_ok (nodes c i) m" using arrives_msg_ok [OF assms(4)] g(2) by (simp add: mail_def)
  then have "background (DemuxKey m) \<and> on_incoming e m (nodes c i) = Inl Fatal \<or>
      (\<exists>n. on_incoming e m (nodes c i) = Inr n \<and> good n)"
    using incoming_good [OF g(1) env] by blast
  moreover have "delivers W (passes e (nodes c i) m) (nodes c i) n" if "on_incoming e m (nodes c i) = Inr n" for n
    using incoming_delivers [OF that g(2,3) env assms(4)] assms(5) g(4) by simp
  ultimately show ?thesis by auto
qed

lemma node_step_inv:
  assumes "cluster_inv N sl own c" "i \<in> {0..<N}" "handleRequests_step e ev (nodes c i) = Inr n" "good n"
    and "delivers (world_of N sl own c) {#} (nodes c i) n"
  shows "\<exists>c'. node_step e ev i c = Inr c' \<and> cluster_inv N sl own c'"
proof -
  have "cluster_inv N sl own (after_node i n c)"
  proof (rule inv_step [OF assms(1)])
    show "waiting N (after_node i n c) \<subseteq># waiting N c" using after_node_waiting [OF assms(2,5)] by simp
  qed (use after_node_tidy [OF _ _ assms(5,4)] assms(2) in \<open>simp_all add: after_node_def\<close>)
  with assms(3) show ?thesis by (simp add: node_step_def)
qed

lemma incoming_inv:
  assumes "cluster_inv N sl own c" "i \<in> {0..<N}" "chance N e"
    and "\<not> client_request_type (DemuxKey m)" "\<not> background (DemuxKey m)"
    and "arrives (world_of N sl own c) (nodes c i) m"
  shows "\<exists>c'. node_step e (Incoming m) i c = Inr c' \<and> cluster_inv N sl own c'"
proof -
  let ?W = "world_of N sl own c"
  have "tidy ?W c" using assms(1) by (simp add: cluster_inv_def)
  then obtain n where "handleRequests_step e (Incoming m) (nodes c i) = Inr n" "good n"
    "delivers ?W (passes e (nodes c i) m) (nodes c i) n"
    using tidy_incoming [of ?W c i e m] assms(2-6) by auto
  with node_step_inv [OF assms(1,2)] assms(4) show ?thesis by (simp add: passes_def)
qed

lemma elector_step_inv:
  assumes "cluster_inv N sl own c" "i \<in> {0..<N}" "ringing c i"
    and "ring_takes (world_of N sl own c) m"
  shows "\<exists>c'. elector_step now m i c = Inr c' \<and> cluster_inv N sl own c'"
proof -
  let ?W = "world_of N sl own c"
  have t: "tidy ?W c" using assms(1) by (simp add: cluster_inv_def)
  then have "ring_mail ?W (rings c i)" using assms(2) by (simp add: tidy_def)
  from ring_step_mail [OF this assms(4)] obtain r where
    r: "ring_step now m (rings c i) = Inr r" "ring_mail ?W r" "ring_yields ?W (rings c i) r" by blast
  have "cluster_inv N sl own (after_ring i r c)"
    by (rule inv_step [OF assms(1) _ _ after_ring_waiting [OF assms(2) r(3)]])
      (use after_ring_tidy [OF _ _ r(2,3) assms(3)] assms(2) in \<open>simp_all add: after_ring_def\<close>)
  with r(1) show ?thesis by (simp add: elector_step_def)
qed

text \<open>The message a node takes from the network: a request it accepts leaves the count for good.\<close>

lemma waiting_net:
  "k < length (net c) \<Longrightarrow> waiting N c = waiting N (c\<lparr>net := without k (net c)\<rparr>) + request_ids [net c ! k]"
  using without_split [of k "net c"] by (simp add: waiting_def stock_def)

lemma tidy_net: "tidy W c \<Longrightarrow> tidy W (c\<lparr>net := without k (net c)\<rparr>)"
  using set_without [of k "net c"] by (auto simp: tidy_def)

text \<open>A request that is under way has no owner yet, and may be given one.\<close>

lemma give_owner:
  assumes "cluster_inv N sl own c" "m = net c ! k" "k < length (net c)" "client_request_type (DemuxKey m)"
  shows "own (Id' m) = None" "Id' m \<in> Id' ` set (asked c)"
    "tidy (world_of N sl (own(Id' m \<mapsto> i)) c) (c\<lparr>net := without k (net c)\<rparr>)"
    "proper (world_of N sl (own(Id' m \<mapsto> i)) c) m"
proof -
  have t: "tidy (world_of N sl own c) c" using assms(1) by (simp add: cluster_inv_def)
  have "Id' m \<in># waiting N c" using waiting_net [OF assms(3), of N] assms(2,4) by simp
  with assms(1) show none: "own (Id' m) = None" "Id' m \<in> Id' ` set (asked c)" by (auto simp: cluster_inv_def)
  have gr: "grows (world_of N sl own c) (world_of N sl (own(Id' m \<mapsto> i)) c)"
    using none(1) by (auto simp: grows_def map_le_def)
  show "tidy (world_of N sl (own(Id' m \<mapsto> i)) c) (c\<lparr>net := without k (net c)\<rparr>)"
    by (rule tidy_net, rule tidy_mono [OF t gr]) (use t in \<open>simp add: tidy_def world_ok_def\<close>)
  show "proper (world_of N sl (own(Id' m \<mapsto> i)) c) m"
    by (rule proper_mono [OF gr]) (use t assms(2,3) in \<open>simp add: tidy_def\<close>)
qed

text \<open>The node accepts the request: it becomes its owner.\<close>

lemma receive_accepted:
  assumes "cluster_inv N sl own c" "c1 = c\<lparr>net := without k (net c)\<rparr>" "m = net c ! k" "k < length (net c)"
    and "i = Dest m" "i \<in> {0..<N}" "chance N e" "client_request_type (DemuxKey m)" "accepts e (nodes c i) m"
  shows "\<exists>c'. node_step e (Incoming m) i c1 = Inr c' \<and> cluster_inv N sl (own(Id' m \<mapsto> i)) c'"
proof -
  define own' where "own' = own(Id' m \<mapsto> i)"
  let ?W = "\<lambda>own. (world_of N sl own c)"
  have d: "dom own \<subseteq> Id' ` set (asked c)" and one: "\<And>s. count (waiting N c) s \<le> 1"
    and w: "\<forall>s \<in># waiting N c. own s = None \<and> s \<in> Id' ` set (asked c)"
    using assms(1) by (auto simp: cluster_inv_def)
  note give = give_owner [OF assms(1,3,4,8)]
  have wc: "waiting N c = waiting N c1 + {#Id' m#}" using waiting_net [OF assms(4)] assms(2,3,8) by simp
  note none = give(1,2) and t1 = give(3) [of i, folded own'_def assms(2)]
  then have "dbid (nodes c1 i) = i" using assms(6) by (auto simp: tidy_def wiring_def)
  then have "arrives (?W own') (nodes c1 i) m" using give(4) [of i] assms(5) by (simp add: arrives_def own'_def)
  then obtain n where n: "handleRequests_step e (Incoming m) (nodes c1 i) = Inr n" "good n"
    "delivers (?W own') (passes e (nodes c1 i) m) (nodes c1 i) n"
    using tidy_incoming [OF t1, of i e m] assms(6-8) by (auto simp: own'_def background_def client_request_type_def)
  let ?c = "after_node i n c1"
  have sub: "waiting N ?c \<subseteq># waiting N c1"
    using after_node_waiting [OF assms(6) n(3)] assms(2,9) by (simp add: passes_def)
  have "count (waiting N ?c) s \<le> count (waiting N c1) s" for s using sub by (rule mset_subset_eq_count)
  moreover have "count (waiting N c1) s + (if s = Id' m then 1 else 0) \<le> 1" for s
    using one [of s] by (auto simp: wc split: if_splits)
  ultimately have cnt: "count (waiting N ?c) s + (if s = Id' m then 1 else 0) \<le> 1" for s
    using add_right_mono le_trans by blast
  have "\<forall>s \<in># waiting N ?c. own' s = None \<and> s \<in> Id' ` set (asked c)"
  proof
    fix s assume s: "s \<in># waiting N ?c"
    with cnt [of s] have "s \<noteq> Id' m" by (auto simp: not_in_iff [symmetric] split: if_splits)
    moreover have "s \<in># waiting N c" using mset_subset_eqD [OF sub s] by (simp add: wc)
    ultimately show "own' s = None \<and> s \<in> Id' ` set (asked c)" using w by (simp add: own'_def)
  qed
  moreover have "count (waiting N ?c) s \<le> 1" for s using cnt [of s] by simp
  moreover have "tidy (?W own') ?c" by (rule after_node_tidy [OF t1 _ n(3,2)]) (use assms(6) in simp)
  moreover have "dom own' \<subseteq> Id' ` set (asked c)" using d none(2) by (auto simp: own'_def)
  ultimately have "cluster_inv N sl own' ?c" using assms(2) by (simp add: cluster_inv_def after_node_def)
  then show ?thesis using n(1) by (simp add: node_step_def own'_def)
qed

text \<open>Any other message: what the node passes on is the request that arrived.\<close>

lemma receive_other:
  assumes "cluster_inv N sl own c" "c1 = c\<lparr>net := without k (net c)\<rparr>" "m = net c ! k" "k < length (net c)"
    and "i = Dest m" "i \<in> {0..<N}" "chance N e" "\<not> (client_request_type (DemuxKey m) \<and> accepts e (nodes c i) m)"
  shows "background (DemuxKey m) \<and> node_step e (Incoming m) i c1 = Inl Fatal \<or>
    (\<exists>c'. node_step e (Incoming m) i c1 = Inr c' \<and> cluster_inv N sl own c')"
proof -
  let ?W = "world_of N sl own c"
  have t: "tidy ?W c" using assms(1) by (simp add: cluster_inv_def)
  have t1: "tidy ?W c1" unfolding assms(2) by (rule tidy_net [OF t])
  have "proper ?W m" using t assms(3,4) by (simp add: tidy_def)
  moreover have "dbid (nodes c1 i) = i" using t1 assms(6) by (auto simp: tidy_def wiring_def)
  ultimately have "arrives ?W (nodes c1 i) m" using assms(5) by (simp add: arrives_def)
  then have "background (DemuxKey m) \<and> handleRequests_step e (Incoming m) (nodes c1 i) = Inl Fatal \<or>
      (\<exists>n. handleRequests_step e (Incoming m) (nodes c1 i) = Inr n \<and> good n \<and>
        delivers ?W (passes e (nodes c1 i) m) (nodes c1 i) n)"
    using tidy_incoming [OF t1, of i e m] assms(2,6-8) by auto
  moreover have "cluster_inv N sl own (after_node i n c1)"
    if n: "good n" "delivers ?W (passes e (nodes c1 i) m) (nodes c1 i) n" for n
  proof -
    have "passes e (nodes c1 i) m \<subseteq># request_ids [m]" by (simp add: passes_def)
    then have "waiting N c1 + passes e (nodes c1 i) m \<subseteq># waiting N c"
      using waiting_net [OF assms(4), of N] assms(2,3) by simp
    with after_node_waiting [OF assms(6) n(2)] have "waiting N (after_node i n c1) \<subseteq># waiting N c"
      by (rule subset_mset.order_trans)
    moreover have "tidy ?W (after_node i n c1)" by (rule after_node_tidy [OF t1 _ n(2,1)]) (use assms(6) in simp)
    ultimately show ?thesis
      using assms(2) by (intro inv_step [OF assms(1)]) (simp_all add: after_node_def)
  qed
  ultimately show ?thesis by (auto simp: node_step_def)
qed

text \<open>The events whose step may end the process: a background write arrives.\<close>

definition checks :: "cluster_event \<Rightarrow> cluster \<Rightarrow> bool" where
  "checks ev c \<longleftrightarrow> (\<exists>e k. ev = Receive e k \<and> background (DemuxKey (net c ! k)))"

lemma receive_inv:
  assumes "cluster_inv N sl own c" "enabled N (Receive e k) c"
  shows "checks (Receive e k) c \<and> cluster_step N (Receive e k) c = Inl Fatal \<or>
    (\<exists>c' own'. cluster_step N (Receive e k) c = Inr c' \<and> cluster_inv N sl own' c')"
proof (cases "client_request_type (DemuxKey (net c ! k)) \<and> accepts e (nodes c (Dest (net c ! k))) (net c ! k)")
  case True
  with receive_accepted [OF assms(1) refl refl _ refl, of k e] assms(2) show ?thesis by simp blast
next
  case False
  with receive_other [OF assms(1) refl refl _ refl, of k e] assms(2) show ?thesis by (auto simp: checks_def)
qed

text \<open>A client's request, and the routing of a message.\<close>

lemma ask_inv:
  assumes "cluster_inv N sl own c" "enabled N (Ask m) c"
  shows "\<exists>c'. cluster_step N (Ask m) c = Inr c' \<and> cluster_inv N sl own c'"
proof -
  let ?c = "c\<lparr>asked := asked c @ [m], outboxes := (outboxes c)(Dest m := outboxes c (Dest m) @ [m])\<rparr>"
  let ?W = "world_of N sl own c"
  let ?W' = "world_of N sl own (c\<lparr>asked := asked c @ [m]\<rparr>)"
  have en: "Src m = N" "0 \<le> Dest m" "Dest m < N" "client_request_type (DemuxKey m)" "Id' m \<notin> Id' ` set (asked c)"
    using assms(2) by auto
  have t: "tidy ?W c" and d: "dom own \<subseteq> Id' ` set (asked c)"
    and w: "\<forall>s. count (waiting N c) s \<le> 1" "\<forall>s \<in># waiting N c. own s = None \<and> s \<in> Id' ` set (asked c)"
    using assms(1) by (auto simp: cluster_inv_def)
  have "world_ok ?W'"
    using t en(5) by (auto simp: tidy_def world_ok_def image_iff)
  moreover have "grows ?W ?W'" by (auto simp: grows_def)
  ultimately have t': "tidy ?W' c" using tidy_mono [OF t] by blast
  have "asks ?W' m" using en by (auto simp: asks_def)
  then have "proper ?W' m" using en by (intro asks_proper) (simp_all add: is_node_def)
  then have tc: "tidy ?W' ?c" using t' by (auto simp: tidy_def)
  have N: "Dest m \<in> {0..N}" using en(2,3) by simp
  have "(\<Sum>j \<in> {0..N} - {Dest m}. stock ?c j) = (\<Sum>j \<in> {0..N} - {Dest m}. stock c j)"
    by (rule sum.cong) (auto simp: stock_def)
  then have "waiting N ?c = waiting N c + {#Id' m#}"
    using en(4) by (simp add: waiting_at [OF N]) (simp add: stock_def)
  moreover have "Id' m \<notin># waiting N c" "own (Id' m) = None" using w(2) d en(5) by auto
  ultimately have "cluster_inv N sl own ?c"
    using tc d w by (auto simp: cluster_inv_def not_in_iff)
  then show ?thesis by simp
qed

lemma proper_Dest: "proper W m \<Longrightarrow> 0 < w_n W \<Longrightarrow> 0 \<le> Dest m \<and> Dest m \<le> w_n W"
  by (cases "DemuxKey m") (auto simp: proper_def is_node_def from_coordinator_def to_coordinator_def propagates_def)

lemma route_inv:
  assumes "cluster_inv N sl own c" "enabled N (Route i k) c" "1 \<le> N"
  shows "\<exists>c'. cluster_step N (Route i k) c = Inr c' \<and> cluster_inv N sl own c'"
proof -
  define m where "m = outboxes c i ! k"
  let ?W = "world_of N sl own c"
  let ?c = "c\<lparr>outboxes := (outboxes c)(i := without k (outboxes c i))\<rparr>"
  have k: "i \<in> {0..N}" "k < length (outboxes c i)" using assms(2) by auto
  have t: "tidy ?W c" using assms(1) by (simp add: cluster_inv_def)
  have m: "proper ?W m" using t nth_mem [OF k(2)] by (simp add: tidy_def m_def)
  have "0 \<le> Dest m \<and> Dest m \<le> N" using proper_Dest [OF m] assms(3) by simp
  then have "\<exists>r. startHelper (N + 1) (parts c) m = Inr r" by (simp add: startHelper_def)
  then obtain r where r: "startHelper (N + 1) (parts c) m = Inr r" by blast
  have s: "request_ids (outboxes c i) = request_ids (without k (outboxes c i)) + request_ids [m]"
    using without_split [OF k(2)] by (simp add: m_def)
  have "cluster_inv N sl own c'" if "c' = ?c \<or> c' = ?c\<lparr>net := net c @ [m]\<rparr>" for c'
  proof (rule inv_step [OF assms(1)])
    have f: "outboxes c' = (outboxes c)(i := without k (outboxes c i))" "el_calls c' = el_calls c" "rings c' = rings c"
      "nodes c' = nodes c" "ringing c' = ringing c" "parts c' = parts c" "net c' = net c \<or> net c' = net c @ [m]"
      using that by auto
    have "request_ids (net c') + stock c' i \<subseteq># request_ids (net c) + stock c i + {#}"
      using f(7) by (elim disjE) (simp_all add: stock_def f(1-3) s)
    then show "waiting N c' \<subseteq># waiting N c"
      using waiting_mono_at [OF k(1), of c' c "{#}"] by (simp add: stock_def f(1-3))
    have "\<forall>x \<in> set (net c'). proper ?W x" using f(7) t m by (auto simp: tidy_def)
    then show "tidy ?W c'" using t set_without [of k "outboxes c i"] by (auto simp: tidy_def f(1-6))
    show "asked c' = asked c" using that by auto
  qed
  then have "cluster_inv N sl own (case r of Delivered d \<Rightarrow> ?c\<lparr>net := net c @ [m]\<rparr> | _ \<Rightarrow> ?c)"
    by (cases r) simp_all
  then show ?thesis using r unfolding m_def by (simp add: Let_def)
qed

text \<open>The repeater, the elector and the network.\<close>

lemma resend_delivers:
  assumes "mail W n" "k < length (tasks (requestRepeater n))"
  shows "delivers W {#} n (resend k n)"
proof -
  let ?r = "requestRepeater n"
  obtain out nx where s: "send_iter ?r (tasks ?r ! k) = (out, nx)" by fastforce
  have t: "plain W (t_msg (tasks ?r ! k))" using assms by (simp add: mail_def sent_def)
  have "\<forall>x \<in> set out. plain W x" using send_iter_out [of ?r "tasks ?r ! k"] s t by auto
  then have o: "request_ids out = {#}" "\<forall>x \<in> set out. proper W x"
    by (rule request_ids_plain, simp add: plain_def)
  let ?ts = "case nx of None \<Rightarrow> without k (tasks ?r) | Some t' \<Rightarrow> (tasks ?r)[k := t']"
  have "plain W (t_msg x)" if "x \<in> set ?ts" for x
  proof (cases nx)
    case None
    then show ?thesis using that assms(1) set_without [of k "tasks ?r"] by (auto simp: mail_def sent_def)
  next
    case (Some t')
    then have "t_msg t' = t_msg (tasks ?r ! k)" using send_iter_next s by blast
    with Some that t assms(1) set_update_subset_insert [of "tasks ?r" k t'] show ?thesis
      by (auto simp: mail_def sent_def)
  qed
  moreover have "resend k n = n\<lparr>Outgoing := Outgoing n @ out, requestRepeater := ?r\<lparr>tasks := ?ts\<rparr>\<rparr>"
    by (simp add: resend_def s Let_def)
  ultimately show ?thesis
    using assms(1) o
    by (simp add: delivers_def yields_def) (simp add: mail_def site_def kept_def sent_def daemon_ok_def)
qed

lemma resend_good:
  assumes "good n"
  shows "good (resend k n)"
proof -
  obtain out nx where s: "send_iter (requestRepeater n) (tasks (requestRepeater n) ! k) = (out, nx)" by fastforce
  show ?thesis
    using assms base_repeater [of _ n] base_knows [of n]
    by (simp add: resend_def s Let_def good_def queue_ok_def frame knows_nodes_def)
qed

lemma stream_delivers:
  assumes "mail W n" "valid_order ord"
  shows "delivers W {#} n (stream_round ord n)"
proof (cases "backgroundWriteDaemon n")
  case None
  with assms(1) show ?thesis by (auto simp: stream_round_def intro: same_delivers)
next
  case (Some p)
  obtain out p' where s: "streamWrites ord p = (out, p')" by fastforce
  have p: "w_sloppy W" "p_id p = dbid n" "p_n p = numPeers n + 1"
    "\<forall>t \<in> txns p. known_key W (t_key t) \<and> written W (raw (t_key t)) (t_value t)" "site W n"
    using assms(1) Some by (auto simp: mail_def daemon_ok_def streams_ok_def)
  have out: "plain W m" if "m \<in> set out" for m
  proof -
    have "m \<in> set (fst (streamWrites ord p))" using that s by simp
    then obtain i t where t: "(i, t) \<in> set (transactions p)" "m \<in> set (write_requests p i t)"
      using streamWrites_sends [OF assms(2)] by blast
    then have "t \<in> txns p" by (force simp: txns_def)
    then have "known_key W (t_key t)" "written W (raw (t_key t)) (t_value t)" using p(4) by blast+
    with t(2) p show ?thesis
      by (auto simp: write_requests_dest plain_def proper_def propagates_def client_request_type_def
          site_def is_node_def)
  qed
  have "p_id p' = p_id p" "p_n p' = p_n p" "txns p' \<subseteq> txns p"
    using s by (auto simp: streamWrites_def txns_def)
  with p have "streams_ok W (dbid n) (numPeers n) (Some p')" by (auto simp: streams_ok_def)
  moreover have "stream_round ord n = n\<lparr>Outgoing := Outgoing n @ out, backgroundWriteDaemon := Some p'\<rparr>"
    using Some s by (simp add: stream_round_def)
  moreover have "request_ids out = {#}" "\<forall>m \<in> set out. proper W m"
    using out by (auto simp: plain_def intro: request_ids_plain [of _ W])
  ultimately show ?thesis
    using assms(1) by (simp add: delivers_def yields_def) (simp add: mail_def site_def kept_def sent_def daemon_ok_def)
qed

lemma stream_good:
  assumes "good n"
  shows "good (stream_round ord n)"
  using assms by (auto simp: stream_round_def good_def queue_ok_def frame split: option.splits prod.splits)

lemma resend_inv:
  assumes "cluster_inv N sl own c" "enabled N (Resend i k) c"
  shows "\<exists>c'. cluster_step N (Resend i k) c = Inr c' \<and> cluster_inv N sl own c'"
proof -
  let ?W = "world_of N sl own c"
  have i: "i \<in> {0..<N}" "k < length (tasks (requestRepeater (nodes c i)))" using assms(2) by auto
  have "tidy ?W c" using assms(1) by (simp add: cluster_inv_def)
  then have n: "good (nodes c i)" "mail ?W (nodes c i)" using i(1) by (simp_all add: tidy_def)
  note d = resend_delivers [OF n(2) i(2)]
  have "cluster_inv N sl own (after_node i (resend k (nodes c i)) c)"
    by (rule inv_step [OF assms(1)])
      (use after_node_waiting [OF i(1) d] after_node_tidy [OF _ _ d resend_good [OF n(1)]] i(1)
        in \<open>simp_all add: after_node_def\<close>)
  then show ?thesis by simp
qed

lemma stream_inv:
  assumes "cluster_inv N sl own c" "enabled N (Stream i ord) c"
  shows "\<exists>c'. cluster_step N (Stream i ord) c = Inr c' \<and> cluster_inv N sl own c'"
proof -
  let ?W = "world_of N sl own c"
  have i: "i \<in> {0..<N}" "valid_order ord" using assms(2) by auto
  have "tidy ?W c" using assms(1) by (simp add: cluster_inv_def)
  then have n: "good (nodes c i)" "mail ?W (nodes c i)" using i(1) by (simp_all add: tidy_def)
  note d = stream_delivers [OF n(2) i(2)]
  have "cluster_inv N sl own (after_node i (stream_round ord (nodes c i)) c)"
    by (rule inv_step [OF assms(1)])
      (use after_node_waiting [OF i(1) d] after_node_tidy [OF _ _ d stream_good [OF n(1)]] i(1)
        in \<open>simp_all add: after_node_def\<close>)
  then show ?thesis by simp
qed

lemma ring_start_inv:
  assumes "cluster_inv N sl own c" "enabled N (Ring_start i now) c"
  shows "\<exists>c'. cluster_step N (Ring_start i now) c = Inr c' \<and> cluster_inv N sl own c'"
proof -
  let ?W = "world_of N sl own c"
  have i: "i \<in> {0..<N}" "\<not> ringing c i" using assms(2) by auto
  have t: "tidy ?W c" using assms(1) by (simp add: cluster_inv_def)
  then have "rings c i = newRing i N" "N \<le> 1000" using i by (simp_all add: tidy_def)
  then obtain r where r: "ring_start now (rings c i) = Inr r" "ring_mail ?W r" "ring_yields ?W (rings c i) r"
    using ring_start_mail(2) [of i ?W now] i(1) by auto
  let ?c = "(after_ring i r c)\<lparr>ringing := (ringing c)(i := True)\<rparr>"
  have "\<forall>m \<in> set (drop (length (r_outgoing (rings c i))) (r_outgoing r)). proper ?W m"
    using r(3) by (auto simp: ring_yields_def)
  then have "tidy ?W ?c" using t r(2) by (auto simp: tidy_def after_ring_def)
  moreover have "waiting N ?c \<subseteq># waiting N c"
    using after_ring_waiting [OF i(1) r(3)] by (simp add: waiting_def stock_def)
  ultimately have "cluster_inv N sl own ?c" by (intro inv_step [OF assms(1)]) (simp_all add: after_ring_def)
  with r(1) show ?thesis by simp
qed

lemma call_inv:
  assumes "cluster_inv N sl own c" "enabled N (Call i now k) c"
  shows "\<exists>c'. cluster_step N (Call i now k) c = Inr c' \<and> cluster_inv N sl own c'"
proof -
  let ?W = "world_of N sl own c"
  let ?c = "c\<lparr>el_calls := (el_calls c)(i := without k (el_calls c i))\<rparr>"
  have i: "i \<in> {0..<N}" "ringing c i" "k < length (el_calls c i)" using assms(2) by auto
  have t: "tidy ?W c" using assms(1) by (simp add: cluster_inv_def)
  then have ok: "call_ok ?W (el_calls c i ! k)" using nth_mem [OF i(3)] by (simp add: tidy_def)
  have t1: "tidy ?W ?c" using t set_without [of k "el_calls c i"] by (auto simp: tidy_def)
  have s: "request_ids (forwarded (el_calls c i)) =
      request_ids (forwarded (without k (el_calls c i))) + request_ids (forwarded [el_calls c i ! k])"
    by (rule forwarded_without [OF i(3)])
  have at: "i \<in> {0..N}" using i(1) by simp
  show ?thesis
  proof (cases "el_calls c i ! k")
    case (ProcessMsg m)
    have "waiting N ?c \<subseteq># waiting N c"
      using waiting_mono_at [OF at, of ?c c "{#}"] s by (simp add: stock_def)
    then have "cluster_inv N sl own ?c" using t1 by (intro inv_step [OF assms(1)]) simp_all
    moreover have "ring_takes ?W m" using ok ProcessMsg by (simp add: ring_takes_def)
    ultimately show ?thesis
      using elector_step_inv [of N sl own ?c i m now] i(1,2) ProcessMsg by (simp add: Let_def)
  next
    case (ForwardToLeader m)
    let ?c2 = "?c\<lparr>rings := (rings c)(i := ring_ForwardToLeader m (rings c i))\<rparr>"
    have "asks ?W m" using ok ForwardToLeader by simp
    then have "tidy ?W ?c2" using t1 i(2) ring_forward_mail by (simp add: tidy_def)
    moreover have "waiting N ?c2 \<subseteq># waiting N c"
      using waiting_mono_at [OF at, of ?c2 c "{#}"] s ForwardToLeader
      by (simp add: stock_def ring_ForwardToLeader_def ac_simps)
    ultimately have "cluster_inv N sl own ?c2" by (intro inv_step [OF assms(1)]) simp_all
    with ForwardToLeader show ?thesis by (simp add: Let_def)
  qed
qed

lemma control_event_inv:
  assumes "cluster_inv N sl own c" "enabled N (Control i e k) c"
  shows "\<exists>c'. cluster_step N (Control i e k) c = Inr c' \<and> cluster_inv N sl own c'"
  using incoming_inv [OF assms(1), of i e "zeroMessage\<lparr>DemuxKey := k\<rparr>"] assms(2)
  by (auto simp: arrives_def client_request_type_def background_def)

lemma timer_event_inv:
  assumes "cluster_inv N sl own c" "enabled N (Timer i e k) c"
  shows "\<exists>c'. cluster_step N (Timer i e k) c = Inr c' \<and> cluster_inv N sl own c'"
  using incoming_inv [OF assms(1), of i e "timer_signal (nodes c i) (internalTimer (nodes c i) ! k)"] assms(2)
  by (auto simp: arrives_def timer_signal_def client_request_type_def background_def)

lemma lock_timer_event_inv:
  assumes "cluster_inv N sl own c" "enabled N (Lock_timer i e k) c"
  shows "\<exists>c'. cluster_step N (Lock_timer i e k) c = Inr c' \<and> cluster_inv N sl own c'"
proof -
  let ?W = "world_of N sl own c" and ?n = "nodes c i" and ?p = "lockTimers (nodes c i) ! k"
  have i: "i \<in> {0..<N}" "chance N e" "k < length (lockTimers ?n)" using assms(2) by auto
  have t: "tidy ?W c" using assms(1) by (simp add: cluster_inv_def)
  then have g: "good ?n" "mail ?W ?n" "world_ok ?W" using i(1) by (simp_all add: tidy_def)
  have env: "env_ok e ?n" using tidy_env [OF t] i(1,2) by simp
  have p: "?p \<in> set (lockTimers ?n)" using i(3) by simp
  then have "?p < length (cells ?n)" using g(2) by (auto simp: mail_def kept_def)
  then obtain n where n: "on_lock_timeout e ?p ?n = Inr n" "good n"
    using lock_timeout_good [OF g(1) env] by blast
  with lock_timeout_delivers [OF n(1) g(2,3) env p] node_step_inv [OF assms(1) i(1), of e "TimedOutLockRequest ?p" n]
  show ?thesis by simp
qed

lemma query_event_inv:
  assumes "cluster_inv N sl own c" "enabled N (Query i e) c"
  shows "\<exists>c'. cluster_step N (Query i e) c = Inr c' \<and> cluster_inv N sl own c'"
proof -
  let ?W = "world_of N sl own c" and ?n = "nodes c i"
  have i: "i \<in> {0..<N}" using assms(2) by auto
  have "tidy ?W c" using assms(1) by (simp add: cluster_inv_def)
  then have g: "good ?n" "mail ?W ?n" using i(1) by (simp_all add: tidy_def)
  have "good (?n\<lparr>stateQueryRes := qs\<rparr>)" for qs using g(1) by (simp add: good_def frame queue_ok_def)
  with node_step_inv [OF assms(1) i, of e StateQueryReq] state_query_delivers [OF g(2)] show ?thesis by simp
qed

lemma partition_event_inv:
  assumes "cluster_inv N sl own c"
  shows "enabled N (Partition ls) c \<Longrightarrow> \<exists>c'. cluster_step N (Partition ls) c = Inr c' \<and> cluster_inv N sl own c'"
    "\<exists>c'. cluster_step N (Heal ls) c = Inr c' \<and> cluster_inv N sl own c'"
proof -
  let ?W = "world_of N sl own c"
  have t: "tidy ?W c" using assms by (simp add: cluster_inv_def)
  have p: "cluster_inv N sl own (c\<lparr>parts := p\<rparr>)" if "dom p = dom (parts c)" for p
  proof (rule inv_step [OF assms])
    show "tidy ?W (c\<lparr>parts := p\<rparr>)" using t that by (simp add: tidy_def)
    show "waiting N (c\<lparr>parts := p\<rparr>) \<subseteq># waiting N c" by (simp add: waiting_def stock_def)
  qed simp
  show "\<exists>c'. cluster_step N (Partition ls) c = Inr c' \<and> cluster_inv N sl own c'" if "enabled N (Partition ls) c"
  proof -
    have "fst ` set ls \<subseteq> dom (parts c)" using that t by (simp add: tidy_def)
    from createPartition_down [OF this] p show ?thesis by auto
  qed
  show "\<exists>c'. cluster_step N (Heal ls) c = Inr c' \<and> cluster_inv N sl own c'"
    using p removePartition_down by simp
qed

lemma lose_inv:
  assumes "cluster_inv N sl own c" "enabled N (Lose k) c"
  shows "\<exists>c'. cluster_step N (Lose k) c = Inr c' \<and> cluster_inv N sl own c'"
  using inv_step [OF assms(1), of "c\<lparr>net := without k (net c)\<rparr>"] waiting_net [of k c N] assms(2) tidy_net by simp

lemma elector_event_inv:
  assumes "cluster_inv N sl own c"
  shows "enabled N (Ring_timer i now k) c \<Longrightarrow> \<exists>c'. cluster_step N (Ring_timer i now k) c = Inr c' \<and> cluster_inv N sl own c'"
    "enabled N (Ring_query i now) c \<Longrightarrow> \<exists>c'. cluster_step N (Ring_query i now) c = Inr c' \<and> cluster_inv N sl own c'"
  using elector_step_inv [OF assms, of i] by (auto simp: ring_takes_def)

lemma cluster_step_inv:
  assumes "cluster_inv N sl own c" "enabled N ev c" "1 \<le> N"
  shows "checks ev c \<and> cluster_step N ev c = Inl Fatal \<or>
    (\<exists>c' own'. cluster_step N ev c = Inr c' \<and> cluster_inv N sl own' c')"
  using assms(1,2)
  by (cases ev)
    (metis ask_inv, metis route_inv [OF _ _ assms(3)], metis lose_inv, metis receive_inv, metis control_event_inv,
      metis timer_event_inv, metis lock_timer_event_inv, metis query_event_inv, metis resend_inv, metis stream_inv,
      metis ring_start_inv, metis call_inv, metis elector_event_inv(1), metis elector_event_inv(2),
      metis partition_event_inv(1), metis partition_event_inv(2))

lemma cluster_reach_inv:
  assumes "cluster_reach N c0 c" "\<exists>own. cluster_inv N sl own c0" "1 \<le> N"
  shows "\<exists>own. cluster_inv N sl own c"
  using assms
proof (induction rule: cluster_reach.induct)
  case (reach_step c ev c')
  then obtain own where "cluster_inv N sl own c" by blast
  from cluster_step_inv [OF this reach_step.hyps(2)] reach_step show ?case by auto
qed simp

text \<open>Background writes are under way only in a cluster with sloppy quorums.\<close>

lemma checks_sloppy:
  assumes "cluster_inv N sl own c" "enabled N ev c" "checks ev c"
  shows sl
proof -
  obtain e k where ev: "ev = Receive e k" "background (DemuxKey (net c ! k))" using assms(3) by (auto simp: checks_def)
  then have "net c ! k \<in> set (net c)" using assms(2) by simp
  then have "proper (world_of N sl own c) (net c ! k)" using assms(1) by (simp add: cluster_inv_def tidy_def)
  with ev(2) show sl by (auto simp: background_def proper_def propagates_def)
qed

end
