(* ===== verification/Props_Cluster.thy ===== *)
theory Props_Cluster
  imports Cluster_Safety Props_Service
begin

text \<open>Properties of the whole system: nodes, repeaters, electors, links and partitions together.\<close>

lemma reach_inv:
  assumes "1 \<le> N" "N \<le> 1000" "1 \<le> rqs" "rqs \<le> N" "1 \<le> wqs" "wqs \<le> N"
    and "cluster_reach N (cluster_init h N rqs wqs sloppy) c"
  obtains own where "cluster_inv N sloppy own c"
  using cluster_reach_inv [OF assms(7)] cluster_inv_init [OF assms(1-6)] assms(1) by blast

lemma cluster_step_safe:
  assumes "1 \<le> N" "N \<le> 1000" "1 \<le> rqs" "rqs \<le> N" "1 \<le> wqs" "wqs \<le> N"
    and "cluster_reach N (cluster_init h N rqs wqs sloppy) c" "enabled N ev c"
  shows "((\<exists>c'. cluster_step N ev c = Inr c') \<or>
      sloppy \<and> checks ev c \<and> cluster_step N ev c = Inl Fatal) \<and> (\<forall>m \<in> set (net c). 0 \<le> Dest m \<and> Dest m \<le> N) \<and>
    (\<forall>i \<in> {0..<N}. -1 \<le> leader (rings c i) \<and> leader (rings c i) < N)"
proof -
  obtain own where inv: "cluster_inv N sloppy own c" by (rule reach_inv [OF assms(1-7)])
  let ?W = "world_of N sloppy own c"
  have t: "tidy ?W c" using inv by (simp add: cluster_inv_def)
  then have "\<forall>m \<in> set (net c). 0 \<le> Dest m \<and> Dest m \<le> N"
    using proper_Dest [of ?W] assms(1) by (simp add: tidy_def)
  moreover have "\<forall>i \<in> {0..<N}. -1 \<le> leader (rings c i) \<and> leader (rings c i) < N"
    using t ring_inv_leader_range by (fastforce simp: tidy_def ring_mail_def)
  ultimately show ?thesis
    using cluster_step_inv [OF inv assms(8,1)] checks_sloppy [OF inv assms(8)] by blast
qed

lemma answers_genuine:
  assumes "1 \<le> N" "N \<le> 1000" "1 \<le> rqs" "rqs \<le> N" "1 \<le> wqs" "wqs \<le> N"
    and "cluster_reach N (cluster_init h N rqs wqs sloppy) c" "m \<in> set (net c)" "Ok m"
  shows "(DemuxKey m = ClientReadResponse \<longrightarrow>
      (\<exists>q \<in> set (asked c). DemuxKey q = ClientReadRequest \<and> Id' q = Id' m \<and> Key q = Key m) \<and>
      (raw (Value m) = [] \<or>
       (\<exists>q \<in> set (asked c). DemuxKey q \<in> {ClientWriteRequest, ClientStrongWriteRequest} \<and>
          raw (Key q) = raw (Key m) \<and> raw (Value q) = raw (Value m)))) \<and>
    (DemuxKey m = ClientWriteResponse \<longrightarrow>
      (\<exists>q \<in> set (asked c). DemuxKey q \<in> {ClientWriteRequest, ClientStrongWriteRequest} \<and>
         Id' q = Id' m \<and> Key q = Key m \<and> Value q = Value m))"
proof -
  obtain own where "cluster_inv N sloppy own c" by (rule reach_inv [OF assms(1-7)])
  then have "proper (world_of N sloppy own c) m"
    using assms(8) by (simp add: cluster_inv_def tidy_def)
  with assms(9) show ?thesis by (auto simp: proper_def answers_read_def answers_write_def written_def)
qed

text \<open>C2: answers are genuine. In every reachable state of a cluster, over any interleaving of its
  goroutines, with failures, recoveries, partitions, background writes, resent, delayed and lost
  messages: a successful answer to a read that is under way answers a read some client made of
  that key under that id, and its value is empty or the value of a write that a client made to
  that key; a successful answer to a write answers a write some client made of that value to
  that key under that id.\<close>

theorem cluster_reads_were_written:
  assumes "1 \<le> N" "N \<le> 1000" "1 \<le> rqs" "rqs \<le> N" "1 \<le> wqs" "wqs \<le> N"
    and "cluster_reach N (cluster_init h N rqs wqs sloppy) c" "m \<in> set (net c)" "Ok m"
  shows "(DemuxKey m = ClientReadResponse \<longrightarrow>
      (\<exists>q \<in> set (asked c). DemuxKey q = ClientReadRequest \<and> Id' q = Id' m \<and> Key q = Key m) \<and>
      (raw (Value m) = [] \<or>
       (\<exists>q \<in> set (asked c). DemuxKey q \<in> {ClientWriteRequest, ClientStrongWriteRequest} \<and>
          raw (Key q) = raw (Key m) \<and> raw (Value q) = raw (Value m)))) \<and>
    (DemuxKey m = ClientWriteResponse \<longrightarrow>
      (\<exists>q \<in> set (asked c). DemuxKey q \<in> {ClientWriteRequest, ClientStrongWriteRequest} \<and>
         Id' q = Id' m \<and> Key q = Key m \<and> Value q = Value m))"
  by (rule answers_genuine [OF assms])

text \<open>C6: no step of a cluster crashes, with one exception. In every reachable state every
  message under way is addressed to a node or the client, every elector's leader is none or a
  node, and every enabled event, of a node, a repeater, a propagater, an elector, a link or the
  partitions, succeeds; only with sloppy quorums, and only where a background write or its answer
  arrives, a consistency check may stop the process.\<close>

theorem cluster_never_crashes:
  assumes "1 \<le> N" "N \<le> 1000" "1 \<le> rqs" "rqs \<le> N" "1 \<le> wqs" "wqs \<le> N"
    and "cluster_reach N (cluster_init h N rqs wqs sloppy) c" "enabled N ev c"
  shows "((\<exists>c'. cluster_step N ev c = Inr c') \<or>
      sloppy \<and> checks ev c \<and> cluster_step N ev c = Inl Fatal) \<and> (\<forall>m \<in> set (net c). 0 \<le> Dest m \<and> Dest m \<le> N) \<and>
    (\<forall>i \<in> {0..<N}. -1 \<le> leader (rings c i) \<and> leader (rings c i) < N)"
  by (rule cluster_step_safe [OF assms])

text \<open>C5: a request has one coordinator. In no reachable state do two nodes coordinate the same
  transaction, and a node that is locked for a transaction another node coordinates was locked
  by that node.\<close>

theorem one_coordinator:
  assumes "1 \<le> N" "N \<le> 1000" "1 \<le> rqs" "rqs \<le> N" "1 \<le> wqs" "wqs \<le> N"
    and "cluster_reach N (cluster_init h N rqs wqs sloppy) c" "i \<in> {0..<N}" "j \<in> {0..<N}"
    and "coordinating (currentMode (nodes c i))" "currentTxid (nodes c j) = currentTxid (nodes c i)"
  shows "(coordinating (currentMode (nodes c j)) \<longrightarrow> j = i) \<and>
    (currentMode (nodes c j) \<in> {processingRead, processingWrite} \<longrightarrow> j \<noteq> i \<and> Src (clientRequest (nodes c j)) = i)"
proof -
  obtain own where inv: "cluster_inv N sloppy own c" by (rule reach_inv [OF assms(1-7)])
  let ?W = "world_of N sloppy own c"
  have "tidy ?W c" using inv by (simp add: cluster_inv_def)
  then have t: "txn ?W (nodes c k)" "dbid (nodes c k) = k" if "k \<in> {0..<N}" for k
    using that by (simp_all add: tidy_def mail_def wiring_def)
  have own: "own (currentTxid (nodes c k)) = Some k" if "k \<in> {0..<N}" "coordinating (currentMode (nodes c k))" for k
  proof -
    have "owner ?W (nodes c k)" using t(1) [OF that(1)] that(2) by (simp add: txn_def)
    then show ?thesis using t(2) [OF that(1)] by (simp add: owner_def)
  qed
  note i = own [OF assms(8,10)]
  have "j = i" if "coordinating (currentMode (nodes c j))"
    using own [OF assms(9) that] i assms(11) by (metis option.inject)
  moreover have "j \<noteq> i \<and> Src (clientRequest (nodes c j)) = i"
    if "currentMode (nodes c j) \<in> {processingRead, processingWrite}"
  proof -
    have "participant ?W (nodes c j)" using t(1) [OF assms(9)] that unfolding txn_def by blast
    then have "own (currentTxid (nodes c j)) = Some (Src (clientRequest (nodes c j)))"
      by (simp add: participant_def from_coordinator_def)
    moreover have "\<not> coordinating (currentMode (nodes c j))" using that by (auto simp: coordinating_def)
    ultimately show ?thesis using i assms(10,11) by (metis option.inject)
  qed
  ultimately show ?thesis by blast
qed

section \<open>A read and a write in a cluster of three\<close>

definition demo_env :: "int \<Rightarrow> env" where
  "demo_env l = plain_env\<lparr>leaderAnswer := l\<rparr>"

definition demo_request :: "Messagetype \<Rightarrow> Message" where
  "demo_request k = zeroMessage\<lparr>Id' := 1, Src := 3, Dest := 0, DemuxKey := k, Key := Some [7], Ok := True\<rparr>"

definition demo_read :: "cluster_event list" where
  "demo_read = [Ask (demo_request ClientReadRequest), Route 0 0, Receive (demo_env (-1)) 0, Resend 0 0, Route 0 0,
     Receive (demo_env (-1)) 0, Route 1 0, Receive (demo_env (-1)) 0, Route 0 0]"

definition demo_write :: "cluster_event list" where
  "demo_write = [Ring_start 0 100, Ring_start 1 100, Ring_start 2 100, Route 2 0, Receive (demo_env (-1)) 0, Call 0 200 0,
     Ask (demo_request ClientWriteRequest), Route 0 2, Receive (demo_env 2) 0, Call 0 300 0, Ring_query 0 400,
     Route 0 1, Receive (demo_env (-1)) 0, Call 1 500 0, Route 1 1, Receive (demo_env (-1)) 0, Call 2 600000000 0,
     Route 0 1, Receive (demo_env 2) 0, Resend 2 0, Route 2 2, Receive (demo_env 2) 0]"

text \<open>Node 0 asks node 1 and answers the client.\<close>

lemma demo_read_result:
  "map_option (\<lambda>c. map (\<lambda>m. (DemuxKey m, Dest m, Ok m)) (net c)) (cluster_run 3 demo_read (cluster_init (\<lambda>_. []) 3 2 2 False)) =
    Some [(ClientReadResponse, 3, True)]"
  by code_simp

text \<open>
  The token goes round, node 0 forwards a write to the leader 2, and node 2 locks node 1 for it.
\<close>

lemma demo_write_result:
  "map_option (\<lambda>c. (currentMode (nodes c 2), currentMode (nodes c 1), currentTxid (nodes c 1) = currentTxid (nodes c 2)))
     (cluster_run 3 demo_write (cluster_init (\<lambda>_. []) 3 2 2 False)) = Some (assemblingQuorum, processingWrite, True)"
  by code_simp

lemma demo_chance: "chance 3 (demo_env l)"
  by (auto simp: chance_def demo_env_def plain_env_def)

lemma demo_reach:
  assumes "cluster_run 3 evs (cluster_init (\<lambda>_. []) 3 2 2 False) = Some c" "set evs \<subseteq> set demo_read \<union> set demo_write"
  shows "cluster_reach 3 (cluster_init (\<lambda>_. []) 3 2 2 False) c"
proof (rule cluster_run_reach [OF assms(1) _ reach_init])
  show "\<forall>ev \<in> set evs. random_ok 3 ev"
    using assms(2) demo_chance by (fastforce simp: demo_read_def demo_write_def random_ok_def)
qed

theorem cluster_reads_were_written_ex:
  "\<exists>c. cluster_run 3 demo_read (cluster_init (\<lambda>_. []) 3 2 2 False) = Some c \<and> (\<exists>m \<in> set (net c). raw (Value m) = [] \<or>
     (\<exists>q \<in> set (asked c). raw (Value q) = raw (Value m)))"
proof -
  obtain c where c: "cluster_run 3 demo_read (cluster_init (\<lambda>_. []) 3 2 2 False) = Some c"
    "map (\<lambda>m. (DemuxKey m, Dest m, Ok m)) (net c) = [(ClientReadResponse, 3, True)]"
    using demo_read_result by auto
  then obtain m where m: "m \<in> set (net c)" "DemuxKey m = ClientReadResponse" "Ok m" by auto
  have "cluster_reach 3 (cluster_init (\<lambda>_. []) 3 2 2 False) c" by (rule demo_reach [OF c(1)]) simp
  from cluster_reads_were_written [OF _ _ _ _ _ _ this m(1,3)] c(1) m(1,2) show ?thesis by auto
qed

theorem cluster_never_crashes_ex:
  "\<exists>c c'. cluster_run 3 demo_write (cluster_init (\<lambda>_. []) 3 2 2 False) = Some c \<and>
     cluster_step 3 (Query 1 (demo_env 2)) c = Inr c' \<and> leader (rings c 0) < 3"
proof -
  obtain c where c: "cluster_run 3 demo_write (cluster_init (\<lambda>_. []) 3 2 2 False) = Some c"
    using demo_write_result by auto
  have r: "cluster_reach 3 (cluster_init (\<lambda>_. []) 3 2 2 False) c" by (rule demo_reach [OF c]) simp
  have "enabled 3 (Query 1 (demo_env 2)) c" using demo_chance by simp
  from cluster_never_crashes [OF _ _ _ _ _ _ r this] c show ?thesis by fastforce
qed

theorem one_coordinator_ex:
  "\<exists>c. cluster_run 3 demo_write (cluster_init (\<lambda>_. []) 3 2 2 False) = Some c \<and>
     currentMode (nodes c 1) = processingWrite \<and> Src (clientRequest (nodes c 1)) = 2"
proof -
  obtain c where c: "cluster_run 3 demo_write (cluster_init (\<lambda>_. []) 3 2 2 False) = Some c"
    "currentMode (nodes c 2) = assemblingQuorum" "currentMode (nodes c 1) = processingWrite"
    "currentTxid (nodes c 1) = currentTxid (nodes c 2)"
    using demo_write_result by auto
  have r: "cluster_reach 3 (cluster_init (\<lambda>_. []) 3 2 2 False) c" by (rule demo_reach [OF c(1)]) simp
  have "coordinating (currentMode (nodes c 2))" using c(2) by (simp add: coordinating_def)
  from one_coordinator [OF _ _ _ _ _ _ r _ _ this c(4)] c show ?thesis by simp
qed

end
