(* ===== verification/Log_Lines.thy ===== *)
theory Log_Lines
  imports Client Strconv
begin

text \<open>
  The log line of a request: \<open>logger.log\<close>, \<open>writeRequest\<close> and \<open>readRequest\<close> of
  \<open>src/net/manager.go\<close>, and the reader of these lines in \<open>src/scripts/parse-output.py\<close>.
\<close>

section \<open>Log lines\<close>

definition ascii :: "string \<Rightarrow> byte list" where
  "ascii s = map of_char s"

fun join :: "byte \<Rightarrow> byte list list \<Rightarrow> byte list" where
  "join c [] = []"
| "join c [x] = x"
| "join c (x # y # ys) = x @ c # join c (y # ys)"

text \<open>The operands of \<open>fmt.Sprint\<close>, and how the verb \<open>%v\<close> prints each.\<close>

datatype operand = Text "byte list" | Slice bytes | Unsigned "64 word" | Truth bool | Outcome PutResponse

fun print_operand :: "operand \<Rightarrow> byte list" where
  "print_operand (Text s) = s"
| "print_operand (Slice b) = 91 # join 32 (map (\<lambda>x. nat_digits (unat x)) (raw b)) @ [93]"
| "print_operand (Unsigned x) = nat_digits (unat x)"
| "print_operand (Truth b) = ascii (if b then ''true'' else ''false'')"
| "print_operand (Outcome r) = ascii (PutResponse_String r)"

fun is_text :: "operand \<Rightarrow> bool" where
  "is_text (Text s) = True"
| "is_text _ = False"

text \<open>\<open>fmt.Sprint\<close> puts a space between two operands when neither is a string.\<close>

fun Sprint :: "operand list \<Rightarrow> byte list" where
  "Sprint [] = []"
| "Sprint [a] = print_operand a"
| "Sprint (a # b # r) = print_operand a @ (if is_text a \<or> is_text b then [] else [32]) @ Sprint (b # r)"

text \<open>Times are in nanoseconds since the start of the simulation, which do not decrease.\<close>

definition logger_log :: "nat \<Rightarrow> nat \<Rightarrow> byte list \<Rightarrow> byte list" where
  "logger_log startTime now msg =
     nat_digits (startTime div 1000) @ 32 # nat_digits (now div 1000) @ 32 # msg @ [10]"

definition writeRequest :: "nat \<Rightarrow> nat \<Rightarrow> bytes \<Rightarrow> bytes \<Rightarrow> (nat \<Rightarrow> attempt) \<Rightarrow> client \<Rightarrow> byte list \<times> client" where
  "writeRequest startTime now key val s c =
     (let ((res, timestamp), c') = Client_Put key val s c
      in (logger_log startTime now
            (Sprint [Text (ascii ''write ''), Slice key, Slice val, Unsigned timestamp, Outcome res]), c'))"

definition readRequest :: "nat \<Rightarrow> nat \<Rightarrow> bytes \<Rightarrow> (nat \<Rightarrow> attempt) \<Rightarrow> client \<Rightarrow> byte list \<times> client" where
  "readRequest startTime now key s c =
     (let ((val, timestamp, ok), c') = Client_Get key s c
      in (logger_log startTime now
            (Sprint [Text (ascii ''read ''), Slice key, Slice val, Unsigned timestamp, Truth ok]), c'))"

section \<open>Reading the log\<close>

text \<open>
  The patterns of \<open>parse-output.py\<close>, each matched at the start of the line after at most one
  space; \<open>None\<close> when the script stops.
\<close>

fun skip_space :: "byte list \<Rightarrow> byte list option" where
  "skip_space [] = None"
| "skip_space (c # cs) = Some (if c = 32 then cs else c # cs)"

definition is_letter :: "byte \<Rightarrow> bool" where
  "is_letter c \<longleftrightarrow> 65 \<le> c \<and> c \<le> 90 \<or> 97 \<le> c \<and> c \<le> 122"

definition parse_run :: "(byte \<Rightarrow> bool) \<Rightarrow> byte list \<Rightarrow> (byte list \<times> byte list) option" where
  "parse_run P line =
     Option.bind (skip_space line) (\<lambda>l.
       if takeWhile P l = [] then None else Some (takeWhile P l, dropWhile P l))"

text \<open>A byte array: numbers separated by single spaces, in brackets.\<close>

fun split_at :: "byte \<Rightarrow> byte list \<Rightarrow> byte list list" where
  "split_at c [] = [[]]"
| "split_at c (x # xs) = (if x = c then [] # split_at c xs
     else case split_at c xs of [] \<Rightarrow> [[x]] | y # ys \<Rightarrow> (x # y) # ys)"

definition encode_byte_array :: "byte list \<Rightarrow> nat" where
  "encode_byte_array s =
     foldl (\<lambda>res b. if b = [] then res else res * 256 + digits_val b) 0 (split_at 32 (butlast (tl s)))"

definition parse_array :: "byte list \<Rightarrow> (nat \<times> byte list) option" where
  "parse_array line =
     Option.bind (skip_space line) (\<lambda>l.
       case l of
         [] \<Rightarrow> None
       | c # cs \<Rightarrow>
           (let arr = takeWhile (\<lambda>x. x \<noteq> 93) cs
            in if c = 91 \<and> arr \<noteq> cs \<and> (arr = [] \<or> list_all (\<lambda>b. b \<noteq> [] \<and> list_all is_digit b) (split_at 32 arr))
               then Some (encode_byte_array (91 # arr @ [93]), drop (Suc (length arr)) cs) else None))"

record logged =
  start_time :: nat
  end_time :: nat
  is_write :: bool
  key_code :: nat
  value_code :: nat
  stamp :: "byte list"
  outcome :: PutResponse

definition request_type :: "byte list \<Rightarrow> bool option" where
  "request_type s = (if s = ascii ''read'' then Some False else if s = ascii ''write'' then Some True else None)"

definition res_type :: "byte list \<Rightarrow> PutResponse option" where
  "res_type s =
     (if s \<in> {ascii ''true'', ascii ''success''} then Some Success
      else if s \<in> {ascii ''false'', ascii ''error''} then Some Error
      else if s = ascii ''unknown'' then Some Unknown
      else None)"

definition parse_transaction :: "byte list \<Rightarrow> logged option" where
  "parse_transaction line =
     Option.bind (parse_run is_digit line) (\<lambda>(t1, l1).
     Option.bind (parse_run is_digit l1) (\<lambda>(t2, l2).
     Option.bind (parse_run is_letter l2) (\<lambda>(ty, l3).
     Option.bind (request_type ty) (\<lambda>w.
     Option.bind (parse_array l3) (\<lambda>(k, l4).
     Option.bind (parse_array l4) (\<lambda>(v, l5).
     Option.bind (parse_run is_digit l5) (\<lambda>(ts, l6).
     Option.bind (parse_run is_letter l6) (\<lambda>(r, l7).
     Option.bind (res_type r) (\<lambda>ok.
       Some \<lparr>start_time = digits_val t1, end_time = digits_val t2, is_write = w, key_code = k,
         value_code = v, stamp = ts, outcome = ok\<rparr>)))))))))"

section \<open>What the reader finds\<close>

lemma ascii_simps: "ascii [] = []" "ascii (c # cs) = of_char c # ascii cs"
  by (simp_all add: ascii_def)

lemma takeWhile_run:
  assumes "list_all P xs" "\<not> P c"
  shows "takeWhile P (xs @ c # r) = xs" "dropWhile P (xs @ c # r) = c # r"
  using assms by (induction xs) auto

text \<open>A run of the characters of a pattern, up to a character that is not one.\<close>

lemma parse_run_at:
  assumes "list_all P xs" "xs \<noteq> []" "\<not> P c" "\<not> P 32"
  shows "parse_run P (xs @ c # r) = Some (xs, c # r)" "parse_run P (32 # xs @ c # r) = Some (xs, c # r)"
proof -
  obtain x ys where xs: "xs = x # ys" using assms(2) by (cases xs) auto
  with assms(1,4) have "x \<noteq> 32" by auto
  then have "skip_space (xs @ c # r) = Some (xs @ c # r)" by (simp add: xs)
  then show "parse_run P (xs @ c # r) = Some (xs, c # r)" "parse_run P (32 # xs @ c # r) = Some (xs, c # r)"
    using assms(2) by (simp_all add: parse_run_def takeWhile_run [OF assms(1,3)])
qed

lemma not_digit [simp]: "\<not> is_digit 32" "\<not> is_digit 10" "\<not> is_digit 93"
  by (simp_all add: is_digit_def word_le_nat_alt)

lemma not_letter [simp]: "\<not> is_letter 32" "\<not> is_letter 10" "\<not> is_letter 91"
  by (simp_all add: is_letter_def word_le_nat_alt)

lemmas parse_number = parse_run_at [of is_digit "nat_digits n" for n, OF nat_digits_all nat_digits_nonempty _ not_digit(1)]

lemma digits_without: "c \<in> {32, 93} \<Longrightarrow> c \<notin> set (nat_digits n)"
  using nat_digits_all [of n] not_digit by (auto simp: list_all_iff)

lemma split_at_none: "c \<notin> set xs \<Longrightarrow> split_at c xs = [xs]"
  by (induction xs) auto

lemma split_at_first: "c \<notin> set xs \<Longrightarrow> split_at c (xs @ c # r) = xs # split_at c r"
  by (induction xs) auto

lemma split_join: "bs \<noteq> [] \<Longrightarrow> \<forall>b \<in> set bs. c \<notin> set b \<Longrightarrow> split_at c (join c bs) = bs"
  by (induction c bs rule: join.induct) (simp_all add: split_at_none split_at_first)

lemma join_set: "x \<in> set (join c bs) \<Longrightarrow> x = c \<or> (\<exists>b \<in> set bs. x \<in> set b)"
  by (induction c bs rule: join.induct) auto

text \<open>The number the reader makes of a byte array.\<close>

definition bytes_code :: "bytes \<Rightarrow> nat" where
  "bytes_code b = foldl (\<lambda>res x. res * 256 + unat x) 0 (raw b)"

definition slice_text :: "bytes \<Rightarrow> byte list" where
  "slice_text b = join 32 (map (\<lambda>x. nat_digits (unat x)) (raw b))"

lemma split_slice: "raw b \<noteq> [] \<Longrightarrow> split_at 32 (slice_text b) = map (\<lambda>x. nat_digits (unat x)) (raw b)"
  unfolding slice_text_def by (rule split_join) (auto simp: digits_without)

lemma encode_slice: "encode_byte_array (91 # slice_text b @ [93]) = bytes_code b"
proof (cases "raw b = []")
  case False
  have "foldl (\<lambda>res d. if d = [] then res else res * 256 + digits_val d) z (map (\<lambda>x. nat_digits (unat x)) xs) =
      foldl (\<lambda>res x. res * 256 + unat x) z xs" for z and xs :: "byte list"
    by (induction xs arbitrary: z) (simp_all add: digits_val_nat_digits)
  then show ?thesis by (simp add: encode_byte_array_def split_slice [OF False] bytes_code_def)
qed (simp add: encode_byte_array_def slice_text_def bytes_code_def)

lemma slice_no_bracket: "93 \<notin> set (slice_text b)"
  using join_set [of 93 32] digits_without [of 93] by (force simp: slice_text_def)

lemma parse_slice:
  shows "parse_array (print_operand (Slice b) @ r) = Some (bytes_code b, r)"
    "parse_array (32 # print_operand (Slice b) @ r) = Some (bytes_code b, r)"
proof -
  let ?t = "slice_text b"
  have "list_all (\<lambda>x. x \<noteq> 93) ?t" using slice_no_bracket [of b] by (auto simp: list_all_iff)
  then have t: "takeWhile (\<lambda>x. x \<noteq> 93) (?t @ 93 # r) = ?t" "?t \<noteq> ?t @ 93 # r"
    using takeWhile_run(1) [of "\<lambda>x. x \<noteq> 93" ?t 93 r] by simp_all
  have v: "?t = [] \<or> list_all (\<lambda>b. b \<noteq> [] \<and> list_all is_digit b) (split_at 32 ?t)"
  proof (cases "raw b = []")
    case False
    show ?thesis by (rule disjI2, subst split_slice [OF False]) (simp add: list_all_iff nat_digits_all [unfolded list_all_iff])
  qed (simp add: slice_text_def)
  have p: "print_operand (Slice b) @ r = 91 # ?t @ 93 # r" by (simp add: slice_text_def)
  show "parse_array (print_operand (Slice b) @ r) = Some (bytes_code b, r)"
    "parse_array (32 # print_operand (Slice b) @ r) = Some (bytes_code b, r)"
    using t v by (simp_all add: parse_array_def p encode_slice Let_def del: print_operand.simps)
qed

text \<open>A whole line: \<open>k\<close> is the kind of the request, \<open>r\<close> the name of its outcome.\<close>

lemma parse_line:
  assumes "request_type k = Some w" "list_all is_letter k" "k \<noteq> []"
    and "res_type r = Some res" "list_all is_letter r" "r \<noteq> []"
  shows "parse_transaction (logger_log t0 t1 (k @ 32 # print_operand (Slice key) @ 32 # print_operand (Slice val) @
      32 # nat_digits n @ 32 # r)) =
    Some \<lparr>start_time = t0 div 1000, end_time = t1 div 1000, is_write = w, key_code = bytes_code key,
      value_code = bytes_code val, stamp = nat_digits n, outcome = res\<rparr>"
proof -
  let ?l7 = "32 # r @ 10 # []"
  let ?l6 = "32 # nat_digits n @ ?l7"
  let ?l5 = "32 # print_operand (Slice val) @ ?l6"
  let ?l4 = "32 # print_operand (Slice key) @ ?l5"
  have r: "parse_run is_letter ?l7 = Some (r, [10])" using parse_run_at(2) [OF assms(5,6), of 10 "[]"] by simp
  have n: "parse_run is_digit ?l6 = Some (nat_digits n, ?l7)" using parse_number(2) [of 32] by simp
  have k: "parse_run is_letter (32 # k @ ?l4) = Some (k, ?l4)" using parse_run_at(2) [OF assms(2,3), of 32] by simp
  have t: "parse_run is_digit (32 # nat_digits m @ 32 # l) = Some (nat_digits m, 32 # l)"
    "parse_run is_digit (nat_digits m @ 32 # l) = Some (nat_digits m, 32 # l)" for m l
    using parse_number [of 32] by simp_all
  show ?thesis
    using assms(1,4) r n k t parse_slice(2)
    by (simp add: logger_log_def parse_transaction_def digits_val_nat_digits del: print_operand.simps)
qed

lemma parse_writeRequest:
  assumes "Client_Put key val s c = ((res, ts), c')"
  shows "writeRequest t0 t1 key val s c =
      (logger_log t0 t1 (ascii ''write'' @ 32 # print_operand (Slice key) @ 32 # print_operand (Slice val) @
         32 # nat_digits (unat ts) @ 32 # ascii (PutResponse_String res)), c')"
  using assms by (simp add: writeRequest_def ascii_simps)

lemma parse_readRequest:
  assumes "Client_Get key s c = ((val, ts, ok), c')"
  shows "readRequest t0 t1 key s c =
      (logger_log t0 t1 (ascii ''read'' @ 32 # print_operand (Slice key) @ 32 # print_operand (Slice val) @
         32 # nat_digits (unat ts) @ 32 # ascii (if ok then ''true'' else ''false'')), c')"
  using assms by (simp add: readRequest_def ascii_simps)

lemma words_read [simp]:
  "list_all is_letter (ascii ''write'')" "list_all is_letter (ascii ''read'')"
  "list_all is_letter (ascii ''true'')" "list_all is_letter (ascii ''false'')"
  "ascii ''write'' \<noteq> []" "ascii ''read'' \<noteq> []" "ascii ''true'' \<noteq> []" "ascii ''false'' \<noteq> []"
  "list_all is_letter (ascii (PutResponse_String res))" "ascii (PutResponse_String res) \<noteq> []"
  by (induction res; code_simp)+

lemma types_read [simp]:
  "request_type (ascii ''write'') = Some True" "request_type (ascii ''read'') = Some False"
  "res_type (ascii ''true'') = Some Success" "res_type (ascii ''false'') = Some Error"
  by code_simp+

lemma res_type_String [simp]: "res_type (ascii (PutResponse_String res)) = Some res"
  by (induction res; code_simp)

end
