(* ===== verification/Manager.thy ===== *)
theory Manager
  imports Cluster Log_Lines Simulation_Options
begin

text \<open>
  The rest of \<open>src/net/manager.go\<close>: what \<open>Simulate\<close> starts for given options, and the random
  requests of \<open>sendTests\<close> and \<open>sendConvergenceTests\<close> as functions of what is drawn.
\<close>

section \<open>Starting a simulation\<close>

text \<open>\<open>int(x)\<close> of an unsigned option.\<close>

definition start_cluster :: "(byte list \<Rightarrow> byte list) \<Rightarrow> Options \<Rightarrow> cluster" where
  "start_cluster h o' =
     (let n = sint (NumNodes o'); rqs = sint (ReadQuorumSize o'); wqs = sint (WriteQuorumSize o')
      in (cluster_init h n rqs wqs (sloppyQuorum o'))
           \<lparr>nodes := (\<lambda>i. New h n i (PersistentStore o') rqs wqs (sloppyQuorum o'))\<rparr>)"

text \<open>The goroutines that send requests: a client, the rate and number of its requests.\<close>

datatype workload =
    Tests client rat "64 word" rat
  | Convergence_tests client "64 word"

record simulation =
  sim_cluster :: cluster
  sim_faults :: bool
  sim_work :: "workload list"

definition Simulate :: "(byte list \<Rightarrow> byte list) \<Rightarrow> Options \<Rightarrow> simulation res" where
  "Simulate h o' =
     bind_res (check_options o') (\<lambda>_.
       let len_nodes = sint (NumNodes o') + 1;
           tests = (\<lambda>rate. Tests (NewClient len_nodes (sint (NumAttempts o'))) rate (NumTransactions o')
             (ProportionWriteTransactions o'))
       in Inr \<lparr>sim_cluster = start_cluster h o', sim_faults = (NodeFailureRate o' > 0),
            sim_work =
              (if ConvergenceTest o'
               then [tests (TransactionRate o' * 3 / 4),
                     Convergence_tests (NewClient len_nodes 1) (NumTransactions o' div 1000)]
               else [tests (TransactionRate o')])\<rparr>)"

lemma sint_small:
  assumes "x \<le> 1000"
  shows "sint (x :: 64 word) = uint x"
proof -
  have "uint x \<le> uint (1000 :: 64 word)" using assms by (simp only: word_le_def)
  then have "uint x \<le> 1000" by simp
  moreover have "- 9223372036854775808 \<le> uint x" using uint_ge_0 [of x] by linarith
  ultimately show ?thesis using signed_take_bit_int_eq_self [of 63 "uint x"] by (simp add: sint_uint)
qed

lemma start_cluster_memory:
  assumes "\<not> PersistentStore o'" "NumNodes o' \<le> 1000" "ReadQuorumSize o' \<le> NumNodes o'" "WriteQuorumSize o' \<le> NumNodes o'"
  shows "start_cluster h o' = cluster_init h (uint (NumNodes o')) (uint (ReadQuorumSize o'))
    (uint (WriteQuorumSize o')) (sloppyQuorum o')"
proof -
  have "ReadQuorumSize o' \<le> 1000" "WriteQuorumSize o' \<le> 1000"
    using assms(2-4) by (auto intro: order_trans)
  then show ?thesis
    using assms(1,2) by (simp add: start_cluster_def sint_small cluster_init_def Let_def)
qed

lemma Simulate_Inr:
  assumes "Simulate h o' = Inr s"
  shows "check_options o' = Inr ()" "sim_cluster s = start_cluster h o'"
  using assms by (cases "check_options o'"; auto simp: Simulate_def Let_def)+

lemma Simulate_memory:
  assumes "check_options o' = Inr ()" "\<not> PersistentStore o'" "NumNodes o' \<le> 1000"
  shows "\<exists>s. Simulate h o' = Inr s \<and> sim_cluster s = cluster_init h (uint (NumNodes o')) (uint (ReadQuorumSize o'))
    (uint (WriteQuorumSize o')) (sloppyQuorum o')"
proof -
  have "ReadQuorumSize o' \<le> NumNodes o'" "WriteQuorumSize o' \<le> NumNodes o'"
    using accepted_sizes(1,2) [OF assms(1)] by (simp_all add: word_le_nat_alt)
  from start_cluster_memory [OF assms(2,3) this] show ?thesis
    using assms(1) by (auto simp: Simulate_def Let_def)
qed

text \<open>The options that are accepted start a cluster with quorums of at least one node.\<close>

lemma accepted_start:
  assumes "check_options o' = Inr ()" "NumNodes o' \<le> 1000" "sloppyQuorum o' \<longrightarrow> ReadQuorumSize o' \<noteq> 0"
    and "N = uint (NumNodes o')"
  shows "1 \<le> N" "N \<le> 1000" "1 \<le> uint (ReadQuorumSize o')" "uint (ReadQuorumSize o') \<le> N"
    "1 \<le> uint (WriteQuorumSize o')" "uint (WriteQuorumSize o') \<le> N" "unat (NumNodes o') < 2 ^ 63"
    "\<not> PersistentStore o' \<Longrightarrow> start_cluster h o' =
      cluster_init h N (uint (ReadQuorumSize o')) (uint (WriteQuorumSize o')) (sloppyQuorum o')"
proof -
  note sizes = accepted_sizes [OF assms(1)]
  have "unat (NumNodes o') \<le> unat (1000 :: 64 word)" using assms(2) by (simp only: word_le_nat_alt)
  then have n: "unat (NumNodes o') \<le> 1000" "unat (NumNodes o') < 2 ^ 63" by simp_all
  have rqs: "0 < unat (ReadQuorumSize o')"
  proof (cases "sloppyQuorum o'")
    case True
    with assms(3) show ?thesis by (simp add: unat_gt_0)
  next
    case False
    with sizes(2,5) n show ?thesis by simp
  qed
  show "1 \<le> N" "N \<le> 1000" "1 \<le> uint (ReadQuorumSize o')" "uint (ReadQuorumSize o') \<le> N"
    "1 \<le> uint (WriteQuorumSize o')" "uint (WriteQuorumSize o') \<le> N"
    using sizes(1-4) n(1) rqs by (simp_all only: assms(4) uint_nat)
  show "unat (NumNodes o') < 2 ^ 63" by (rule n(2))
  have "ReadQuorumSize o' \<le> NumNodes o'" "WriteQuorumSize o' \<le> NumNodes o'"
    using sizes(1,2) by (simp_all add: word_le_nat_alt)
  then show "start_cluster h o' =
      cluster_init h N (uint (ReadQuorumSize o')) (uint (WriteQuorumSize o')) (sloppyQuorum o')"
    if "\<not> PersistentStore o'"
    using start_cluster_memory [OF that assms(2)] assms(4) by simp
qed

section \<open>Random requests\<close>

datatype job = Write_job bytes bytes | Read_job bytes

text \<open>A request the goroutine waits for, or one it leaves to a goroutine of its own.\<close>

datatype launch = Wait job | Spawn job

fun launched :: "launch \<Rightarrow> job" where
  "launched (Wait j) = j"
| "launched (Spawn j) = j"

fun job_key :: "job \<Rightarrow> bytes" where
  "job_key (Write_job k v) = k"
| "job_key (Read_job k) = k"

text \<open>
  What is drawn for a request: its key, the bytes that replace zeros, the number that decides
  between reading and writing, and the value.
\<close>

record draw =
  d_key :: byte
  d_redraws :: "byte list"
  d_choice :: rat
  d_val :: "byte list"

definition test_job :: "rat \<Rightarrow> draw \<Rightarrow> job option" where
  "test_job proportionWrites d =
     map_option (\<lambda>key. if d_choice d < proportionWrites then Write_job (Some key) (Some (d_val d))
                       else Read_job (Some key))
       (removeZeroBytes [d_key d] (d_redraws d))"

text \<open>\<open>None\<close>: zeros are still being drawn again.\<close>

definition sendTests :: "nat \<Rightarrow> rat \<Rightarrow> (nat \<Rightarrow> draw) \<Rightarrow> launch list option" where
  "sendTests numTransactions proportionWrites ds =
     those (map (\<lambda>i. map_option Spawn (test_job proportionWrites (ds i))) [0..<numTransactions])"

definition convergence_test :: "byte list \<Rightarrow> byte list \<Rightarrow> launch list" where
  "convergence_test oldVal newVal =
     (let key = Some [0]
      in [Wait (Write_job key (Some oldVal)), Wait (Read_job key), Spawn (Write_job key (Some newVal))] @
         replicate 249 (Spawn (Read_job key)) @ [Wait (Read_job key)])"

definition sendConvergenceTests :: "nat \<Rightarrow> (nat \<Rightarrow> byte list \<times> byte list) \<Rightarrow> launch list" where
  "sendConvergenceTests numTests vs = concat (map (\<lambda>i. convergence_test (fst (vs i)) (snd (vs i))) [0..<numTests])"

section \<open>What the workloads ask\<close>

lemma those_Some: "those (map f xs) = Some ys \<longleftrightarrow> length ys = length xs \<and> (\<forall>i < length xs. f (xs ! i) = Some (ys ! i))"
proof (induction xs arbitrary: ys)
  case (Cons x xs)
  show ?case
  proof (cases ys)
    case (Cons y zs)
    with Cons.IH [of zs] show ?thesis by (auto split: option.split simp: nth_Cons' less_Suc_eq_0_disj)
  qed (auto split: option.split)
qed auto

lemma test_job_shape:
  assumes "test_job p d = Some j"
  shows "\<exists>k. k \<noteq> 0 \<and> (d_key d \<noteq> 0 \<longrightarrow> k = d_key d) \<and>
    j = (if d_choice d < p then Write_job (Some [k]) (Some (d_val d)) else Read_job (Some [k]))"
proof -
  obtain key where key: "removeZeroBytes [d_key d] (d_redraws d) = Some key"
    "j = (if d_choice d < p then Write_job (Some key) (Some (d_val d)) else Read_job (Some key))"
    using assms by (auto simp: test_job_def)
  from removeZeroBytes_spec [OF key(1)] obtain k where "key = [k]" "k \<noteq> 0" "d_key d \<noteq> 0 \<longrightarrow> k = d_key d"
    by (cases key) auto
  with key(2) show ?thesis by blast
qed

lemma test_job_ends:
  assumes "r \<in> set (d_redraws d)" "r \<noteq> 0"
  shows "test_job p d \<noteq> None"
proof -
  have "0 < length (filter (\<lambda>b. b \<noteq> 0) (d_redraws d))" using assms by (auto simp: filter_empty_conv)
  then have "removeZeroBytes [d_key d] (d_redraws d) \<noteq> None" by (intro removeZeroBytes_ends) (simp add: Suc_le_eq)
  then show ?thesis by (auto simp: test_job_def)
qed

lemma convergence_keys: "l \<in> set (sendConvergenceTests n vs) \<Longrightarrow> job_key (launched l) = Some [0]"
  by (auto simp: sendConvergenceTests_def convergence_test_def Let_def)

lemma convergence_length: "length (sendConvergenceTests n vs) = 253 * n"
proof -
  have "length (convergence_test a b) = 253" for a b by (simp add: convergence_test_def Let_def)
  then show ?thesis by (induction n) (simp_all add: sendConvergenceTests_def)
qed

section \<open>The requests of a client as events of the cluster\<close>

text \<open>The requests a client has made, put on the links one after another.\<close>

lemma asks_run:
  assumes "\<forall>m \<in> set ms. Src m = N \<and> 0 \<le> Dest m \<and> Dest m < N \<and> client_request_type (DemuxKey m)"
    and "distinct (map Id' ms)" "Id' ` set ms \<inter> Id' ` set (asked c) = {}"
  shows "\<exists>c'. cluster_run N (map Ask ms) c = Some c' \<and> asked c' = asked c @ ms"
  using assms
proof (induction ms arbitrary: c)
  case (Cons m ms)
  let ?c = "c\<lparr>asked := asked c @ [m], outboxes := (outboxes c)(Dest m := outboxes c (Dest m) @ [m])\<rparr>"
  have "\<exists>c'. cluster_run N (map Ask ms) ?c = Some c' \<and> asked c' = asked ?c @ ms"
    by (rule Cons.IH) (use Cons.prems in \<open>auto simp: image_iff\<close>)
  with Cons.prems show ?case by (auto simp: image_iff)
qed simp

text \<open>The random coordinator is a node, and every attempt takes a fresh id from the stream.\<close>

definition generateIds :: "nat \<Rightarrow> int" where
  "generateIds k = int k"

definition draws_ok :: "int \<Rightarrow> (nat \<Rightarrow> nat) \<Rightarrow> (nat \<Rightarrow> attempt) \<Rightarrow> bool" where
  "draws_ok N pos s \<longleftrightarrow> strict_mono pos \<and> (\<forall>j. a_id (s j) = generateIds (pos j) \<and> 0 \<le> a_dest (s j) \<and> a_dest (s j) < N)"

lemma draws_ok_ids: "draws_ok N pos s \<Longrightarrow> a_id (s i) = a_id (s j) \<longleftrightarrow> i = j"
  by (auto simp: draws_ok_def generateIds_def strict_mono_eq)

lemma attempts_run:
  assumes "draws_ok N pos s" "k \<le> n"
    and "\<And>a. Src (req a) = N \<and> Id' (req a) = a_id a \<and> Dest (req a) = a_dest a \<and> client_request_type (DemuxKey (req a))"
    and "\<And>j. a_id (s j) \<notin> Id' ` set (asked c)"
  shows "\<exists>c'. cluster_run N (map Ask (map (req \<circ> s) [0..<k])) c = Some c' \<and> asked c' = asked c @ map (req \<circ> s) [0..<k]"
proof (rule asks_run)
  show "distinct (map Id' (map (req \<circ> s) [0..<k]))"
    using assms(3) draws_ok_ids [OF assms(1)] by (simp add: comp_def distinct_map inj_on_def)
  show "Id' ` set (map (req \<circ> s) [0..<k]) \<inter> Id' ` set (asked c) = {}"
  proof (rule equals0I)
    fix x
    assume x: "x \<in> Id' ` set (map (req \<circ> s) [0..<k]) \<inter> Id' ` set (asked c)"
    then obtain j where "x = a_id (s j)" using assms(3) by auto
    with x assms(4) [of j] show False by simp
  qed
qed (use assms in \<open>auto simp: draws_ok_def\<close>)

lemma Client_Get_asks:
  assumes "draws_ok N pos s" "numNodes c = N" "\<And>j. a_id (s j) \<notin> Id' ` set (asked cl)"
    and "\<And>j. list_all (leaves (a_id (s j))) (a_events (s j))"
    and "Client_Get key s c = (r, c')"
  shows "\<exists>ms cl'. requests c' = requests c @ ms \<and> length ms \<le> nat (numAttempts c) \<and>
    (\<forall>m \<in> set ms. DemuxKey m = ClientReadRequest \<and> Key m = key) \<and>
    cluster_run N (map Ask ms) cl = Some cl' \<and> asked cl' = asked cl @ ms"
proof -
  let ?n = "nat (numAttempts c)"
  obtain v ts ok where r: "r = (v, ts, ok)" by (cases r) auto
  have g: "get_loop key (map s [0..<?n]) c = ((v, ts, ok), c')" using assms(5) r by (simp add: Client_Get_def)
  obtain k where k: "k \<le> ?n" "requests c' = requests c @ map (read_request c key) (take k (map s [0..<?n]))"
    using get_loop_result [OF g] assms(4) by auto
  then have req: "requests c' = requests c @ map (read_request c key \<circ> s) [0..<k]"
    by (simp add: take_map comp_def)
  have "\<exists>cl'. cluster_run N (map Ask (map (read_request c key \<circ> s) [0..<k])) cl = Some cl' \<and>
      asked cl' = asked cl @ map (read_request c key \<circ> s) [0..<k]"
    by (rule attempts_run [OF assms(1) k(1)])
      (use assms(2,3) in \<open>auto simp: read_request_def client_request_type_def\<close>)
  then obtain cl' where "cluster_run N (map Ask (map (read_request c key \<circ> s) [0..<k])) cl = Some cl'"
    "asked cl' = asked cl @ map (read_request c key \<circ> s) [0..<k]" by blast
  with req k(1) show ?thesis
    by (intro exI [of _ "map (read_request c key \<circ> s) [0..<k]"]) (auto simp: read_request_def)
qed

lemma Client_put_asks:
  assumes "draws_ok N pos s" "numNodes c = N" "\<And>j. a_id (s j) \<notin> Id' ` set (asked cl)"
    and "\<And>j. list_all (leaves (a_id (s j))) (a_events (s j))"
    and "Client_put key val strong ts s c = (r, c')"
  shows "\<exists>ms cl'. requests c' = requests c @ ms \<and> length ms \<le> nat (numAttempts c) \<and>
    (\<forall>m \<in> set ms. DemuxKey m = (if strong then ClientStrongWriteRequest else ClientWriteRequest) \<and> Key m = key \<and> Value m = val) \<and>
    cluster_run N (map Ask ms) cl = Some cl' \<and> asked cl' = asked cl @ ms"
proof -
  let ?n = "nat (numAttempts c)" and ?req = "write_request c key val strong ts"
  obtain o1 t where r: "r = (o1, t)" by (cases r) auto
  have g: "put_loop key val strong ts Error (map s [0..<?n]) c = ((o1, t), c')"
    using assms(5) r by (simp add: Client_put_def)
  obtain k where k: "k \<le> ?n" "requests c' = requests c @ map ?req (take k (map s [0..<?n]))"
    using put_loop_result [OF g] assms(4) by auto
  then have req: "requests c' = requests c @ map (?req \<circ> s) [0..<k]" by (simp add: take_map comp_def)
  have "\<exists>cl'. cluster_run N (map Ask (map (?req \<circ> s) [0..<k])) cl = Some cl' \<and> asked cl' = asked cl @ map (?req \<circ> s) [0..<k]"
    by (rule attempts_run [OF assms(1) k(1)])
      (use assms(2,3) in \<open>auto simp: write_request_def client_request_type_def\<close>)
  then obtain cl' where "cluster_run N (map Ask (map (?req \<circ> s) [0..<k])) cl = Some cl'"
    "asked cl' = asked cl @ map (?req \<circ> s) [0..<k]" by blast
  with req k(1) show ?thesis
    by (intro exI [of _ "map (?req \<circ> s) [0..<k]"]) (auto simp: write_request_def)
qed

end
