(* ===== verification/Props_Clash.thy ===== *)
theory Props_Clash
  imports Props_Cluster Manager
begin

text \<open>
  The one crash that \<open>cluster_never_crashes\<close> leaves open does happen: a run of a cluster of five
  with a write quorum of three, which ends the process at the consistency check of a background
  write.
\<close>

text \<open>Nodes 1 and 3 coordinate with the members 0, 4 and 2, 4.\<close>

definition clash_env :: "int \<Rightarrow> env" where
  "clash_env l = plain_env\<lparr>leaderAnswer := l, peersPerm := (if l = 3 then [2, 3, 0, 1] else [0, 1, 2, 3])\<rparr>"

definition clash_request :: "int \<Rightarrow> byte \<Rightarrow> Message" where
  "clash_request i v = zeroMessage\<lparr>Id' := i, Src := 5, Dest := i, DemuxKey := ClientWriteRequest, Key := Some [7],
     Value := Some [v], Ok := True\<rparr>"

text \<open>Message \<open>k\<close> of the channel of \<open>i\<close> is delivered; a request is sent and answered.\<close>

definition hop :: "int \<Rightarrow> int \<Rightarrow> nat \<Rightarrow> cluster_event list" where
  "hop l i k = [Route i k, Receive (clash_env l) 0]"

definition round_trip :: "int \<Rightarrow> nat \<Rightarrow> int \<times> nat \<Rightarrow> cluster_event list" where
  "round_trip l t = (\<lambda>(j, k). Resend l t # hop (-1) l 2 @ hop l j k)"

text \<open>The empty token of the node before \<open>l\<close> makes \<open>l\<close> a leader.\<close>

definition becomes_leader :: "int \<Rightarrow> cluster_event list" where
  "becomes_leader l = [Ring_start (l - 1) 100, Ring_timer (l - 1) 100000000 0] @ hop (-1) (l - 1) 0 @
     [Ring_start l 100, Call l 100000000 0]"

text \<open>
  Node 1 asks node 0 for its timestamp twice. The second answer arrives after node 0 has answered
  the put and is counted as the put answer of node 4, which has not received the put.
\<close>

definition clash_first :: "cluster_event list" where
  "clash_first = becomes_leader 1 @ [Ask (clash_request 1 1)] @ hop 1 1 2 @
     round_trip 1 0 (0, 0) @ round_trip 1 1 (4, 0) @
     (Resend 1 2 # hop (-1) 1 2) @ round_trip 1 2 (0, 0) @ round_trip 1 3 (4, 0) @
     round_trip 1 4 (0, 1) @ hop 1 0 0 @ (Resend 1 7 # hop (-1) 1 3)"

text \<open>
  Node 3 writes the key with nodes 2 and 4, none of which has the first value, and commits under
  the same timestamp. Then the first value is propagated to it.
\<close>

definition clash_second :: "cluster_event list" where
  "clash_second = becomes_leader 3 @ [Ask (clash_request 3 2)] @ hop 3 3 2 @
     round_trip 3 0 (2, 0) @ round_trip 3 1 (4, 1) @ round_trip 3 2 (2, 0) @ round_trip 3 3 (4, 1) @
     round_trip 3 4 (2, 0) @ round_trip 3 5 (4, 1) @ [Stream 1 in_order, Route 1 4]"

lemma clash_run:
  "map_option (\<lambda>c. (case cluster_step 5 (Receive (clash_env 3) 0) c of Inl Fatal \<Rightarrow> True | _ \<Rightarrow> False,
       possible 5 (Receive (clash_env 3) 0) c))
     (cluster_run 5 (clash_first @ clash_second) (cluster_init (\<lambda>_. []) 5 1 3 True)) = Some (True, True)"
  by code_simp

lemma clash_chance: "chance 5 (clash_env l)"
  by (auto simp: chance_def clash_env_def plain_env_def)

lemma clash_random: "\<forall>ev \<in> set (clash_first @ clash_second). random_ok 5 ev"
  by (simp add: clash_first_def clash_second_def becomes_leader_def round_trip_def hop_def clash_chance)

text \<open>Five nodes and a write quorum of three are the defaults of the command line.\<close>

definition clash_flags :: "setting list" where
  "clash_flags = [Flag_vr 1, Flag_sloppy True]"

lemma clash_Simulate:
  "\<exists>s. Simulate (\<lambda>_. []) (main_options clash_flags) = Inr s \<and> sim_cluster s = cluster_init (\<lambda>_. []) 5 1 3 True"
proof -
  have "check_options (main_options clash_flags) = Inr ()" by code_simp
  from Simulate_memory [OF this, of "\<lambda>_. []"] show ?thesis
    by (simp add: main_options_def clash_flags_def main_defaults_def sloppyQuorum_def)
qed


end
