(* ===== verification/Dbnode_Control.thy ===== *)
theory Dbnode_Control
  imports Dbnode_Unlock
begin

text \<open>
  What the main loop of \<open>src/dbnode/dbnode.go\<close> does to its timer channel and to the failures it
  tells the elector of: at most one number per iteration, and exactly its own failures and
  recoveries.
\<close>

definition quiet :: "Dbnode \<Rightarrow> Dbnode \<Rightarrow> bool" where
  "quiet n n' \<longleftrightarrow> internalTimer n' = internalTimer n \<and> disabled n' = disabled n \<and>
     controls (electorCalls n') = controls (electorCalls n)"

lemma keeps_quiet: "keeps n n' \<Longrightarrow> quiet n n'"
  by (simp add: keeps_def quiet_def)

lemma dispatch_quiet:
  assumes "dispatch e p m n = Inr n'"
  shows "quiet n n'"
proof (cases "DemuxKey m = NodeUnlockRequest")
  case True
  with assms have "n' = handleUnlockReq e m n" by (simp add: dispatch_def)
  then show ?thesis by (simp add: handleUnlockReq_def Let_def emit_def quiet_def split: if_split)
next
  case False
  with assms have "keeps n n'"
    by (cases "DemuxKey m")
      (auto simp: dispatch_def enqueue_request_def keeps_frame
        intro: keeps_handlers keeps_background split: if_splits)
  then show ?thesis by (rule keeps_quiet)
qed

lemma serve_quiet:
  assumes "serve e p n = Inr n'"
  shows "quiet n n'"
proof -
  have start: "quiet n1 n'" if s: "start_transaction e m n1 = Inr n'" for m n1
  proof -
    have c: "quiet n1 n'" if "continueProcessing e (n1\<lparr>currentTxid := t, clientRequest := r, currentMode := M\<rparr>) = Inr n'" for t r M
      using keeps_quiet [OF keeps_continue [OF that]] by (simp add: quiet_def)
    show ?thesis
      using s by (cases "DemuxKey m") (auto simp: start_transaction_def Let_def intro: c, simp_all add: quiet_def emit_def)
  qed
  show ?thesis
  proof (cases "n' = n")
    case False
    with assms obtain q rest m where "(if Id' m \<in> set (unlockTxids n)
        then Inr (n\<lparr>lockRequests := rest, cells := (cells n)[p := m]\<rparr>)
        else start_transaction e m (n\<lparr>lockRequests := rest, cells := (cells n)[p := m]\<rparr>)) = Inr n'"
      by (auto simp: serve_def Let_def split: if_splits)
    then show ?thesis using start by (fastforce simp: quiet_def split: if_splits)
  qed (simp add: quiet_def)
qed

section \<open>The timer channel\<close>

lemma on_incoming_arms:
  assumes "on_incoming e m n = Inr n'"
  shows "\<exists>new. internalTimer n' = internalTimer n @ new \<and> length new \<le> 1 \<and>
    (new \<noteq> [] \<longrightarrow> DemuxKey m = InternalTimerSignal \<or> DemuxKey m = ControlRecover \<and> disabled n)"
proof -
  let ?n = "n\<lparr>cells := cells n @ [m]\<rparr>"
  show ?thesis
  proof (cases "disabled n \<or> DemuxKey m \<in> {ControlRecover, ControlFail}")
    case True
    with assms show ?thesis
      by (auto simp: on_incoming_def alloc_def Let_def recover_node_def fail_node_def split: if_splits)
  next
    case False
    with assms obtain n1 n2 where s: "on_timer e m ?n = Inr n1"
      "dispatch e (length (cells n)) m (if DemuxKey m = ElectionElect then cleanUnlockTxids n1 else n1) = Inr n2"
      "serve e (length (cells n)) n2 = Inr n'"
      by (auto simp: on_incoming_def alloc_def Let_def split: if_splits)
    obtain n0 ts where n0: "keeps ?n n0" "n1 = n0 \<or> n1 = n0\<lparr>internalTimer := internalTimer ?n @ [ts]\<rparr>"
      "DemuxKey m \<noteq> InternalTimerSignal \<Longrightarrow> n1 = n0"
      by (rule on_timer_keeps [OF s(1)]) blast
    have t: "internalTimer n' = internalTimer n1"
      using dispatch_quiet [OF s(2)] serve_quiet [OF s(3)]
      by (simp add: quiet_def cleanUnlockTxids_def Let_def split: if_splits)
    have 0: "internalTimer n0 = internalTimer n" using n0(1) by (simp add: keeps_def)
    show ?thesis
    proof (cases "n1 = n0")
      case True
      with t 0 show ?thesis by simp
    next
      case False
      with n0(2,3) have "internalTimer n1 = internalTimer n @ [ts]" "DemuxKey m = InternalTimerSignal" by auto
      with t show ?thesis by simp
    qed
  qed
qed

section \<open>Failures and recoveries\<close>

text \<open>What an elector makes of the calls it gets: whether the last of them was a failure.\<close>

definition told :: "bool \<Rightarrow> Message \<Rightarrow> bool" where
  "told d m = (if DemuxKey m = ControlFail then True else if DemuxKey m = ControlRecover then False else d)"

fun told_call :: "bool \<Rightarrow> elector_call \<Rightarrow> bool" where
  "told_call d (ProcessMsg m) = told d m"
| "told_call d (ForwardToLeader m) = d"

lemma told_controls: "foldl told_call d (controls cs) = foldl told_call d cs"
proof (induction cs arbitrary: d)
  case (Cons c cs)
  then show ?case by (cases c) (simp_all add: told_def)
qed simp

definition told_right :: "Dbnode \<Rightarrow> bool" where
  "told_right n \<longleftrightarrow> foldl told_call False (electorCalls n) = disabled n"

lemma told_quiet:
  assumes "told_right n" "quiet n n'"
  shows "told_right n'"
proof -
  have "foldl told_call False (electorCalls n') = foldl told_call False (controls (electorCalls n'))"
    by (rule told_controls [symmetric])
  also have "\<dots> = foldl told_call False (controls (electorCalls n))" using assms(2) by (simp add: quiet_def)
  also have "\<dots> = disabled n'" using assms by (simp add: told_controls told_right_def quiet_def)
  finally show ?thesis by (simp add: told_right_def)
qed

lemma on_incoming_told:
  assumes "told_right n" "on_incoming e m n = Inr n'"
  shows "told_right n'"
proof -
  let ?n = "n\<lparr>cells := cells n @ [m]\<rparr>"
  have n: "told_right ?n" using assms(1) by (simp add: told_right_def)
  show ?thesis
  proof (cases "disabled n \<or> DemuxKey m \<in> {ControlRecover, ControlFail}")
    case True
    with assms show ?thesis
      by (auto simp: on_incoming_def alloc_def Let_def recover_node_def fail_node_def told_right_def told_def
          split: if_splits)
  next
    case False
    with assms obtain n1 n2 where s: "on_timer e m ?n = Inr n1"
      "dispatch e (length (cells n)) m (if DemuxKey m = ElectionElect then cleanUnlockTxids n1 else n1) = Inr n2"
      "serve e (length (cells n)) n2 = Inr n'"
      by (auto simp: on_incoming_def alloc_def Let_def split: if_splits)
    obtain n0 ts where n0: "keeps ?n n0" "n1 = n0 \<or> n1 = n0\<lparr>internalTimer := internalTimer ?n @ [ts]\<rparr>"
      by (rule on_timer_keeps [OF s(1)]) blast
    have "told_right n0" by (rule told_quiet [OF n keeps_quiet [OF n0(1)]])
    moreover have "told_right (n0\<lparr>internalTimer := internalTimer ?n @ [ts]\<rparr>) = told_right n0"
      by (simp add: told_right_def)
    ultimately have "told_right n1" using n0(2) by metis
    then have "told_right (if DemuxKey m = ElectionElect then cleanUnlockTxids n1 else n1)"
      by (simp add: told_right_def cleanUnlockTxids_def Let_def)
    then show ?thesis using dispatch_quiet [OF s(2)] serve_quiet [OF s(3)] told_quiet by blast
  qed
qed

lemma step_told:
  assumes "told_right n" "handleRequests_step e ev n = Inr n'"
  shows "told_right n'"
proof (cases ev)
  case (Incoming m)
  with assms on_incoming_told show ?thesis by simp
next
  case (TimedOutLockRequest p)
  with assms(2) have "keeps n n'" by (simp add: on_lock_timeout_keeps)
  then show ?thesis using told_quiet [OF assms(1)] keeps_quiet by blast
next
  case StateQueryReq
  with assms show ?thesis by (auto simp: told_right_def)
qed

lemma run_told:
  assumes "told_right n" "handleRequests_run evs n = Inr n'"
  shows "told_right n'"
  by (rule fold_res_invariant [where P = told_right, OF assms(2) [unfolded handleRequests_run_def] assms(1)])
    (use step_told in auto)

lemma told_New [simp]: "told_right (New h n i ps rqs wqs sl)"
  by (simp add: told_right_def New_def)

end
