(* ===== verification/Timers.thy ===== *)
theory Timers
  imports Elector Dbnode_Control
begin

text \<open>
  The timer goroutines of the main loops: \<open>startInternalTimer\<close> of the electors
  (\<open>src/dbnode/elector/ring.go\<close>, \<open>bully.go\<close>) and \<open>setInternalTimer\<close> of the node
  (\<open>src/dbnode/dbnode.go\<close>). Each loop shares with its timer an unbuffered channel
  \<open>internalTimer\<close> and a bounded channel of messages: the loop sends a number and the timer
  receives it, sleeps, and sends a signal back on the message channel. Here the two goroutines
  and both channels are a step relation, in which a send on a full channel waits.
\<close>

section \<open>The two goroutines\<close>

datatype clock_pc = Waiting | Sleeping int | Signalling int

text \<open>
  \<open>owed\<close> are the numbers the loop has still to send on \<open>internalTimer\<close>: while there are any, it
  does not take the next message.
\<close>

record 'l clocked =
  inner :: 'l
  mqueue :: "Message list"
  clock :: clock_pc
  owed :: "int list"

text \<open>
  \<open>iter l x l'\<close> is an iteration of the loop on a message, or on another channel for \<open>None\<close>;
  \<open>armed l\<close> is the log of \<open>internalTimer\<close>. Any other goroutine may post a message while there is
  room for it.
\<close>

inductive clock_step ::
  "('l \<Rightarrow> Message option \<Rightarrow> 'l \<Rightarrow> bool) \<Rightarrow> ('l \<Rightarrow> int list) \<Rightarrow> ('l \<Rightarrow> int \<Rightarrow> Message) \<Rightarrow> nat \<Rightarrow>
    'l clocked \<Rightarrow> 'l clocked \<Rightarrow> bool" for iter armed signal cap where
  take: "owed s = [] \<Longrightarrow> mqueue s = m # q \<Longrightarrow> iter (inner s) (Some m) l \<Longrightarrow>
    clock_step iter armed signal cap s
      (s\<lparr>inner := l, mqueue := q, owed := drop (length (armed (inner s))) (armed l)\<rparr>)"
| other: "owed s = [] \<Longrightarrow> iter (inner s) None l \<Longrightarrow>
    clock_step iter armed signal cap s (s\<lparr>inner := l, owed := drop (length (armed (inner s))) (armed l)\<rparr>)"
| arm: "owed s = c # cs \<Longrightarrow> clock s = Waiting \<Longrightarrow>
    clock_step iter armed signal cap s (s\<lparr>owed := cs, clock := Sleeping c\<rparr>)"
| wake: "clock s = Sleeping c \<Longrightarrow> clock_step iter armed signal cap s (s\<lparr>clock := Signalling c\<rparr>)"
| signal: "clock s = Signalling c \<Longrightarrow> length (mqueue s) < cap \<Longrightarrow>
    clock_step iter armed signal cap s (s\<lparr>clock := Waiting, mqueue := mqueue s @ [signal (inner s) c]\<rparr>)"
| post: "DemuxKey m \<noteq> InternalTimerSignal \<Longrightarrow> length (mqueue s) < cap \<Longrightarrow>
    clock_step iter armed signal cap s (s\<lparr>mqueue := mqueue s @ [m]\<rparr>)"

inductive_cases clock_stepE: "clock_step iter armed signal cap s s'"

text \<open>States reached by steps from states that satisfy \<open>G\<close>.\<close>

inductive clock_reach for G iter armed signal cap s0 where
  clock_init: "clock_reach G iter armed signal cap s0 s0"
| clock_next: "clock_reach G iter armed signal cap s0 s \<Longrightarrow> G s \<Longrightarrow> clock_step iter armed signal cap s s' \<Longrightarrow>
    clock_reach G iter armed signal cap s0 s'"

definition clock_start :: "'l \<Rightarrow> 'l clocked" where
  "clock_start l = \<lparr>inner = l, mqueue = [], clock = Waiting, owed = [0]\<rparr>"

text \<open>The timer tokens: numbers to be sent, the one the timer holds, signals not yet taken.\<close>

definition signals :: "Message list \<Rightarrow> nat" where
  "signals ms = length (filter (\<lambda>m. DemuxKey m = InternalTimerSignal) ms)"

lemma signals_simps [simp]:
  "signals [] = 0" "signals (xs @ ys) = signals xs + signals ys"
  "signals (m # ms) = (if DemuxKey m = InternalTimerSignal then 1 else 0) + signals ms"
  by (simp_all add: signals_def)

definition tokens :: "'l clocked \<Rightarrow> nat" where
  "tokens s = length (owed s) + (if clock s = Waiting then 0 else 1) + signals (mqueue s)"

text \<open>Both goroutines wait for each other: the loop to send a number, the timer to send a signal.\<close>

definition clock_deadlock :: "nat \<Rightarrow> 'l clocked \<Rightarrow> bool" where
  "clock_deadlock cap s \<longleftrightarrow> owed s \<noteq> [] \<and> (\<exists>c. clock s = Signalling c) \<and> length (mqueue s) = cap"

text \<open>A recovery is timely when the token of the time before the failure is gone.\<close>

definition timely :: "('l \<Rightarrow> bool) \<Rightarrow> 'l clocked \<Rightarrow> bool" where
  "timely failed s \<longleftrightarrow>
     (owed s = [] \<and> mqueue s \<noteq> [] \<and> DemuxKey (hd (mqueue s)) = ControlRecover \<and> failed (inner s) \<longrightarrow>
        tokens s = 0)"

section \<open>The contract of a loop with a timer\<close>

definition control :: "Messagetype \<Rightarrow> Message" where
  "control k = zeroMessage\<lparr>DemuxKey := k\<rparr>"

lemma control_key [simp]: "DemuxKey (control k) = k"
  by (simp add: control_def)

text \<open>
  The loop sends a number for a signal it takes while it is up, and when it recovers; never
  otherwise, and never two.
\<close>

locale timed_loop =
  fixes iter :: "'l \<Rightarrow> Message option \<Rightarrow> 'l \<Rightarrow> bool"
    and armed :: "'l \<Rightarrow> int list"
    and signal :: "'l \<Rightarrow> int \<Rightarrow> Message"
    and failed :: "'l \<Rightarrow> bool"
  assumes other_quiet: "iter l None l' \<Longrightarrow> armed l' = armed l"
    and arms: "iter l (Some m) l' \<Longrightarrow> \<exists>new. armed l' = armed l @ new \<and> length new \<le> 1 \<and>
      (new \<noteq> [] \<longrightarrow> DemuxKey m = InternalTimerSignal \<or> DemuxKey m = ControlRecover \<and> failed l)"
    and fails: "\<exists>l'. iter l (Some (control ControlFail)) l' \<and> failed l'"
    and recovers: "failed l \<Longrightarrow> \<exists>l' c. iter l (Some (control ControlRecover)) l' \<and> armed l' = armed l @ [c]"
    and signal_kind: "DemuxKey (signal l c) = InternalTimerSignal"
begin

lemma step_token:
  assumes "clock_step iter armed signal cap s s'" "timely failed s" "tokens s \<le> 1"
  shows "tokens s' \<le> 1"
  using assms(1)
proof cases
  case (take m q l)
  then obtain new where new: "armed l = armed (inner s) @ new" "length new \<le> 1"
    "new \<noteq> [] \<longrightarrow> DemuxKey m = InternalTimerSignal \<or> DemuxKey m = ControlRecover \<and> failed (inner s)"
    using arms by blast
  show ?thesis
  proof (cases "DemuxKey m = ControlRecover \<and> failed (inner s)")
    case True
    with take(2,3) assms(2) have "tokens s = 0" by (auto simp: timely_def)
    with take new(1,2) show ?thesis by (simp add: tokens_def)
  next
    case False
    with take new assms(3) show ?thesis by (auto simp: tokens_def)
  qed
next
  case (other l)
  with assms(3) other_quiet show ?thesis by (simp add: tokens_def)
qed (use assms(3) signal_kind in \<open>auto simp: tokens_def\<close>)

lemma one_token:
  assumes "clock_reach (timely failed) iter armed signal cap s0 s" "tokens s0 \<le> 1"
  shows "tokens s \<le> 1"
  using assms
proof (induction rule: clock_reach.induct)
  case (clock_next s s')
  from step_token [OF clock_next.hyps(3,2)] clock_next.IH clock_next.prems show ?case by simp
qed simp

lemma never_waits:
  assumes "clock_reach (timely failed) iter armed signal cap (clock_start l) s" "owed s \<noteq> []"
  shows "clock s = Waiting \<and> signals (mqueue s) = 0"
proof -
  have "tokens (clock_start l) \<le> 1" by (simp add: tokens_def clock_start_def)
  from one_token [OF assms(1) this] assms(2) show ?thesis
    by (cases "owed s") (auto simp: tokens_def split: if_splits)
qed

lemma deadlock_stuck: "clock_deadlock cap s \<Longrightarrow> \<not> clock_step iter armed signal cap s s'"
  by (auto simp: clock_deadlock_def elim!: clock_stepE)

text \<open>A failure and a recovery while the timer sleeps, and as many messages as the channel holds.\<close>

lemma fill:
  assumes "clock_reach G iter armed signal cap s0 s" "\<And>s. G s" "length (mqueue s) + k \<le> cap"
    and "DemuxKey m \<noteq> InternalTimerSignal"
  shows "clock_reach G iter armed signal cap s0 (s\<lparr>mqueue := mqueue s @ replicate k m\<rparr>)"
  using assms(3)
proof (induction k)
  case (Suc k)
  then have r: "clock_reach G iter armed signal cap s0 (s\<lparr>mqueue := mqueue s @ replicate k m\<rparr>)" by simp
  from clock_next [OF r assms(2) post [OF assms(4)]] Suc.prems show ?case
    by (simp add: replicate_append_same)
qed (use assms(1) in simp)

lemma deadlock_reached:
  fixes m :: Message
  assumes "0 < cap" "DemuxKey m \<noteq> InternalTimerSignal"
  shows "\<exists>s. clock_reach (\<lambda>_. True) iter armed signal cap (clock_start l) s \<and> clock_deadlock cap s"
proof -
  let ?r = "clock_reach (\<lambda>_. True) iter armed signal cap (clock_start l)"
  let ?s = "\<lambda>l q o'. \<lparr>inner = l, mqueue = q, clock = Signalling 0, owed = o'\<rparr>"
  have "?r \<lparr>inner = l, mqueue = [], clock = Sleeping 0, owed = []\<rparr>"
    using clock_next [OF clock_init TrueI arm [of "clock_start l" 0 "[]"]] by (simp add: clock_start_def)
  from clock_next [OF this TrueI wake [of _ 0]] have 1: "?r (?s l [] [])" by simp
  have two: "?r (?s l' [] (drop (length (armed l0)) (armed l')))"
    if "?r (?s l0 [] [])" "iter l0 (Some (control k)) l'" "k \<noteq> InternalTimerSignal" for l0 l' k
  proof -
    have "?r (?s l0 [control k] [])"
      using clock_next [OF that(1) TrueI post [of "control k" _ cap]] assms(1) that(3) by simp
    from clock_next [OF this TrueI take [of _ "control k" "[]" iter l']] that(2) show ?thesis by simp
  qed
  obtain l1 where l1: "iter l (Some (control ControlFail)) l1" "failed l1" using fails by blast
  then have "armed l1 = armed l" using arms [OF l1(1)] by auto
  with two [OF 1 l1(1)] have 2: "?r (?s l1 [] [])" by simp
  obtain l2 c where l2: "iter l1 (Some (control ControlRecover)) l2" "armed l2 = armed l1 @ [c]"
    using recovers [OF l1(2)] by blast
  then have "?r (?s l2 [] [c])" using two [OF 2 l2(1)] by simp
  from fill [OF this, of cap m] assms(2) have "?r (?s l2 (replicate cap m) [c])" by simp
  then show ?thesis by (intro exI conjI) (auto simp: clock_deadlock_def)
qed

end

section \<open>The three loops\<close>

definition elector_signal :: "int \<Rightarrow> Message" where
  "elector_signal c = zeroMessage\<lparr>Id' := c, DemuxKey := InternalTimerSignal\<rparr>"

definition bully_signal :: "int \<Rightarrow> Message" where
  "bully_signal c = zeroMessage\<lparr>Id' := c, DemuxKey := InternalTimerSignal\<rparr>"

definition ring_iter :: "ring \<Rightarrow> Message option \<Rightarrow> ring \<Rightarrow> bool" where
  "ring_iter r x r' \<longleftrightarrow> (\<exists>m now. x = Some m \<and> ring_step now m r = Inr r')"

definition bully_iter :: "bully \<Rightarrow> Message option \<Rightarrow> bully \<Rightarrow> bool" where
  "bully_iter b x b' \<longleftrightarrow> (\<exists>m. x = Some m \<and> b' = bully_step m b)"

definition node_iter :: "Dbnode \<Rightarrow> Message option \<Rightarrow> Dbnode \<Rightarrow> bool" where
  "node_iter n x n' \<longleftrightarrow>
     (case x of
        Some m \<Rightarrow> \<exists>e. handleRequests_step e (Incoming m) n = Inr n'
      | None \<Rightarrow> \<exists>e ev. (\<forall>m. ev \<noteq> Incoming m) \<and> handleRequests_step e ev n = Inr n')"

lemma ring_step_arms:
  assumes "ring_step now m r = Inr r'"
  shows "\<exists>new. r_internalTimer r' = r_internalTimer r @ new \<and> length new \<le> 1 \<and>
    (new \<noteq> [] \<longrightarrow> DemuxKey m = InternalTimerSignal \<or> DemuxKey m = ControlRecover \<and> r_disabled r)"
proof -
  have quiet: "r_internalTimer (ring_end r1) = r_internalTimer r1" "r_internalTimer (forwardToken now r1) = r_internalTimer r1" for r1
    by (simp_all add: ring_end_def forwardRequests_def forwardToken_def)
  have timeout: "r_internalTimer r2 = r_internalTimer r1" if "ring_timeout now r1 = Inr r2" for r1 r2
    using that by (auto simp: ring_timeout_def Let_def quiet split: if_splits)
  have elect: "r_internalTimer r2 = r_internalTimer r1" if "ring_elect now m r1 = Inr r2" for r1 r2
    using that by (auto simp: ring_elect_def Let_def quiet)
  show ?thesis
  proof (cases "DemuxKey m = InternalTimerSignal \<and> \<not> r_disabled r")
    case True
    with assms timeout show ?thesis by (auto simp: ring_step_def quiet split: if_splits)
  next
    case False
    with assms elect show ?thesis
      by (auto simp: ring_step_def quiet split: if_splits Messagetype.splits)
  qed
qed

interpretation ring_loop: timed_loop ring_iter r_internalTimer "\<lambda>_. elector_signal" r_disabled
proof
  show "\<exists>l'. ring_iter l (Some (control ControlFail)) l' \<and> r_disabled l'" for l
    by (cases "r_disabled l") (simp_all add: ring_iter_def ring_step_def)
  show "\<exists>new. r_internalTimer l' = r_internalTimer l @ new \<and> length new \<le> 1 \<and>
      (new \<noteq> [] \<longrightarrow> DemuxKey m = InternalTimerSignal \<or> DemuxKey m = ControlRecover \<and> r_disabled l)"
    if "ring_iter l (Some m) l'" for l m l'
    using that ring_step_arms by (auto simp: ring_iter_def)
  show "\<exists>l' c. ring_iter l (Some (control ControlRecover)) l' \<and> r_internalTimer l' = r_internalTimer l @ [c]"
    if "r_disabled l" for l
    using that by (simp add: ring_iter_def ring_step_def)
qed (simp_all add: ring_iter_def elector_signal_def)

lemma bully_step_arms:
  "\<exists>new. b_internalTimer (bully_step m b) = b_internalTimer b @ new \<and> length new \<le> 1 \<and>
    (new \<noteq> [] \<longrightarrow> DemuxKey m = InternalTimerSignal \<or> DemuxKey m = ControlRecover \<and> b_disabled b)"
proof -
  have quiet: "b_internalTimer (becomeCoordinator b1) = b_internalTimer b1"
    "b_internalTimer (startElection b1) = b_internalTimer b1"
    "b_internalTimer (broadcastHeartbeat b1) = b_internalTimer b1"
    "b_internalTimer (bully_forwardRequests b1) = b_internalTimer b1" for b1
    by (simp_all add: startElection_def becomeCoordinator_def broadcastHeartbeat_def bully_forwardRequests_def Let_def)
  have "b_internalTimer (bully_dispatch m b1) = b_internalTimer b1" for b1
    by (simp add: bully_dispatch_def quiet split: Messagetype.split)
  then show ?thesis by (auto simp: bully_step_def bully_tick_def Let_def quiet)
qed

interpretation bully_loop: timed_loop bully_iter b_internalTimer "\<lambda>_. bully_signal" b_disabled
proof
  show "\<exists>l'. bully_iter l (Some (control ControlFail)) l' \<and> b_disabled l'" for l
    by (cases "b_disabled l") (simp_all add: bully_iter_def bully_step_def)
  show "\<exists>new. b_internalTimer l' = b_internalTimer l @ new \<and> length new \<le> 1 \<and>
      (new \<noteq> [] \<longrightarrow> DemuxKey m = InternalTimerSignal \<or> DemuxKey m = ControlRecover \<and> b_disabled l)"
    if "bully_iter l (Some m) l'" for l m l'
    using that bully_step_arms by (simp add: bully_iter_def)
  show "\<exists>l' c. bully_iter l (Some (control ControlRecover)) l' \<and> b_internalTimer l' = b_internalTimer l @ [c]"
    if "b_disabled l" for l
    using that by (simp add: bully_iter_def bully_step_def startElection_def becomeCoordinator_def Let_def)
qed (simp_all add: bully_iter_def bully_signal_def)

interpretation node_loop: timed_loop node_iter internalTimer timer_signal disabled
proof
  show "internalTimer l' = internalTimer l" if "node_iter l None l'" for l l'
  proof -
    from that obtain e ev where ev: "\<forall>m. ev \<noteq> Incoming m" "handleRequests_step e ev l = Inr l'"
      by (auto simp: node_iter_def)
    show ?thesis
    proof (cases ev)
      case (TimedOutLockRequest p)
      with ev(2) have "on_lock_timeout e p l = Inr l'" by simp
      from on_lock_timeout_keeps [OF this] show ?thesis by (simp add: keeps_def)
    qed (use ev in auto)
  qed
  show "\<exists>new. internalTimer l' = internalTimer l @ new \<and> length new \<le> 1 \<and>
      (new \<noteq> [] \<longrightarrow> DemuxKey m = InternalTimerSignal \<or> DemuxKey m = ControlRecover \<and> disabled l)"
    if "node_iter l (Some m) l'" for l m l'
    using that on_incoming_arms by (simp add: node_iter_def) blast
  show "\<exists>l'. node_iter l (Some (control ControlFail)) l' \<and> disabled l'" for l
    by (cases "disabled l") (simp_all add: node_iter_def on_incoming_def alloc_def Let_def fail_node_def)
  show "\<exists>l' c. node_iter l (Some (control ControlRecover)) l' \<and> internalTimer l' = internalTimer l @ [c]"
    if "disabled l" for l
    using that by (simp add: node_iter_def on_incoming_def alloc_def Let_def recover_node_def)
qed (simp_all add: timer_signal_def)

end
