(* ===== verification/Leader_Query.thy ===== *)
theory Leader_Query
  imports Elector Dbnode_Control
begin

text \<open>
  The node and its elector fail and recover together: the elector takes the calls of the node in
  order, so it is up whenever the node asks it for the leader, and the main loop of the node,
  which waits for the answer, gets one.
\<close>

text \<open>An elector is down exactly after a failure it was told of.\<close>

locale obedient =
  fixes step :: "'m \<Rightarrow> 'e \<Rightarrow> 'e res"
    and msg :: "'m \<Rightarrow> Message"
    and down :: "'e \<Rightarrow> bool"
  assumes step_down: "step m e = Inr e' \<Longrightarrow> down e' = told (down e) (msg m)"
begin

lemma run_down:
  "fold_res step ms e = Inr e' \<Longrightarrow> down e' = foldl told_call (down e) (map (\<lambda>m. ProcessMsg (msg m)) ms)"
proof (induction ms arbitrary: e)
  case (Cons m ms)
  then obtain e1 where "step m e = Inr e1" "fold_res step ms e1 = Inr e'" by auto
  with Cons.IH step_down show ?case by simp
qed simp

lemma run_told_down:
  assumes "fold_res step ms e = Inr e'" "\<not> down e"
    and "controls (map (\<lambda>m. ProcessMsg (msg m)) ms) = controls cs"
  shows "down e' = foldl told_call False cs"
proof -
  have "down e' = foldl told_call False (controls (map (\<lambda>m. ProcessMsg (msg m)) ms))"
    using run_down [OF assms(1)] assms(2) by (simp only: told_controls)
  then show ?thesis by (simp only: assms(3) told_controls)
qed

end

lemma ring_step_down:
  assumes "ring_step now m r = Inr r'"
  shows "r_disabled r' = told (r_disabled r) m"
proof -
  have quiet: "r_disabled (ring_end r1) = r_disabled r1" "r_disabled (forwardToken now r1) = r_disabled r1" for r1
    by (simp_all add: ring_end_def forwardRequests_def forwardToken_def)
  have timeout: "r_disabled r2 = r_disabled r1" if "ring_timeout now r1 = Inr r2" for r1 r2
    using that by (auto simp: ring_timeout_def Let_def quiet split: if_splits)
  have elect: "r_disabled r2 = r_disabled r1" if "ring_elect now m r1 = Inr r2" for r1 r2
    using that by (auto simp: ring_elect_def Let_def quiet)
  show ?thesis
  proof (cases "r_disabled r \<or> DemuxKey m \<in> {ControlRecover, ControlFail}")
    case True
    with assms show ?thesis by (auto simp: ring_step_def told_def split: if_splits)
  next
    case False
    show ?thesis
    proof (cases "DemuxKey m = InternalTimerSignal")
      case True
      with assms False timeout show ?thesis by (auto simp: ring_step_def told_def quiet split: if_splits)
    next
      case other: False
      show ?thesis
      proof (cases "DemuxKey m = ElectionElect")
        case True
        with assms False elect show ?thesis by (auto simp: ring_step_def told_def quiet)
      next
        case False
        with assms other \<open>\<not> (r_disabled r \<or> DemuxKey m \<in> {ControlRecover, ControlFail})\<close> show ?thesis
          by (cases "DemuxKey m") (auto simp: ring_step_def told_def quiet)
      qed
    qed
  qed
qed

interpretation ring_ob: obedient "\<lambda>(now, m). ring_step now m" snd r_disabled
  by unfold_locales (auto dest: ring_step_down)

lemma bully_step_down: "b_disabled (bully_step m b) = told (b_disabled b) m"
proof -
  have "b_disabled (bully_dispatch m b1) = b_disabled b1" for b1
    by (simp add: bully_dispatch_def bully_forwardRequests_def broadcastHeartbeat_def split: Messagetype.split)
  then show ?thesis by (auto simp: bully_step_def bully_tick_def told_def Let_def)
qed

interpretation bully_ob: obedient "\<lambda>m b. Inr (bully_step m b)" "\<lambda>m. m" b_disabled
  by unfold_locales (auto simp: bully_step_down)

text \<open>The answer to a query.\<close>

lemma ring_Leader_up:
  assumes "\<not> r_disabled r" "leaderQueryRes r = []"
  shows "\<exists>r'. ring_Leader now r = Inr (r', Some (leader r)) \<and> leader r' = leader r \<and> leaderQueryRes r' = []"
  using assms by (simp add: ring_Leader_def ring_step_def ring_end_def forwardRequests_def)

lemma ring_Leader_down:
  "r_disabled r \<Longrightarrow> leaderQueryRes r = [] \<Longrightarrow> ring_Leader now r = Inr (r, None)"
  by (simp add: ring_Leader_def ring_step_def)

lemma bully_Leader_up:
  "\<not> b_disabled b \<Longrightarrow> b_leaderQueryRes b = [] \<Longrightarrow> snd (bully_Leader b) = Some (b_leader b)"
  by (simp add: bully_Leader_def bully_step_def bully_tick_def bully_dispatch_def Let_def)

lemma bully_Leader_down:
  "b_disabled b \<Longrightarrow> b_leaderQueryRes b = [] \<Longrightarrow> bully_Leader b = (b, None)"
  by (simp add: bully_Leader_def bully_step_def)

section \<open>Heartbeats of the bully\<close>

text \<open>A heartbeat of the leader, or of a higher node when there is none, is followed.\<close>

lemma bully_heartbeat:
  assumes "\<not> b_disabled b" "DemuxKey m = ElectionCoordinator" "b_leader b \<in> {-1, Src m}"
  shows "b_leader (bully_step m b) = Src m" "\<not> b_disabled (bully_step m b)"
    "b_requestsToForward (bully_step m b) = []"
    "b_outgoing (bully_step m b) = b_outgoing b @ map (\<lambda>q. q\<lparr>Dest := Src m\<rparr>) (b_requestsToForward b)"
  using assms by (auto simp: bully_step_def bully_tick_def bully_dispatch_def bully_forwardRequests_def)

text \<open>Any other one starts an election, after which there is no leader unless this is the last node.\<close>

lemma bully_heartbeat_other:
  assumes "\<not> b_disabled b" "DemuxKey m = ElectionCoordinator" "b_leader b \<notin> {-1, Src m}" "b_id b < b_n b - 1"
  shows "b_leader (bully_step m b) = -1" "\<not> b_disabled (bully_step m b)"
    "b_requestsToForward (bully_step m b) = b_requestsToForward b"
    "b_outgoing (bully_step m b) = b_outgoing b @ map (\<lambda>i. election_msg (b_id b) i ElectionElect) [b_id b + 1..b_n b - 1]"
  using assms by (auto simp: bully_step_def bully_tick_def bully_dispatch_def startElection_def Let_def)

end
