(* ===== verification/Ring_Round.thy ===== *)
theory Ring_Round
  imports Ring_Safety Elector
begin

text \<open>
  The ring election without failures: the token goes round the ring, and each node that sees it
  takes the highest id on it for the leader.
\<close>

text \<open>The token is delivered at the given times, each time to the node the last one sent it to.\<close>

fun circulate :: "int list \<Rightarrow> Message \<Rightarrow> (int \<Rightarrow> ring) \<Rightarrow> (Message \<times> (int \<Rightarrow> ring)) res" where
  "circulate [] m rs = Inr (m, rs)"
| "circulate (now # ts) m rs =
     bind_res (ring_step now m (rs (Dest m))) (\<lambda>r. circulate ts (last (r_outgoing r)) (rs(Dest m := r)))"

text \<open>The deliveries are further apart than a node waits before it sends the token again.\<close>

fun spaced :: "int \<Rightarrow> int list \<Rightarrow> bool" where
  "spaced t [] = True"
| "spaced t (now # ts) \<longleftrightarrow> now - t > tokenGap \<and> spaced now ts"

definition prepared :: "int \<Rightarrow> int \<Rightarrow> int \<Rightarrow> ring \<Rightarrow> bool" where
  "prepared N t i r \<longleftrightarrow> r_id r = i \<and> r_n r = N \<and> nextInRing r = wrap_next N i \<and> \<not> r_disabled r \<and>
     requestsToForward r = [] \<and> (\<forall>u. tokenSentLast r = Some u \<longrightarrow> u \<le> t)"

definition goes_round :: "int \<Rightarrow> Message \<Rightarrow> bool" where
  "goes_round N m \<longleftrightarrow> DemuxKey m = ElectionElect \<and> Dest m \<in> {0..<N} \<and>
     (\<exists>ids. token_of (Value m) ids \<and> set ids \<subseteq> {0..<N} \<and> N - 1 \<in> set ids)"

lemma prepared_later: "prepared N t i r \<Longrightarrow> t \<le> t' \<Longrightarrow> prepared N t' i r"
  by (auto simp: prepared_def)

lemma forwardToken_sends:
  assumes "\<forall>u. tokenSentLast r = Some u \<longrightarrow> u \<le> t" "now - t > tokenGap"
  shows "forwardToken now r = r\<lparr>r_outgoing := r_outgoing r @ [token r], tokenSentLast := Some now\<rparr>"
  using assms by (auto simp: forwardToken_def split: option.split)

lemma hop_elects:
  assumes "prepared N t i r" "goes_round N m" "Dest m = i" "now - t > tokenGap" "N \<le> 1000"
  shows "\<exists>r'. ring_step now m r = Inr r' \<and> prepared N now i r' \<and> leader r' = N - 1 \<and>
    goes_round N (last (r_outgoing r')) \<and> Dest (last (r_outgoing r')) = wrap_next N i \<and>
    length (raw (Value (last (r_outgoing r')))) = length (raw (Value m)) + 3"
proof -
  obtain ids where ids: "token_of (Value m) ids" "set ids \<subseteq> {0..<N}" "N - 1 \<in> set ids"
    and m: "DemuxKey m = ElectionElect" "i \<in> {0..<N}"
    using assms(2,3) by (auto simp: goes_round_def)
  have id: "valid_id i" using m(2) assms(5) by (auto simp: valid_id_def)
  obtain v where v: "addId (Value m) i = Inr v" "token_of v (ids @ [i])"
    using addId_token [OF ids(1) id] by blast
  have "Max (insert (-1) (set (ids @ [i]))) = N - 1"
    by (rule Max_eqI) (use ids(2,3) m(2) in auto)
  with highestId_token [OF v(2)] have h: "highestId v = Inr (N - 1)" by simp
  have len: "length (raw v) = length (raw (Value m)) + 3"
    using ids(1) v(2) by (simp add: token_of_def length_ids_bytes id3)
  let ?m = "m\<lparr>Value := v, Src := i, Dest := wrap_next N i\<rparr>"
  let ?ack = "zeroMessage\<lparr>Src := i, Dest := Src m, DemuxKey := ElectionAck, Ok := True\<rparr>"
  let ?r = "r\<lparr>r_timeoutCounter := r_timeoutCounter r + 1, leader := N - 1, token := ?m, nextInRing := wrap_next N i,
    r_outgoing := r_outgoing r @ [?ack, ?m], tokenSentLast := Some now\<rparr>"
  have r: "r_id r = i" "r_n r = N" "nextInRing r = wrap_next N i" "\<not> r_disabled r" "requestsToForward r = []"
    "\<forall>u. tokenSentLast r = Some u \<longrightarrow> u \<le> t"
    using assms(1) by (auto simp: prepared_def)
  have "ring_step now m r = Inr ?r"
    using r m(1) v(1) h ids(3) assms(4)
    by (simp add: ring_step_def ring_elect_def Let_def forwardToken_sends [OF _ assms(4)] ring_end_def forwardRequests_def)
  moreover have "prepared N now i ?r" using r by (simp add: prepared_def)
  moreover have "goes_round N ?m"
    unfolding goes_round_def using m v(2) ids(2,3) wrap_next_range [of i N]
    by (intro conjI exI [of _ "ids @ [i]"]) auto
  ultimately show ?thesis using len by (intro exI [of _ ?r]) simp
qed

lemma circulate_elects:
  assumes "\<forall>i \<in> {0..<N}. prepared N t i (rs i)" "goes_round N m" "spaced t ts" "N \<le> 1000"
  shows "\<exists>m' rs'. circulate ts m rs = Inr (m', rs') \<and>
    length (raw (Value m')) = length (raw (Value m)) + 3 * length ts \<and>
    (\<forall>i \<in> {0..<N}. leader (rs i) = N - 1 \<or> (\<exists>k < length ts. i = (Dest m + int k) mod N) \<longrightarrow> leader (rs' i) = N - 1)"
  using assms(1-3)
proof (induction ts arbitrary: t m rs)
  case (Cons now ts)
  let ?i = "Dest m"
  have i: "?i \<in> {0..<N}" using Cons.prems(2) by (simp add: goes_round_def)
  have gap: "now - t > tokenGap" "t \<le> now" using Cons.prems(3) by (auto simp: tokenGap_def)
  obtain r where r: "ring_step now m (rs ?i) = Inr r" "prepared N now ?i r" "leader r = N - 1"
    "goes_round N (last (r_outgoing r))" "Dest (last (r_outgoing r)) = wrap_next N ?i"
    "length (raw (Value (last (r_outgoing r)))) = length (raw (Value m)) + 3"
    using hop_elects [OF bspec [OF Cons.prems(1) i] Cons.prems(2) refl gap(1) assms(4)] by blast
  have "\<forall>j \<in> {0..<N}. prepared N now j ((rs(?i := r)) j)"
    using Cons.prems(1) r(2) prepared_later [OF _ gap(2)] by auto
  moreover have "spaced now ts" using Cons.prems(3) by simp
  ultimately have "\<exists>m' rs'. circulate ts (last (r_outgoing r)) (rs(?i := r)) = Inr (m', rs') \<and>
      length (raw (Value m')) = length (raw (Value (last (r_outgoing r)))) + 3 * length ts \<and>
      (\<forall>j \<in> {0..<N}. leader ((rs(?i := r)) j) = N - 1 \<or>
        (\<exists>k < length ts. j = (Dest (last (r_outgoing r)) + int k) mod N) \<longrightarrow> leader (rs' j) = N - 1)"
    by (intro Cons.IH [OF _ r(4)])
  then obtain m' rs' where
    c: "circulate ts (last (r_outgoing r)) (rs(?i := r)) = Inr (m', rs')"
      "length (raw (Value m')) = length (raw (Value (last (r_outgoing r)))) + 3 * length ts"
    and l: "\<forall>j \<in> {0..<N}. leader ((rs(?i := r)) j) = N - 1 \<or>
      (\<exists>k < length ts. j = (Dest (last (r_outgoing r)) + int k) mod N) \<longrightarrow> leader (rs' j) = N - 1"
    by (elim exE conjE) (rule that)
  have next_hop: "(wrap_next N ?i + int k) mod N = (?i + int (Suc k)) mod N" for k
  proof -
    have "wrap_next N ?i = (?i + 1) mod N" using i by (auto simp: wrap_next_def)
    then have "(wrap_next N ?i + int k) mod N = (?i + 1 + int k) mod N" by (simp only: mod_add_left_eq)
    then show ?thesis by (simp add: ac_simps)
  qed
  have "leader (rs' j) = N - 1"
    if j: "j \<in> {0..<N}" "leader (rs j) = N - 1 \<or> (\<exists>k < length (now # ts). j = (?i + int k) mod N)" for j
  proof (cases "j = ?i \<or> leader (rs j) = N - 1")
    case True
    with l j(1) r(3) show ?thesis by auto
  next
    case False
    with j obtain k where k: "k < Suc (length ts)" "j = (?i + int k) mod N" by auto
    have "k \<noteq> 0"
    proof
      assume "k = 0"
      with k(2) i have "j = ?i" by simp
      with False show False by simp
    qed
    then obtain k' where "k = Suc k'" by (cases k) auto
    with k have "k' < length ts" "j = (wrap_next N ?i + int k') mod N" by (simp_all add: next_hop)
    with l j(1) r(5) show ?thesis by metis
  qed
  with r(1,6) c show ?case by (intro exI [of _ m'] exI [of _ rs']) auto
qed simp

text \<open>Where the main loops begin: only the last node sends a token.\<close>

lemma ring_start_prepared:
  assumes "0 \<le> i" "i < N" "N \<le> 1000" "s \<le> t" "ring_start s (New_Elector i N) = Inr r"
  shows "prepared N t i r" "i = N - 1 \<Longrightarrow> goes_round N (last (r_outgoing r)) \<and> Dest (last (r_outgoing r)) = 0 \<and>
    length (raw (Value (last (r_outgoing r)))) = 3"
proof -
  have id: "valid_id i" using assms(1-3) by (simp add: valid_id_def)
  obtain v where v: "addId None i = Inr v" "token_of v ([] @ [i])" using addId_token [OF token_of_nil id] by blast
  then have len: "length (raw v) = 3" by (simp add: token_of_def id3)
  show "prepared N t i r"
    using assms(4,5) v(1)
    by (auto simp: New_Elector_def newRing_def ring_start_def Let_def forwardToken_def prepared_def zeroMessage_def split: if_splits)
  show "goes_round N (last (r_outgoing r)) \<and> Dest (last (r_outgoing r)) = 0 \<and> length (raw (Value (last (r_outgoing r)))) = 3"
    if "i = N - 1"
    using assms(1,2,5) v len that
    by (auto simp: New_Elector_def newRing_def ring_start_def Let_def forwardToken_def goes_round_def wrap_next_def zeroMessage_def)
qed

end
