(* ===== verification/Props_Loops.thy ===== *)
theory Props_Loops
  imports Timers Leader_Query Ring_Round
begin

text \<open>
  Properties of the main loops and the goroutines beside them: their timers, and the elector of
  a node.
\<close>

text \<open>C26: As long as no node recovers while the timer token of the time before its failure is still
  about, the main loop of a node never waits for its timer: whenever it has a number to send on
  \<open>internalTimer\<close>, the timer goroutine is ready to receive it, and no second signal is on its
  way.\<close>

theorem node_timer_ready:
  assumes "clock_reach (timely disabled) node_iter internalTimer timer_signal 1000 (clock_start n) s"
    and "owed s \<noteq> []"
  shows "clock s = Waiting \<and> signals (mqueue s) = 0 \<and> length (owed s) = 1"
proof -
  note s = node_loop.never_waits [OF assms]
  have "tokens s \<le> 1"
    by (rule node_loop.one_token [OF assms(1)]) (simp add: tokens_def clock_start_def)
  with s assms(2) show ?thesis by (cases "owed s") (auto simp: tokens_def)
qed

lemma ring_timer_ready:
  "clock_reach (timely r_disabled) ring_iter r_internalTimer (\<lambda>_. elector_signal) cap (clock_start r) s \<Longrightarrow>
    owed s \<noteq> [] \<Longrightarrow> clock s = Waiting \<and> signals (mqueue s) = 0"
  by (rule ring_loop.never_waits)

lemma bully_timer_ready:
  "clock_reach (timely b_disabled) bully_iter b_internalTimer (\<lambda>_. bully_signal) 10 (clock_start b) s \<Longrightarrow>
    owed s \<noteq> [] \<Longrightarrow> clock s = Waiting \<and> signals (mqueue s) = 0"
  by (rule bully_loop.never_waits)

text \<open>A round of the timer: the first number is received, its signal taken, the next one owed.\<close>

definition ex_idle :: Dbnode where
  "ex_idle = New (\<lambda>_. []) 3 0 False 2 2 False"

definition ex_ticked :: Dbnode where
  "ex_ticked = ex_idle\<lparr>cells := [timer_signal ex_idle 0], internalTimer := [0, 0]\<rparr>"

lemma ex_tick: "node_iter ex_idle (Some (timer_signal ex_idle 0)) ex_ticked"
  by (simp add: node_iter_def ex_idle_def ex_ticked_def New_def on_incoming_def alloc_def Let_def
      timer_signal_def on_timer_def dispatch_def serve_def empty_queue_def queue_empty_def)

lemma node_timer_ready_ex:
  "\<exists>s. clock_reach (timely disabled) node_iter internalTimer timer_signal 1000 (clock_start ex_idle) s \<and>
     inner s = ex_ticked \<and> owed s = [0] \<and> clock s = Waiting \<and> signals (mqueue s) = 0"
proof -
  let ?R = "clock_reach (timely disabled) node_iter internalTimer timer_signal 1000 (clock_start ex_idle)"
  let ?s = "\<lambda>l q pc o'. \<lparr>inner = l, mqueue = q, clock = pc, owed = o'\<rparr>"
  have t: "timely disabled (?s l q pc o')" if "q = [] \<or> \<not> disabled l" for l q pc o'
    using that by (auto simp: timely_def)
  have e: "\<not> disabled ex_idle" by (simp add: ex_idle_def New_def)
  have "?R (?s ex_idle [] Waiting [0])" using clock_init by (simp add: clock_start_def)
  from clock_next [OF this t arm] have "?R (?s ex_idle [] (Sleeping 0) [])" by simp
  from clock_next [OF this t wake] have "?R (?s ex_idle [] (Signalling 0) [])" by simp
  from clock_next [OF this t signal] have "?R (?s ex_idle [timer_signal ex_idle 0] Waiting [])" by simp
  from clock_next [OF this t take] ex_tick e
  have 1: "?R (?s ex_ticked [] Waiting (drop (length (internalTimer ex_idle)) (internalTimer ex_ticked)))" by simp
  then have "?R (?s ex_ticked [] Waiting [0])" by (simp add: ex_idle_def ex_ticked_def New_def)
  from this node_timer_ready [OF this] show ?thesis by (intro exI [of _ "?s ex_ticked [] Waiting [0]"]) simp
qed

text \<open>C16: A node that fails and recovers while its timer sleeps ends up with two timer tokens: if
  its message channel, of whatever size, then fills up before the timer wakes, the main loop
  waits for the timer to receive a number and the timer for the main loop to take a message, for
  ever. The same holds for the main loops of both electors.\<close>

theorem quick_recovery_deadlock:
  "(\<exists>s. clock_reach (\<lambda>_. True) node_iter internalTimer timer_signal 1000 (clock_start n) s \<and>
     clock_deadlock 1000 s \<and> (\<forall>s'. \<not> clock_step node_iter internalTimer timer_signal 1000 s s')) \<and>
   (\<exists>s. clock_reach (\<lambda>_. True) ring_iter r_internalTimer (\<lambda>_. elector_signal) (Suc k) (clock_start r) s \<and>
     clock_deadlock (Suc k) s \<and> (\<forall>s'. \<not> clock_step ring_iter r_internalTimer (\<lambda>_. elector_signal) (Suc k) s s')) \<and>
   (\<exists>s. clock_reach (\<lambda>_. True) bully_iter b_internalTimer (\<lambda>_. bully_signal) 10 (clock_start b) s \<and>
     clock_deadlock 10 s \<and> (\<forall>s'. \<not> clock_step bully_iter b_internalTimer (\<lambda>_. bully_signal) 10 s s'))"
proof (intro conjI)
  have q: "DemuxKey (control InternalLeaderQuery) \<noteq> InternalTimerSignal" by simp
  note d = node_loop.deadlock_stuck ring_loop.deadlock_stuck bully_loop.deadlock_stuck
  show "\<exists>s. clock_reach (\<lambda>_. True) node_iter internalTimer timer_signal 1000 (clock_start n) s \<and>
     clock_deadlock 1000 s \<and> (\<forall>s'. \<not> clock_step node_iter internalTimer timer_signal 1000 s s')"
    using node_loop.deadlock_reached [OF _ q, of 1000 n] d(1) by fastforce
  show "\<exists>s. clock_reach (\<lambda>_. True) ring_iter r_internalTimer (\<lambda>_. elector_signal) (Suc k) (clock_start r) s \<and>
     clock_deadlock (Suc k) s \<and> (\<forall>s'. \<not> clock_step ring_iter r_internalTimer (\<lambda>_. elector_signal) (Suc k) s s')"
    using ring_loop.deadlock_reached [OF _ q, of "Suc k" r] d(2) by fastforce
  show "\<exists>s. clock_reach (\<lambda>_. True) bully_iter b_internalTimer (\<lambda>_. bully_signal) 10 (clock_start b) s \<and>
     clock_deadlock 10 s \<and> (\<forall>s'. \<not> clock_step bully_iter b_internalTimer (\<lambda>_. bully_signal) 10 s s')"
    using bully_loop.deadlock_reached [OF _ q, of 10 b] d(3) by fastforce
qed


definition ex_controls :: "Message list" where
  "ex_controls = [zeroMessage\<lparr>DemuxKey := ControlFail\<rparr>, zeroMessage\<lparr>DemuxKey := ControlRecover\<rparr>]"

lemma ex_controls_run:
  "\<exists>nd. handleRequests_run (map (\<lambda>m. (e, Incoming m)) ex_controls) ex_idle = Inr nd \<and> \<not> disabled nd \<and>
     controls (electorCalls nd) = map ProcessMsg ex_controls"
  by (simp add: handleRequests_run_def ex_controls_def ex_idle_def New_def on_incoming_def alloc_def Let_def
      recover_node_def fail_node_def)

lemma ex_controls_ring:
  "\<exists>r0 r. ring_start 0 (New_Elector 0 3) = Inr r0 \<and>
     ring_run (map (\<lambda>m. (100, m)) ex_controls) r0 = Inr r \<and> leader r = -1 \<and> leaderQueryRes r = []"
  by (simp add: New_Elector_def newRing_def ring_start_def ring_run_def ex_controls_def ring_step_def Let_def)


text \<open>C27: Two heartbeats of the same node, with nothing in between, settle any other node of the bully
  election that is up on it as the leader, whatever it believed before (the last node excepted,
  which answers with an election of its own): it asks the higher nodes at most once for an
  election, and then sends the leader every request it had kept for one, in order.\<close>

theorem bully_follows_heartbeats:
  assumes "\<not> b_disabled b" "DemuxKey m = ElectionCoordinator" "b_id b < b_n b - 1"
  shows "b_leader (bully_step m (bully_step m b)) = Src m \<and>
    b_requestsToForward (bully_step m (bully_step m b)) = [] \<and>
    b_outgoing (bully_step m (bully_step m b)) = b_outgoing b @
      (if b_leader b \<in> {-1, Src m} then []
       else map (\<lambda>i. election_msg (b_id b) i ElectionElect) [b_id b + 1..b_n b - 1]) @
      map (\<lambda>q. q\<lparr>Dest := Src m\<rparr>) (b_requestsToForward b)"
proof (cases "b_leader b \<in> {-1, Src m}")
  case True
  note h = bully_heartbeat [OF assms(1,2) True]
  show ?thesis using bully_heartbeat [OF h(2) assms(2)] h True by simp
next
  case False
  note h = bully_heartbeat_other [OF assms(1,2) False assms(3)]
  show ?thesis using bully_heartbeat [OF h(2) assms(2)] h False by simp
qed

definition ex_bully :: bully where
  "ex_bully = (newBully 0 3)\<lparr>b_leader := 1, b_requestsToForward := [zeroMessage\<lparr>DemuxKey := ClientWriteRequest\<rparr>]\<rparr>"

lemma bully_follows_heartbeats_ex:
  "let m = election_msg 2 0 ElectionCoordinator; b = bully_step m (bully_step m ex_bully)
   in b_leader b = 2 \<and> b_outgoing b =
     [election_msg 0 1 ElectionElect, election_msg 0 2 ElectionElect, zeroMessage\<lparr>Dest := 2, DemuxKey := ClientWriteRequest\<rparr>]"
  using bully_follows_heartbeats [of ex_bully "election_msg 2 0 ElectionCoordinator"]
  by (simp add: ex_bully_def newBully_def election_msg_def upto.simps Let_def)


definition ex_started :: "int \<Rightarrow> ring" where
  "ex_started i = (case ring_start 0 (New_Elector i 3) of Inl _ \<Rightarrow> New_Elector i 3 | Inr r \<Rightarrow> r)"


end
