(* ===== verification/Props_Manager.thy ===== *)
theory Props_Manager
  imports Manager Props_Cluster
begin

text \<open>Properties of the simulation as a whole: its options, its requests and its log.\<close>

section \<open>What the options start\<close>


text \<open>The defaults of the command line, but for three nodes: a write is under way.\<close>

definition ex_flags :: "setting list" where
  "ex_flags = [Flag_n 3, Flag_vr 2, Flag_vw 2]"

lemma ex_flags_Simulate:
  "\<exists>s. Simulate (\<lambda>_. []) (main_options ex_flags) = Inr s \<and> sim_cluster s = cluster_init (\<lambda>_. []) 3 2 2 False"
proof -
  have "check_options (main_options ex_flags) = Inr ()" by code_simp
  from Simulate_memory [OF this, of "\<lambda>_. []"] show ?thesis
    by (simp add: main_options_def ex_flags_def main_defaults_def sloppyQuorum_def)
qed


section \<open>The requests of the workloads\<close>

text \<open>The requests of the normal tests and of the convergence tests never meet. For whatever is
  drawn, \<open>sendTests\<close> makes as many requests as it was told to, all without waiting, each to a key
  of a single byte that is not zero, and every request of \<open>sendConvergenceTests\<close>, 253 for each
  test, is to the key \<open>[0]\<close>.\<close>

theorem convergence_key_apart:
  assumes "sendTests n p ds = Some ls"
  shows "length ls = n \<and> length (sendConvergenceTests k vs) = 253 * k \<and>
    (\<forall>i < n. \<exists>b. b \<noteq> 0 \<and> ls ! i = Spawn (if d_choice (ds i) < p then Write_job (Some [b]) (Some (d_val (ds i)))
      else Read_job (Some [b]))) \<and>
    (\<forall>l \<in> set (sendConvergenceTests k vs). job_key (launched l) = Some [0]) \<and>
    job_key ` launched ` set ls \<inter> job_key ` launched ` set (sendConvergenceTests k vs) = {}"
proof -
  have len: "length ls = n"
    and nth: "\<forall>i < n. map_option Spawn (test_job p (ds i)) = Some (ls ! i)"
    using assms by (auto simp: sendTests_def those_Some)
  have shape: "\<exists>b. b \<noteq> 0 \<and> ls ! i = Spawn (if d_choice (ds i) < p then Write_job (Some [b]) (Some (d_val (ds i)))
      else Read_job (Some [b]))" if i: "i < n" for i
  proof -
    obtain j where j: "test_job p (ds i) = Some j" "ls ! i = Spawn j" using nth i by auto
    from test_job_shape [OF j(1)] j(2) show ?thesis by auto
  qed
  have key: "job_key (launched l) \<noteq> Some [0]" if l: "l \<in> set ls" for l
  proof -
    obtain i where i: "i < n" "l = ls ! i" using l len by (auto simp: in_set_conv_nth)
    obtain b where "b \<noteq> 0"
      "ls ! i = Spawn (if d_choice (ds i) < p then Write_job (Some [b]) (Some (d_val (ds i))) else Read_job (Some [b]))"
      using shape [OF i(1)] by (elim exE conjE) (rule that)
    then show ?thesis by (simp add: i(2))
  qed
  have apart: "job_key ` launched ` set ls \<inter> job_key ` launched ` set (sendConvergenceTests k vs) = {}"
  proof (rule equals0I)
    fix x
    assume "x \<in> job_key ` launched ` set ls \<inter> job_key ` launched ` set (sendConvergenceTests k vs)"
    then obtain l l' where l: "l \<in> set ls" "x = job_key (launched l)"
      "l' \<in> set (sendConvergenceTests k vs)" "x = job_key (launched l')" by auto
    show False using key [OF l(1)] l(2,4) convergence_keys [OF l(3)] by simp
  qed
  show ?thesis
    by (intro conjI allI impI ballI len convergence_length shape convergence_keys apart)
qed

definition ex_draw :: "nat \<Rightarrow> draw" where
  "ex_draw i = \<lparr>d_key = 0, d_redraws = [0, 7], d_choice = of_nat i, d_val = [1, 2]\<rparr>"

lemma convergence_key_apart_ex:
  "\<exists>ls. sendTests 2 1 ex_draw = Some ls \<and> ls = [Spawn (Write_job (Some [7]) (Some [1, 2])), Spawn (Read_job (Some [7]))] \<and>
     job_key ` launched ` set ls \<inter> job_key ` launched ` set (sendConvergenceTests 1 (\<lambda>_. ([3], [4]))) = {}"
proof -
  have "sendTests 2 1 ex_draw = Some [Spawn (Write_job (Some [7]) (Some [1, 2])), Spawn (Read_job (Some [7]))]"
    by (simp add: sendTests_def test_job_def ex_draw_def upt_rec)
  moreover note convergence_key_apart [OF this, of 1 "\<lambda>_. ([3], [4])"]
  ultimately show ?thesis by (intro exI conjI) (assumption, rule refl, elim conjE, assumption)
qed


definition ex_attempts :: "nat \<Rightarrow> attempt" where
  "ex_attempts j = \<lparr>a_id = int j, a_dest = 1, a_events = [], a_timer = False\<rparr>"


section \<open>The log\<close>

text \<open>C36: the log lines of the program are read back by \<open>parse-output.py\<close>. From the line a request
  prints, the script finds its start and end in microseconds, whether it was a write, its key and
  value as numbers, its timestamp, and its outcome.\<close>

theorem log_line_round_trip:
  "(let ((res, ts), c') = Client_Put key val s c
    in parse_transaction (fst (writeRequest t0 t1 key val s c)) =
      Some \<lparr>start_time = t0 div 1000, end_time = t1 div 1000, is_write = True, key_code = bytes_code key,
        value_code = bytes_code val, stamp = nat_digits (unat ts), outcome = res\<rparr>) \<and>
   (let ((v, ts, ok), c') = Client_Get key s c
    in parse_transaction (fst (readRequest t0 t1 key s c)) =
      Some \<lparr>start_time = t0 div 1000, end_time = t1 div 1000, is_write = False, key_code = bytes_code key,
        value_code = bytes_code v, stamp = nat_digits (unat ts), outcome = (if ok then Success else Error)\<rparr>)"
proof -
  obtain res ts c' where w: "Client_Put key val s c = ((res, ts), c')" by (metis prod.collapse)
  obtain v tr ok c'' where r: "Client_Get key s c = ((v, tr, ok), c'')" by (metis prod.collapse)
  have "parse_transaction (fst (writeRequest t0 t1 key val s c)) =
      Some \<lparr>start_time = t0 div 1000, end_time = t1 div 1000, is_write = True, key_code = bytes_code key,
        value_code = bytes_code val, stamp = nat_digits (unat ts), outcome = res\<rparr>"
    unfolding parse_writeRequest [OF w] fst_conv by (rule parse_line) simp_all
  moreover have "parse_transaction (fst (readRequest t0 t1 key s c)) =
      Some \<lparr>start_time = t0 div 1000, end_time = t1 div 1000, is_write = False, key_code = bytes_code key,
        value_code = bytes_code v, stamp = nat_digits (unat tr), outcome = (if ok then Success else Error)\<rparr>"
    unfolding parse_readRequest [OF r] fst_conv by (rule parse_line) (cases ok; simp)+
  ultimately show ?thesis by (simp add: w r)
qed

end
