(* ===== verification/Props_Stale.thy ===== *)
theory Props_Stale
  imports Props_Clash
begin

text \<open>
  A run of the cluster with the default options (five nodes, strict quorums of three) in which a
  client reads a key after its write has been acknowledged and gets the value from before it. The
  only irregularity is a request that is resent, as every request is, and answered twice.
\<close>

text \<open>The write of \<open>clash_first\<close>, up to the answer of the client.\<close>

definition stale_write :: "cluster_event list" where
  "stale_write = becomes_leader 1 @ [Ask (clash_request 1 1)] @ hop 1 1 2 @
     round_trip 1 0 (0, 0) @ round_trip 1 1 (4, 0) @
     (Resend 1 2 # hop (-1) 1 2) @ round_trip 1 2 (0, 0) @ round_trip 1 3 (4, 0) @
     round_trip 1 4 (0, 1) @ hop 1 0 0 @ [Route 1 2]"

text \<open>Node 3 serves the read with the nodes 2 and 4. The write's answer stays at place 0 of \<open>net\<close>.\<close>

definition stale_hop :: "int \<Rightarrow> cluster_event list" where
  "stale_hop i = [Route i 0, Receive ((clash_env 3)\<lparr>leaderAnswer := -1\<rparr>) 1]"

definition stale_request :: Message where
  "stale_request = zeroMessage\<lparr>Id' := 2, Src := 5, Dest := 3, DemuxKey := ClientReadRequest, Key := Some [7], Ok := True\<rparr>"

definition stale_read :: "cluster_event list" where
  "stale_read = Ask stale_request # stale_hop 3 @ (Resend 3 0 # stale_hop 3) @ stale_hop 2 @
     (Resend 3 1 # stale_hop 3) @ stale_hop 4 @ [Route 3 0]"

lemma stale_run:
  "map_option (\<lambda>c1. (map (\<lambda>m. (DemuxKey m, Ok m, Key m, Timestamp m)) (net c1), map Id' (asked c1),
       map_option (\<lambda>c2. map (\<lambda>m. (DemuxKey m, Id' m, Ok m, Key m, Timestamp m)) (tl (net c2)))
         (cluster_run 5 stale_read c1)))
     (cluster_run 5 stale_write (cluster_init (\<lambda>_. []) 5 3 3 False)) =
   Some ([(ClientWriteResponse, True, Some [7], 1)], [1],
     Some [(ClientReadResponse, 2, True, Some [7], 0)])"
  by code_simp

lemma stale_random: "\<forall>ev \<in> set (stale_write @ stale_read). random_ok 5 ev"
proof -
  have "chance 5 ((clash_env 3)\<lparr>leaderAnswer := -1\<rparr>)"
    by (auto simp: chance_def clash_env_def plain_env_def)
  then show ?thesis
    by (simp add: stale_write_def stale_read_def stale_hop_def becomes_leader_def round_trip_def hop_def clash_chance
        random_ok_def)
qed

lemma default_Simulate:
  "\<exists>s. Simulate (\<lambda>_. []) (main_options []) = Inr s \<and> sim_cluster s = cluster_init (\<lambda>_. []) 5 3 3 False"
proof -
  have "check_options (main_options []) = Inr ()" by code_simp
  from Simulate_memory [OF this, of "\<lambda>_. []"] show ?thesis
    by (simp add: main_options_def main_defaults_def sloppyQuorum_def)
qed

text \<open>C12: an acknowledged write can be missing from a later read. The cluster of the default options,
  in which the quorums meet, reaches a state in which a client has been told that its write has
  succeeded, and from there a state in which a read of the key that was asked after that answer
  succeeds with an older timestamp.\<close>

theorem acknowledged_write_not_read:
  "\<exists>s c1 c2 w r. Simulate (\<lambda>_. []) (main_options []) = Inr s \<and>
     cluster_reach 5 (sim_cluster s) c1 \<and> w \<in> set (net c1) \<and> DemuxKey w = ClientWriteResponse \<and> Ok w \<and>
     cluster_reach 5 c1 c2 \<and> r \<in> set (net c2) \<and> DemuxKey r = ClientReadResponse \<and> Ok r \<and>
     Id' r \<notin> Id' ` set (asked c1) \<and> Key r = Key w \<and> Timestamp r < Timestamp w"
proof -
  obtain s where s: "Simulate (\<lambda>_. []) (main_options []) = Inr s"
    "sim_cluster s = cluster_init (\<lambda>_. []) 5 3 3 False"
    using default_Simulate by blast
  obtain c1 c2 where c1: "cluster_run 5 stale_write (cluster_init (\<lambda>_. []) 5 3 3 False) = Some c1"
    "map (\<lambda>m. (DemuxKey m, Ok m, Key m, Timestamp m)) (net c1) = [(ClientWriteResponse, True, Some [7], 1)]"
    "map Id' (asked c1) = [1]"
    and c2: "cluster_run 5 stale_read c1 = Some c2"
    "map (\<lambda>m. (DemuxKey m, Id' m, Ok m, Key m, Timestamp m)) (tl (net c2)) =
      [(ClientReadResponse, 2, True, Some [7], 0)]"
    using stale_run by auto
  have rnd: "\<forall>ev \<in> set stale_write. random_ok 5 ev" "\<forall>ev \<in> set stale_read. random_ok 5 ev"
    using stale_random by simp_all
  have "cluster_reach 5 (sim_cluster s) c1"
    unfolding s(2) by (rule cluster_run_reach [OF c1(1) rnd(1) reach_init])
  moreover have "cluster_reach 5 c1 c2" by (rule cluster_run_reach [OF c2(1) rnd(2) reach_init])
  moreover obtain w where "net c1 = [w]" using c1(2) by auto
  moreover obtain r where "tl (net c2) = [r]" using c2(2) by auto
  then have "r \<in> set (net c2)" by (cases "net c2") simp_all
  moreover have "Id' ` set (asked c1) = {1}" using arg_cong [OF c1(3), of set] by simp
  ultimately show ?thesis using s(1) c1(2) c2(2) \<open>tl (net c2) = [r]\<close>
    by (intro exI [of _ s] exI [of _ c1] exI [of _ c2] exI [of _ w] exI [of _ r]) simp
qed

end
