(* ===== verification/Props_Twice.thy ===== *)
theory Props_Twice
  imports Props_Manager
begin

text \<open>
  A run of a cluster of three in which the overwriting of a queued request makes the leader
  execute a client's write a second time. No message is lost or delivered twice, and no node
  fails.
\<close>

definition twice_env :: "int list \<Rightarrow> int \<Rightarrow> env" where
  "twice_env ps l = plain_env\<lparr>leaderAnswer := l, peersPerm := ps\<rparr>"

definition twice_request :: "int \<Rightarrow> Messagetype \<Rightarrow> Message" where
  "twice_request i k = zeroMessage\<lparr>Id' := i, Src := 3, Dest := 2, DemuxKey := k, Key := Some [7],
     Value := Some [9], Ok := True\<rparr>"

text \<open>Message \<open>k\<close> of the channel of \<open>i\<close> is delivered, to a node whose peers are permuted by \<open>ps\<close>.\<close>

definition twice_hop :: "int list \<Rightarrow> int \<Rightarrow> int \<Rightarrow> nat \<Rightarrow> cluster_event list" where
  "twice_hop ps l i k = [Route i k, Receive (twice_env ps l) 0]"

definition twice_ask :: "int \<Rightarrow> Messagetype \<Rightarrow> cluster_event list" where
  "twice_ask i k = Ask (twice_request i k) # twice_hop [0, 1] 2 2 3"

text \<open>
  Node 2 becomes the leader. It serves read 1, write 2 queues behind it, read 1 times out, and
  read 3 arrives: write 2 is written into the variable of read 3, which stays in the queue.
\<close>

definition twice_first :: "cluster_event list" where
  "twice_first = [Ring_start 1 100, Ring_timer 1 100000000 0] @ twice_hop [0, 1] (-1) 1 0 @
     [Ring_start 2 100, Call 2 100000000 0] @
     twice_ask 1 ClientReadRequest @ twice_ask 2 ClientWriteRequest @ [Lock_timer 2 (twice_env [0, 1] 2) 0] @
     twice_ask 3 ClientReadRequest"

text \<open>A request of node 2 to node \<open>j\<close> and its answer.\<close>

definition twice_trip :: "int list \<Rightarrow> nat \<Rightarrow> nat \<Rightarrow> int \<Rightarrow> cluster_event list" where
  "twice_trip ps t k j = Resend 2 t # twice_hop [0, 1] (-1) 2 k @ twice_hop ps 2 j 0"

text \<open>Write 2 is executed with node 0, and then with node 1.\<close>

definition twice_second :: "cluster_event list" where
  "twice_second = twice_trip [0, 1] 2 3 0 @ twice_trip [0, 1] 3 3 0 @ twice_trip [1, 0] 4 3 0 @
     twice_trip [1, 0] 6 4 1 @ twice_trip [1, 0] 7 4 1 @ twice_trip [1, 0] 8 4 1 @ [Route 2 4, Route 2 3]"

lemma twice_run:
  "map_option (\<lambda>c. (map (\<lambda>m. (DemuxKey m, Id' m, Ok m, Timestamp m)) (net c), map Id' (asked c)))
     (cluster_run 3 (twice_first @ twice_second) (cluster_init (\<lambda>_. []) 3 2 2 False)) =
   Some ([(ClientWriteResponse, 2, True, 2), (ClientWriteResponse, 2, True, 1)], [1, 2, 3])"
  by code_simp

lemma twice_random: "\<forall>ev \<in> set (twice_first @ twice_second). random_ok 3 ev"
proof -
  have "chance 3 (twice_env [0, 1] l)" "chance 3 (twice_env [1, 0] l)" for l
    by (auto simp: chance_def twice_env_def plain_env_def)
  then show ?thesis
    by (simp add: twice_first_def twice_second_def twice_ask_def twice_trip_def twice_hop_def random_ok_def)
qed


end
