(* ===== verification/Twin_Store.thy ===== *)
theory Twin_Store
  imports Datastore
begin

text \<open>
  The two implementations of a store beside each other. As long as no system call fails and MD5
  separates the keys in use, the page files and the trie go through the same states: every
  operation gives the same result on both, staged writes included. \<open>alike\<close> is the relation
  between them; each operation keeps it.
\<close>

section \<open>Names of pages and of transactions\<close>

lemma hex_digit_inj: "a < 16 \<Longrightarrow> b < 16 \<Longrightarrow> hex_digit a = hex_digit b \<Longrightarrow> a = (b :: byte)"
proof -
  assume ab: "a < 16" "b < 16" and h: "hex_digit a = hex_digit b"
  have u: "unat (hex_digit x) = (if unat x < 10 then 48 + unat x else 87 + unat x)" if "x < 16" for x :: byte
  proof -
    have "unat x < 16" using that by (simp add: word_less_nat_alt)
    then show ?thesis
      by (auto simp: hex_digit_def word_less_nat_alt unat_word_ariths)
  qed
  have "unat a < 16" "unat b < 16" using ab by (simp_all add: word_less_nat_alt)
  with u [OF ab(1)] u [OF ab(2)] h have "unat a = unat b" by (auto split: if_splits)
  then show "a = b" by (simp add: word_unat_eq_iff)
qed

lemma nibbles_inj:
  assumes "drop_bit 4 a = drop_bit 4 b" "a AND 15 = b AND (15 :: byte)"
  shows "a = b"
proof (rule bit_eqI)
  fix i
  have m: "(15 :: byte) = mask 4" by (simp add: mask_eq_exp_minus_1)
  show "bit a i = bit b i"
  proof (cases "i < 4")
    case True
    have "bit (a AND 15) i = bit (b AND 15) i" using assms(2) by simp
    with True show ?thesis by (simp add: m bit_simps)
  next
    case False
    have "bit (drop_bit 4 a) (i - 4) = bit (drop_bit 4 b) (i - 4)" using assms(1) by simp
    with False show ?thesis by (simp add: bit_simps)
  qed
qed

lemma hex_inj: "hex_EncodeToString xs = hex_EncodeToString ys \<Longrightarrow> xs = ys"
proof (induction xs arbitrary: ys)
  case Nil
  then show ?case by (cases ys) (simp_all add: hex_EncodeToString_def)
next
  case (Cons x xs)
  then obtain y zs where y: "ys = y # zs" by (cases ys) (auto simp: hex_EncodeToString_def)
  have "hex_digit (drop_bit 4 x) = hex_digit (drop_bit 4 y)" "hex_digit (x AND 15) = hex_digit (y AND 15)"
    "hex_EncodeToString xs = hex_EncodeToString zs"
    using Cons.prems by (simp_all add: y hex_EncodeToString_def)
  with Cons.IH hex_digit_inj [OF nibble_lt_16(1) nibble_lt_16(1)] hex_digit_inj [OF nibble_lt_16(2) nibble_lt_16(2)]
    nibbles_inj [of x y] show ?case by (simp add: y)
qed

lemma tx_name_inj [simp]: "tx_name i = tx_name j \<longleftrightarrow> i = j"
proof
  have "in_int64 (sint x)" for x :: "64 word"
    using sint_ge [of x] sint_lt [of x] by (simp add: in_int64_def)
  moreover assume "tx_name i = tx_name j"
  ultimately have "sint i = sint j" using itoa_inj [of "sint i" "sint j"] by (simp add: tx_name_def)
  then show "i = j" by (rule signed_word_eqI)
qed simp

text \<open>The keys in use have pages of their own, and fit.\<close>

definition hashes :: "(byte list \<Rightarrow> byte list) \<Rightarrow> byte list set \<Rightarrow> bool" where
  "hashes h K \<longleftrightarrow> inj_on h K \<and> (\<forall>k \<in> K. small k)"

lemma page_name_inj:
  assumes "hashes (md5 d) K" "k \<in> K" "k' \<in> K"
  shows "page_name d k = page_name d k' \<longleftrightarrow> k = k'"
proof
  assume "page_name d k = page_name d k'"
  then have "md5 d k = md5 d k'" using hex_inj by (simp add: page_name_def)
  with assms show "k = k'" by (simp add: hashes_def inj_on_def)
qed simp

section \<open>The relation\<close>

definition alike :: "byte list set \<Rightarrow> nat \<Rightarrow> memstore \<Rightarrow> persistentstore \<Rightarrow> bool" where
  "alike K b s d \<longleftrightarrow> hashes (md5 d) K \<and> ptxid d = txid s \<and> unat (txid s) \<le> b \<and>
     (\<forall>k \<in> K. files d (page_name d k) = map_option (\<lambda>v. print_page [(k, v)]) (trie_get (root s) k)) \<and>
     (\<forall>i. files d (tx_name i) = map_option (\<lambda>p. print_page [(raw (pkey p), raw (pvalue p))]) (uncommitted s i)) \<and>
     (\<forall>k \<in> K. \<forall>v. trie_get (root s) k = Some v \<longrightarrow> small v) \<and>
     (\<forall>i p. uncommitted s i = Some p \<longrightarrow>
        i \<noteq> 0 \<and> unat i \<le> unat (txid s) \<and> raw (pkey p) \<in> K \<and> pvalue p \<noteq> None \<and> small (raw (pvalue p)))"

lemma alike_mono: "alike K b s d \<Longrightarrow> b \<le> b' \<Longrightarrow> alike K b' s d"
  unfolding alike_def by (meson le_trans)

lemma alike_new:
  assumes "hashes h K"
  shows "alike K 0 new_memstore (new_persistentstore h)"
  using assms by (simp add: alike_def new_memstore_def new_persistentstore_def)

lemma page_ok_single: "small k \<Longrightarrow> small v \<Longrightarrow> page_ok [(k, v)]"
  by (simp add: page_ok_def)

lemma alike_Get:
  assumes "alike K b s d" "raw k \<in> K"
  shows "persistent_Get no_fault d k = Inr (memstore_Get s k)"
proof (cases "trie_get (root s) (raw k)")
  case None
  with assms show ?thesis by (simp add: alike_def persistent_Get_def memstore_Get_def)
next
  case (Some v)
  then have ok: "page_ok [(raw k, v)]" using assms by (auto simp: alike_def hashes_def intro: page_ok_single)
  with scan_print_page [OF ok, of "raw k"] Some assms show ?thesis
    by (simp add: alike_def persistent_Get_def memstore_Get_def no_fault_def)
qed

text \<open>What a \<open>Put\<close> without faults writes when the page of the key holds nothing else.\<close>

lemma Put_single:
  assumes "files d (page_name d (raw k)) = map_option (\<lambda>x. print_page [(raw k, x)]) old"
    and "\<And>x. old = Some x \<Longrightarrow> page_ok [(raw k, x)]"
  shows "persistent_Put no_fault d k v =
    Inr (d\<lparr>ptxid := next_txid (ptxid d), files := (files d)
      (tx_name (next_txid (ptxid d)) \<mapsto> print_page [(raw k, raw v)])\<rparr>, next_txid (ptxid d))"
proof (cases old)
  case None
  with assms(1) show ?thesis
    by (simp add: persistent_Put_def putNew_def Let_def no_fault_def write_page_def print_page_def)
next
  case (Some x)
  obtain w where w: "copy_page no_fault (raw k) (raw v) (print_page [(raw k, x)]) \<lparr>page = [], writes = 0\<rparr> False =
      Inr (w, True, True)" "page w = print_page [(raw k, raw v)]"
    using copy_page_no_fault [OF assms(2) [OF Some], of "raw k" "raw v" "\<lparr>page = [], writes = 0\<rparr>" False] by auto
  have nf: "\<not> read_fails no_fault" "\<not> create_fails no_fault" by (simp_all add: no_fault_def)
  show ?thesis
    using assms(1) Some w by (simp add: persistent_Put_def Let_def nf del: print_page_simps)
qed

lemma next_txid_fits:
  assumes "Suc (unat t) < 2 ^ 63"
  shows "unat (next_txid t) = Suc (unat t)" "0 <s next_txid t"
proof -
  have "unat (t + 1) = (unat t + 1) mod 2 ^ 64" by (simp add: unat_word_ariths)
  also have "\<dots> = Suc (unat t)" using assms by simp
  finally have u: "unat (t + 1) = Suc (unat t)" .
  then have "t + 1 \<noteq> 0" by (metis nat.distinct(1) unat_0)
  with u show 1: "unat (next_txid t) = Suc (unat t)" by (simp add: next_txid_def)
  define x where "x = next_txid t"
  have "uint x = int (Suc (unat t))" using 1 by (simp only: x_def uint_nat)
  moreover have "Suc (unat t) < 9223372036854775808" using assms by simp
  ultimately have pos: "0 < uint x" and "uint x < 9223372036854775808" by linarith+
  then have "signed_take_bit 63 (uint x) = uint x" by (intro signed_take_bit_int_eq_self) simp_all
  then have "sint x = uint x" by (simp add: sint_uint)
  with pos have "0 <s x" by (simp add: word_sless_alt)
  then show "0 <s next_txid t" by (simp add: x_def)
qed

lemma alike_Put:
  assumes "alike K b s d" "raw k \<in> K" "v \<noteq> None" "small (raw v)" "Suc b < 2 ^ 63"
  obtains s' d' i where "memstore_Put s k v = (s', i)" "persistent_Put no_fault d k v = Inr (d', i)"
    "alike K (Suc b) s' d'" "uncommitted s' = (uncommitted s)(i \<mapsto> \<lparr>pkey = k, pvalue = v\<rparr>)"
    "i \<notin> dom (uncommitted s)" "0 <s i" "i \<noteq> 0"
proof -
  note a = assms(1) [unfolded alike_def]
  let ?i = "next_txid (txid s)"
  let ?s = "s\<lparr>txid := ?i, uncommitted := (uncommitted s)(?i \<mapsto> \<lparr>pkey = k, pvalue = v\<rparr>)\<rparr>"
  let ?d = "d\<lparr>ptxid := ?i, files := (files d)(tx_name ?i \<mapsto> print_page [(raw k, raw v)])\<rparr>"
  have u: "unat ?i = Suc (unat (txid s))" "0 <s ?i"
    using a assms(5) next_txid_fits [of "txid s"] by simp_all
  have new: "?i \<notin> dom (uncommitted s)" using a u(1) by fastforce
  have "page_ok [(raw k, x)]" if "trie_get (root s) (raw k) = Some x" for x
    using that a assms(2) by (auto simp: hashes_def intro: page_ok_single)
  then have "persistent_Put no_fault d k v = Inr (?d, ?i)"
    using Put_single [of d k "trie_get (root s) (raw k)" v] a assms(2) by (simp del: print_page_simps)
  moreover have "memstore_Put s k v = (?s, ?i)" by (simp add: memstore_Put_def Let_def)
  moreover have "alike K (Suc b) ?s ?d"
    using a u assms(2-4) by (auto simp: alike_def intro: le_SucI simp del: print_page_simps)
  ultimately show thesis using that [of ?s ?i ?d] new u(2) by simp
qed

lemma alike_Commit:
  assumes "alike K b s d" "uncommitted s i = Some p" "pkey p = k"
  obtains s' d' where "memstore_Commit s k i = (s', True)" "persistent_Commit no_fault d k i = (d', True)"
    "alike K b s' d'" "uncommitted s' = (uncommitted s)(i := None)"
proof -
  note a = assms(1) [unfolded alike_def]
  let ?s = "s\<lparr>root := trie_insert (raw k) (pvalue p) (root s), uncommitted := (uncommitted s)(i := None)\<rparr>"
  let ?d = "d\<lparr>files := ((files d)(tx_name i := None))(page_name d (raw k) \<mapsto> print_page [(raw k, raw (pvalue p))])\<rparr>"
  have p: "raw k \<in> K" "small (raw (pvalue p))" "pvalue p \<noteq> None" using a assms(2,3) by auto
  then obtain v where v: "pvalue p = Some v" by blast
  have "memstore_Commit s k i = (?s, True)" using assms(2,3) by (simp add: memstore_Commit_def)
  moreover have "persistent_Commit no_fault d k i = (?d, True)"
    using a assms(2,3) by (simp add: persistent_Commit_def no_fault_def del: print_page_simps)
  moreover have "alike K b ?s ?d"
    unfolding alike_def using a p v page_name_inj [of d K _ "raw k"]
    by (auto simp: trie_get_insert simp del: print_page_simps)
  ultimately show thesis using that [of ?s ?d] by simp
qed

lemma alike_Rollback:
  assumes "alike K b s d"
  shows "alike K b (memstore_Rollback s i) (persistent_Rollback no_fault d i)"
  using assms by (auto simp: alike_def memstore_Rollback_def persistent_Rollback_def no_fault_def simp del: print_page_simps)

end
