(* ===== verification/Dbnode_Twin.thy ===== *)
theory Dbnode_Twin
  imports Twin_Store Dbnode_Delivery
begin

text \<open>
  Two nodes that differ in their store only, one in memory and one on disk: every handler of the
  main loop does the same on both. \<open>twin\<close> relates their states, \<open>twins\<close> the results of an
  operation, crashes included.
\<close>

section \<open>The relation\<close>

definition sound :: "env \<Rightarrow> bool" where
  "sound e \<longleftrightarrow> getIO e = no_fault \<and> putIO e = no_fault \<and> commitIO e = no_fault \<and> rollbackIO e = no_fault"

text \<open>The write a node holds open is staged in its store under its key.\<close>

definition pending :: "memstore \<Rightarrow> Dbnode \<Rightarrow> bool" where
  "pending s n \<longleftrightarrow> (uncommitedTxid n \<noteq> 0 \<longrightarrow>
     (\<exists>p. uncommitted s (uncommitedTxid n) = Some p \<and> pkey p = uncommitedKey n))"

text \<open>The marker of a write's next step agrees with its mode: a commit has a write to commit.\<close>

definition marked :: "Dbnode \<Rightarrow> bool" where
  "marked n \<longleftrightarrow>
     (currentMode n = assemblingQuorum \<longrightarrow> DemuxKey (member n (dbid n)) \<noteq> NodeUnlockRequest) \<and>
     (currentMode n = coordinatingWrite \<and> DemuxKey (member n (dbid n)) = NodeUnlockRequest \<longrightarrow> uncommitedTxid n \<noteq> 0)"

definition twin :: "byte list set \<Rightarrow> nat \<Rightarrow> Dbnode \<Rightarrow> Dbnode \<Rightarrow> bool" where
  "twin K b n m \<longleftrightarrow> (\<exists>s d. dstore n = Mem s \<and> m = n\<lparr>dstore := Disk d\<rparr> \<and> alike K b s d \<and> pending s n \<and> marked n)"

definition twins :: "byte list set \<Rightarrow> nat \<Rightarrow> Dbnode res \<Rightarrow> Dbnode res \<Rightarrow> bool" where
  "twins K b r r' \<longleftrightarrow> (\<exists>e. r = Inl e \<and> r' = Inl e) \<or> (\<exists>n m. r = Inr n \<and> r' = Inr m \<and> twin K b n m)"

lemma twins_simps [simp]:
  "twins K b (Inl e) (Inl e)" "twins K b (Inr n) (Inr m) = twin K b n m"
  by (simp_all add: twins_def)

lemma twins_bind:
  assumes "twins K b r r'" "\<And>n m. r = Inr n \<Longrightarrow> twin K b n m \<Longrightarrow> twins K b' (f n) (f m)"
  shows "twins K b' (bind_res r f) (bind_res r' f)"
proof -
  from assms(1) consider e where "r = Inl e" "r' = Inl e" | n m where "r = Inr n" "r' = Inr m" "twin K b n m"
    by (auto simp: twins_def)
  then show ?thesis using assms(2) by cases simp_all
qed

lemma twins_if: "(P \<Longrightarrow> twins K b r r') \<Longrightarrow> (\<not> P \<Longrightarrow> twins K b t t') \<Longrightarrow> twins K b (if P then r else t) (if P then r' else t')"
  by simp

lemma twinE:
  assumes "twin K b n m"
  obtains s d where "dstore n = Mem s" "m = n\<lparr>dstore := Disk d\<rparr>" "alike K b s d" "pending s n" "marked n"
  using assms unfolding twin_def by blast

lemma twinI:
  assumes "alike K b s d" "dstore n = Mem s" "m = n\<lparr>dstore := Disk d\<rparr>" "pending s n" "marked n"
  shows "twin K b n m"
  using assms unfolding twin_def by blast

lemma twin_mono: "twin K b n m \<Longrightarrow> b \<le> b' \<Longrightarrow> twin K b' n m"
  by (erule twinE) (rule twinI [OF alike_mono])

lemma twins_mono: "twins K b r r' \<Longrightarrow> b \<le> b' \<Longrightarrow> twins K b' r r'"
  using twin_mono by (fastforce simp: twins_def)

text \<open>What does not touch the store, the open write or the quorum keeps the relation.\<close>

named_theorems twin_frame \<open>updates on both nodes\<close>

lemma twin_map:
  assumes "twin K b n m" "\<And>st. f (n\<lparr>dstore := st\<rparr>) = (f n)\<lparr>dstore := st\<rparr>"
    and "dstore (f n) = dstore n" "uncommitedTxid (f n) = uncommitedTxid n" "uncommitedKey (f n) = uncommitedKey n"
    and "marked n \<Longrightarrow> marked (f n)"
  shows "twin K b (f n) (f m)"
  using assms(1)
proof (rule twinE)
  fix s d
  assume d: "dstore n = Mem s" "m = n\<lparr>dstore := Disk d\<rparr>" "alike K b s d" "pending s n" "marked n"
  show ?thesis by (rule twinI [OF d(3)]) (use assms d in \<open>simp_all add: pending_def\<close>)
qed

lemma twin_upd [twin_frame]:
  assumes "twin K b n m"
  shows "twin K b (n\<lparr>Outgoing := out\<rparr>) (m\<lparr>Outgoing := out\<rparr>)"
    "twin K b (n\<lparr>requestRepeater := r\<rparr>) (m\<lparr>requestRepeater := r\<rparr>)"
    "twin K b (n\<lparr>currentTxid := t\<rparr>) (m\<lparr>currentTxid := t\<rparr>)"
    "twin K b (n\<lparr>clientRequest := c\<rparr>) (m\<lparr>clientRequest := c\<rparr>)"
    "twin K b (n\<lparr>numWaitingNodes := w\<rparr>) (m\<lparr>numWaitingNodes := w\<rparr>)"
    "twin K b (n\<lparr>backgroundWriteDaemon := p\<rparr>) (m\<lparr>backgroundWriteDaemon := p\<rparr>)"
    "twin K b (n\<lparr>unlockTxids := us\<rparr>) (m\<lparr>unlockTxids := us\<rparr>)"
    "twin K b (n\<lparr>disabled := x\<rparr>) (m\<lparr>disabled := x\<rparr>)"
    "twin K b (n\<lparr>internalTimer := ts\<rparr>) (m\<lparr>internalTimer := ts\<rparr>)"
    "twin K b (n\<lparr>electorCalls := cs\<rparr>) (m\<lparr>electorCalls := cs\<rparr>)"
    "twin K b (n\<lparr>stateQueryRes := qs\<rparr>) (m\<lparr>stateQueryRes := qs\<rparr>)"
    "twin K b (n\<lparr>timeoutCounter := tc\<rparr>) (m\<lparr>timeoutCounter := tc\<rparr>)"
    "twin K b (n\<lparr>cells := h\<rparr>) (m\<lparr>cells := h\<rparr>)"
    "twin K b (n\<lparr>lockTimers := lt\<rparr>) (m\<lparr>lockTimers := lt\<rparr>)"
    "twin K b (n\<lparr>lockRequests := q\<rparr>) (m\<lparr>lockRequests := q\<rparr>)"
    "twin K b (to_idle n) (to_idle m)"
  by (rule twin_map [OF assms]; simp add: marked_def member_def memberList_def to_idle_def)+

lemma twin_fields:
  assumes "twin K b n m"
  shows "dbid m = dbid n" "numPeers m = numPeers n" "readQuorumSize m = readQuorumSize n"
    "writeQuorumSize m = writeQuorumSize n" "Outgoing m = Outgoing n" "currentMode m = currentMode n"
    "currentTxid m = currentTxid n" "lockRequests m = lockRequests n" "clientRequest m = clientRequest n"
    "quorumMembers m = quorumMembers n" "numWaitingNodes m = numWaitingNodes n"
    "requestRepeater m = requestRepeater n" "backgroundWriteDaemon m = backgroundWriteDaemon n"
    "uncommitedTxid m = uncommitedTxid n" "uncommitedKey m = uncommitedKey n" "unlockTxids m = unlockTxids n"
    "disabled m = disabled n" "internalTimer m = internalTimer n" "electorCalls m = electorCalls n"
    "stateQueryRes m = stateQueryRes n" "timeoutCounter m = timeoutCounter n" "cells m = cells n"
    "lockTimers m = lockTimers n" "memberList m = memberList n" "member m k = member n k"
    "range_members e l m = range_members e l n"
proof -
  obtain d where "m = n\<lparr>dstore := Disk d\<rparr>" using assms by (rule twinE)
  then show "dbid m = dbid n" "numPeers m = numPeers n" "readQuorumSize m = readQuorumSize n"
    "writeQuorumSize m = writeQuorumSize n" "Outgoing m = Outgoing n" "currentMode m = currentMode n"
    "currentTxid m = currentTxid n" "lockRequests m = lockRequests n" "clientRequest m = clientRequest n"
    "quorumMembers m = quorumMembers n" "numWaitingNodes m = numWaitingNodes n"
    "requestRepeater m = requestRepeater n" "backgroundWriteDaemon m = backgroundWriteDaemon n"
    "uncommitedTxid m = uncommitedTxid n" "uncommitedKey m = uncommitedKey n" "unlockTxids m = unlockTxids n"
    "disabled m = disabled n" "internalTimer m = internalTimer n" "electorCalls m = electorCalls n"
    "stateQueryRes m = stateQueryRes n" "timeoutCounter m = timeoutCounter n" "cells m = cells n"
    "lockTimers m = lockTimers n" "memberList m = memberList n" "member m k = member n k"
    "range_members e l m = range_members e l n"
    by (simp_all add: memberList_def member_def range_members_def)
qed

section \<open>Sending\<close>

text \<open>A message whose contents the store does not enter.\<close>

definition store_free :: "(Dbnode \<Rightarrow> int \<Rightarrow> Message \<Rightarrow> Message) \<Rightarrow> bool" where
  "store_free mk \<longleftrightarrow> (\<forall>n st. mk (n\<lparr>dstore := st\<rparr>) = mk n)"

lemma store_free_msgs [simp]:
  "store_free (unlock_msg b)" "store_free timestamp_request_msg" "store_free (put_request_msg ts)"
  by (simp_all add: store_free_def fun_eq_iff unlock_msg_def timestamp_request_msg_def put_request_msg_def)

lemma range_members_store [simp]: "range_members e l (n\<lparr>dstore := st\<rparr>) = range_members e l n"
  by (simp add: range_members_def memberList_def)

definition restore :: "Store \<Rightarrow> Dbnode res \<Rightarrow> Dbnode res" where
  "restore st r = bind_res r (\<lambda>n. Inr (n\<lparr>dstore := st\<rparr>))"

lemma twin_emit [twin_frame]: "twin K b n m \<Longrightarrow> twin K b (emit u n) (emit u m)"
  by (simp add: emit_def twin_frame twin_fields)

lemma twin_ack [twin_frame]: "twin K b n m \<Longrightarrow> twin K b (repeat_ack u n) (repeat_ack u m)"
  by (simp add: repeat_ack_def twin_frame twin_fields)

lemma repeat_send_store: "repeat_send u x (n\<lparr>dstore := st\<rparr>) = restore st (repeat_send u x n)"
  by (cases "Repeater_Send (requestRepeater n) u x") (simp_all add: repeat_send_def restore_def)

lemma twins_send: "twin K b n m \<Longrightarrow> twins K b (repeat_send u x n) (repeat_send u x m)"
  by (cases "Repeater_Send (requestRepeater n) u x") (simp_all add: repeat_send_def twin_fields twin_frame)

lemma fold_store:
  assumes "\<And>x n. f x (n\<lparr>dstore := st\<rparr>) = restore st (f x n)"
  shows "fold_res f xs (n\<lparr>dstore := st\<rparr>) = restore st (fold_res f xs n)"
proof (induction xs arbitrary: n)
  case (Cons x xs)
  then show ?case by (cases "f x n") (simp_all add: assms restore_def)
qed (simp add: restore_def)

lemma send_members_store:
  assumes "store_free mk"
  shows "send_members e l mk u (n\<lparr>dstore := st\<rparr>) = restore st (send_members e l mk u n)"
  unfolding send_members_def range_members_store
  by (rule fold_store) (use assms in \<open>auto simp: store_free_def repeat_send_store restore_def\<close>)

lemma send_members_same:
  assumes "send_members e l mk u n = Inr n'"
  shows "\<exists>r. n' = n\<lparr>requestRepeater := r\<rparr>"
  using assms [unfolded send_members_def]
proof (rule fold_res_invariant)
  show "\<exists>r. n = n\<lparr>requestRepeater := r\<rparr>" by (rule exI [of _ "requestRepeater n"]) simp
qed (auto simp: repeat_send_def split: if_splits)

text \<open>Setting a member is not a change of the marker unless it is the node's own entry.\<close>

lemma member_update:
  "quorumMembers n = Some ms \<Longrightarrow>
    member (n\<lparr>quorumMembers := Some (AList.update k u ms)\<rparr>) i = (if i = k then u else member n i)"
  by (simp add: member_def memberList_def)

lemma twins_set_member:
  assumes "twin K b n m" "DemuxKey u = NodeUnlockRequest \<Longrightarrow> k \<noteq> dbid n \<or> currentMode n = coordinatingWrite \<and> uncommitedTxid n \<noteq> 0"
  shows "twins K b (set_member k u n) (set_member k u m)"
proof (cases "quorumMembers n")
  case (Some ms)
  have "marked (n\<lparr>quorumMembers := Some (AList.update k u ms)\<rparr>)" if "marked n"
    using that assms(2) by (auto simp: marked_def member_update [OF Some])
  then have "twin K b (n\<lparr>quorumMembers := Some (AList.update k u ms)\<rparr>) (m\<lparr>quorumMembers := Some (AList.update k u ms)\<rparr>)"
    using assms(1) by (auto elim!: twinE intro: twinI simp: pending_def)
  then show ?thesis using Some by (simp add: set_member_def twin_fields [OF assms(1)])
qed (simp add: set_member_def twin_fields [OF assms(1)])

section \<open>Aborting\<close>

lemma marked_idle [simp]: "marked (to_idle n)"
  by (simp add: marked_def to_idle_def)

lemma twin_rollback:
  assumes "twin K b n m" "sound e" "rollback_uncommitted e n = n'"
  obtains s d where "dstore n' = Mem s" "rollback_uncommitted e m = n'\<lparr>dstore := Disk d\<rparr>" "alike K b s d" "pending s n'"
proof -
  obtain s d where d: "dstore n = Mem s" "m = n\<lparr>dstore := Disk d\<rparr>" "alike K b s d" "pending s n"
    using assms(1) by (rule twinE)
  show thesis
  proof (cases "0 <s uncommitedTxid n")
    case True
    let ?s = "memstore_Rollback s (uncommitedTxid n)" and ?d = "persistent_Rollback no_fault d (uncommitedTxid n)"
    show thesis
      by (rule that [of ?s ?d])
        (use assms(2,3) d True alike_Rollback [OF d(3)] in \<open>auto simp: rollback_uncommitted_def sound_def pending_def\<close>)
  next
    case False
    with d assms(3) that [of s d] show thesis by (simp add: rollback_uncommitted_def)
  qed
qed

text \<open>A transaction ends: the members are told, and the node becomes idle.\<close>

lemma twins_finish:
  assumes "dstore n = Mem s" "m = n\<lparr>dstore := Disk d\<rparr>" "alike K b s d" "pending s n" "store_free mk"
    and "\<And>n st. f (n\<lparr>dstore := st\<rparr>) = (f n)\<lparr>dstore := st\<rparr>"
    and "\<And>n. dstore (f n) = dstore n" "\<And>n. uncommitedTxid (f n) = uncommitedTxid n" "\<And>n. uncommitedKey (f n) = uncommitedKey n"
  shows "twins K b (bind_res (send_members e l mk u n) (\<lambda>n1. Inr (to_idle (f n1))))
    (bind_res (send_members e l mk u m) (\<lambda>n1. Inr (to_idle (f n1))))"
proof (cases "send_members e l mk u n")
  case (Inl c)
  then show ?thesis by (simp add: assms(2) send_members_store [OF assms(5)] restore_def)
next
  case (Inr n1)
  then obtain r where r: "n1 = n\<lparr>requestRepeater := r\<rparr>" using send_members_same by blast
  have "twin K b (to_idle (f n1)) (to_idle (f (n1\<lparr>dstore := Disk d\<rparr>)))"
    by (rule twinI [OF assms(3)]) (use assms(1,4,6-9) r in \<open>simp_all add: to_idle_def pending_def marked_def\<close>)
  with Inr show ?thesis by (simp add: assms(2) send_members_store [OF assms(5)] restore_def)
qed

lemma twins_abort:
  assumes "twin K b n m" "sound e"
  shows "twins K b (abortProcessing e n) (abortProcessing e m)"
proof -
  obtain s d where d: "dstore (rollback_uncommitted e n) = Mem s"
    "rollback_uncommitted e m = (rollback_uncommitted e n)\<lparr>dstore := Disk d\<rparr>" "alike K b s d"
    "pending s (rollback_uncommitted e n)"
    by (rule twin_rollback [OF assms refl])
  show ?thesis
    unfolding abortProcessing_def
    by (rule twins_finish [OF d]) (simp_all add: abort_answer_def emit_def)
qed

section \<open>Coordination\<close>

lemma set_member_store: "set_member k u (n\<lparr>dstore := st\<rparr>) = restore st (set_member k u n)"
  by (cases "quorumMembers n") (simp_all add: set_member_def restore_def)

lemma add_peer_store: "add_peer k p (n\<lparr>dstore := st\<rparr>) = restore st (add_peer k p n)"
proof -
  have "bind_res (set_member i u (n\<lparr>dstore := st\<rparr>)) (repeat_send u False) =
      restore st (bind_res (set_member i u n) (repeat_send u False))" for i u
    by (cases "set_member i u n") (simp_all add: set_member_store restore_def repeat_send_store)
  then show ?thesis by (simp add: add_peer_def Let_def)
qed

lemma assembleQuorum_store: "assembleQuorum e qs k (n\<lparr>dstore := st\<rparr>) = restore st (assembleQuorum e qs k n)"
proof -
  let ?ps = "take (nat (qs - 1)) (peersPerm e)"
  have swap: "n\<lparr>dstore := st, quorumMembers := Some []\<rparr> = n\<lparr>quorumMembers := Some [], dstore := st\<rparr>" by simp
  have "fold_res (add_peer k) ?ps (n\<lparr>dstore := st, quorumMembers := Some []\<rparr>) =
      restore st (fold_res (add_peer k) ?ps (n\<lparr>quorumMembers := Some []\<rparr>))"
    unfolding swap by (rule fold_store) (rule add_peer_store)
  moreover have "set_member i u (n1\<lparr>dstore := st\<rparr>) = restore st (set_member i u n1)" for i u n1
    by (rule set_member_store)
  ultimately show ?thesis
    by (cases "fold_res (add_peer k) ?ps (n\<lparr>quorumMembers := Some []\<rparr>)")
      (auto simp: assembleQuorum_def restore_def bind_res_def split: sum.splits)
qed

section \<open>The store operations of a node\<close>

text \<open>The requests of the clients have keys in \<open>K\<close> and values that fit on a page.\<close>

definition in_use :: "byte list set \<Rightarrow> world \<Rightarrow> bool" where
  "in_use K W \<longleftrightarrow> (\<forall>c \<in> w_reqs W. raw (Key c) \<in> K \<and> length (raw (Value c)) + 12 < 2 ^ 32)"

lemma in_use_keys:
  assumes "in_use K W"
  shows "asks W c \<Longrightarrow> raw (Key c) \<in> K" "concerns W c \<Longrightarrow> raw (Key c) \<in> K" "known_key W k \<Longrightarrow> raw k \<in> K"
  using assms by (auto simp: in_use_def asks_def concerns_def known_key_def)

lemma in_use_fits:
  assumes "in_use K W" "written W k v"
  shows "small (raw (encodeTimestampVal ts v))"
proof -
  have "length (raw v) + 12 < 2 ^ 32" using assms by (auto simp: in_use_def written_def)
  then show ?thesis by (simp add: small_def encode_length)
qed

lemma twin_Get:
  assumes "twin K b n m" "sound e" "raw k \<in> K"
  shows "Store_Get (getIO e) (dstore m) k = Store_Get (getIO e) (dstore n) k"
  using assms(1) by (rule twinE) (use assms(2,3) in \<open>auto simp: sound_def alike_Get\<close>)

text \<open>A put gives the same id on both, and the write can be kept open or committed at once.\<close>

lemma twin_Put:
  assumes "twin K b n m" "sound e" "raw k \<in> K" "small (raw (encodeTimestampVal ts v))" "Suc b < 2 ^ 63"
  obtains st tx st' st2 st2' where
    "Store_Put (putIO e) (dstore n) k (encodeTimestampVal ts v) = Inr (st, tx)"
    "Store_Put (putIO e) (dstore m) k (encodeTimestampVal ts v) = Inr (st', tx)" "0 <s tx" "tx \<noteq> 0"
    "marked (n\<lparr>uncommitedTxid := tx\<rparr>) \<longrightarrow>
      twin K (Suc b) (n\<lparr>dstore := st, uncommitedTxid := tx, uncommitedKey := k\<rparr>)
        (m\<lparr>dstore := st', uncommitedTxid := tx, uncommitedKey := k\<rparr>)"
    "Store_Commit (commitIO e) st k tx = (st2, True)" "Store_Commit (commitIO e) st' k tx = (st2', True)"
    "twin K (Suc b) (n\<lparr>dstore := st2\<rparr>) (m\<lparr>dstore := st2'\<rparr>)"
proof -
  obtain s d where n: "dstore n = Mem s" "m = n\<lparr>dstore := Disk d\<rparr>" "alike K b s d" "pending s n" "marked n"
    using assms(1) by (rule twinE)
  have io: "putIO e = no_fault" "commitIO e = no_fault" using assms(2) by (simp_all add: sound_def)
  obtain s' d' i where p: "memstore_Put s k (encodeTimestampVal ts v) = (s', i)"
    "persistent_Put no_fault d k (encodeTimestampVal ts v) = Inr (d', i)" "alike K (Suc b) s' d'"
    "uncommitted s' = (uncommitted s)(i \<mapsto> \<lparr>pkey = k, pvalue = encodeTimestampVal ts v\<rparr>)"
    "i \<notin> dom (uncommitted s)" "0 <s i" "i \<noteq> 0"
    by (rule alike_Put [OF n(3) assms(3) _ assms(4,5)]) (simp_all add: encodeTimestampVal_def)
  obtain s2 d2 where c: "memstore_Commit s' k i = (s2, True)" "persistent_Commit no_fault d' k i = (d2, True)"
    "alike K (Suc b) s2 d2" "uncommitted s2 = (uncommitted s')(i := None)"
    by (rule alike_Commit [OF p(3), of i]) (use p(4) in auto)
  have "i \<noteq> uncommitedTxid n" if "uncommitedTxid n \<noteq> 0"
    using that n(4) p(5) by (auto simp: pending_def)
  then have two: "twin K (Suc b) (n\<lparr>dstore := Mem s2\<rparr>) (m\<lparr>dstore := Disk d2\<rparr>)"
    by (intro twinI [OF c(3)])
      (use n p(4) c(4) in \<open>auto simp: pending_def marked_def member_def memberList_def\<close>)
  have one: "twin K (Suc b) (n\<lparr>dstore := Mem s', uncommitedTxid := i, uncommitedKey := k\<rparr>)
      (m\<lparr>dstore := Disk d', uncommitedTxid := i, uncommitedKey := k\<rparr>)" if "marked (n\<lparr>uncommitedTxid := i\<rparr>)"
    by (rule twinI [OF p(3)])
      (use that n p(4) in \<open>auto simp: pending_def marked_def member_def memberList_def\<close>)
  show thesis
    by (rule that [of "Mem s'" i "Disk d'" "Mem s2" "Disk d2"]) (use n io p c one two in simp_all)
qed

text \<open>A step continues on nodes that are in order.\<close>

definition fair :: "byte list set \<Rightarrow> world \<Rightarrow> env \<Rightarrow> nat \<Rightarrow> Dbnode \<Rightarrow> bool" where
  "fair K W e b n \<longleftrightarrow> in_use K W \<and> sound e \<and> inorder W e n \<and> txn W n \<and> base n \<and> Suc b < 2 ^ 63"

lemma twins_same:
  "(\<And>x. r = Inr x \<Longrightarrow> twins K b (f x) (g x)) \<Longrightarrow> twins K b (bind_res r f) (bind_res r g)"
  by (cases r) simp_all

section \<open>Continuing a transaction\<close>

lemma twins_send_members:
  assumes "twin K b n m" "store_free mk"
  shows "twins K b (send_members e l mk u n) (send_members e l mk u m)"
proof (cases "send_members e l mk u n")
  case (Inl c)
  with assms show ?thesis by (auto elim!: twinE simp: send_members_store restore_def)
next
  case (Inr n1)
  obtain r where r: "n1 = n\<lparr>requestRepeater := r\<rparr>" using send_members_same [OF Inr] by blast
  obtain d where "m = n\<lparr>dstore := Disk d\<rparr>" using assms(1) by (rule twinE)
  with Inr r have "send_members e l mk u m = Inr (m\<lparr>requestRepeater := r\<rparr>)"
    by (simp add: send_members_store [OF assms(2)] restore_def)
  with Inr r twin_upd(2) [OF assms(1)] show ?thesis by simp
qed

lemma twins_assemble:
  assumes "twin K b n m" "base n" "env_ok e n" "1 \<le> qs" "qs \<le> numPeers n + 1" "k \<in> {NodeGetRequest, NodeLockRequestNoTimeout}"
    and "currentMode n \<noteq> coordinatingWrite"
  shows "twins K b (assembleQuorum e qs k n) (assembleQuorum e qs k m)"
proof -
  have "wired n" "perm_ok e n" "ack_type k \<noteq> None" using assms(2,3,6) by (auto simp: base_def env_ok_def)
  from assembleQuorum_ok [OF this(1,2) assms(4,5) this(3)] obtain r where
    a: "assembleQuorum e qs k n = Inr (n\<lparr>quorumMembers := Some (quorum_map e qs k n),
      requestRepeater := r, numWaitingNodes := qs - 1\<rparr>)" (is "_ = Inr ?n") by blast
  obtain s d where d: "dstore n = Mem s" "m = n\<lparr>dstore := Disk d\<rparr>" "alike K b s d" "pending s n" "marked n"
    using assms(1) by (rule twinE)
  have "DemuxKey u \<noteq> NodeUnlockRequest" if "(i, u) \<in> set (quorum_map e qs k n)" for i u
    using that assms(6) by (auto simp: quorum_map_def marker_def request_msg_def split: if_splits)
  then have "DemuxKey (get_or zeroMessage (quorum_map e qs k n) i) \<noteq> NodeUnlockRequest" for i
    using map_of_SomeD [of "quorum_map e qs k n" i]
    by (cases "map_of (quorum_map e qs k n) i") (auto simp: get_or_def)
  then have "marked ?n" using assms(7) by (simp add: marked_def member_def memberList_def)
  then have "twin K b ?n (?n\<lparr>dstore := Disk d\<rparr>)"
    by (intro twinI [OF d(3)]) (use d in \<open>simp_all add: pending_def\<close>)
  with a show ?thesis by (simp add: d(2) assembleQuorum_store restore_def)
qed

lemma twins_fast_read:
  assumes "twin K b n m" "fair K W e b n" "currentMode n = coordinatingFastRead"
  shows "twins K b (continueFastRead e n) (continueFastRead e m)"
proof -
  have f: "sound e" "base n" "env_ok e n" "in_use K W" using assms(2) by (simp_all add: fair_def inorder_def)
  have q: "1 \<le> readQuorumSize n" "readQuorumSize n \<le> numPeers n + 1" using f(2) by (auto simp: base_def)
  have "asks W (clientRequest n)" using assms(2,3) by (auto simp: fair_def txn_defs coordinating_def)
  then have key: "raw (Key (clientRequest n)) \<in> K" by (rule in_use_keys(1) [OF f(4)])
  show ?thesis
    unfolding continueFastRead_def twin_fields [OF assms(1)] twin_Get [OF assms(1) f(1) key]
    by (intro twins_if twins_assemble [OF assms(1) f(2,3) q] twins_same)
      (auto intro!: twins_abort twins_same assms(1) f(1) twin_frame
        simp: assms(3) read_answer_def twin_fields [OF assms(1)])
qed

lemma twins_write_ask:
  assumes "twin K b n m"
  shows "twins K b (write_ask e n) (write_ask e m)"
  unfolding write_ask_def
  by (rule twins_bind [OF twins_send_members [OF assms]], simp)
    (auto intro!: twins_bind [OF twins_set_member] simp: twin_fields twin_frame)

lemma twins_write_put:
  assumes "twin K b n m" "fair K W e b n" "currentMode n = coordinatingWrite"
  shows "twins K (Suc b) (write_put e n) (write_put e m)"
proof -
  have f: "sound e" "in_use K W" "Suc b < 2 ^ 63" using assms(2) by (simp_all add: fair_def inorder_def)
  have c: "asks W (clientRequest n)" "DemuxKey (clientRequest n) \<noteq> ClientReadRequest"
    using assms(2,3) by (auto simp: fair_def txn_defs coordinating_def)
  have key: "raw (Key (clientRequest n)) \<in> K" by (rule in_use_keys(1) [OF f(2) c(1)])
  have small: "small (raw (encodeTimestampVal ts (Value (clientRequest n))))" for ts
    by (rule in_use_fits [OF f(2) asks_written [OF c]])
  note tw = twins_mono [OF twins_abort [OF _ f(1)], of K b _ _ "Suc b"]
  have put: "twins K (Suc b)
      (bind_res (Store_Put (putIO e) (dstore n) (Key (clientRequest n)) (encodeTimestampVal ts (Value (clientRequest n))))
        (\<lambda>(st, tx). let n1 = n\<lparr>dstore := st, uncommitedTxid := tx, uncommitedKey := Key (clientRequest n)\<rparr>
          in bind_res (send_members e 6 (put_request_msg ts) True n1) (\<lambda>n2. bind_res (set_member (dbid n2) u n2)
               (\<lambda>n3. Inr (n3\<lparr>numWaitingNodes := writeQuorumSize n3 - 1\<rparr>)))))
      (bind_res (Store_Put (putIO e) (dstore m) (Key (clientRequest n)) (encodeTimestampVal ts (Value (clientRequest n))))
        (\<lambda>(st, tx). let n1 = m\<lparr>dstore := st, uncommitedTxid := tx, uncommitedKey := Key (clientRequest n)\<rparr>
          in bind_res (send_members e 6 (put_request_msg ts) True n1) (\<lambda>n2. bind_res (set_member (dbid n2) u n2)
               (\<lambda>n3. Inr (n3\<lparr>numWaitingNodes := writeQuorumSize n3 - 1\<rparr>)))))" for ts u
  proof -
    obtain st tx st' st2 st2' where p:
      "Store_Put (putIO e) (dstore n) (Key (clientRequest n)) (encodeTimestampVal ts (Value (clientRequest n))) = Inr (st, tx)"
      "Store_Put (putIO e) (dstore m) (Key (clientRequest n)) (encodeTimestampVal ts (Value (clientRequest n))) = Inr (st', tx)" "0 <s tx" "tx \<noteq> 0"
      "marked (n\<lparr>uncommitedTxid := tx\<rparr>) \<longrightarrow>
        twin K (Suc b) (n\<lparr>dstore := st, uncommitedTxid := tx, uncommitedKey := Key (clientRequest n)\<rparr>)
          (m\<lparr>dstore := st', uncommitedTxid := tx, uncommitedKey := Key (clientRequest n)\<rparr>)"
      "Store_Commit (commitIO e) st (Key (clientRequest n)) tx = (st2, True)"
      "Store_Commit (commitIO e) st' (Key (clientRequest n)) tx = (st2', True)"
      "twin K (Suc b) (n\<lparr>dstore := st2\<rparr>) (m\<lparr>dstore := st2'\<rparr>)"
      by (rule twin_Put [OF assms(1) f(1) key small [of ts] f(3)])
    have "marked (n\<lparr>uncommitedTxid := tx\<rparr>)" using p(4) assms(3) by (simp add: marked_def)
    note two = p(5) [rule_format, OF this]
    show ?thesis
      unfolding p(1,2) bind_res_simps prod.case Let_def
    proof (rule twins_bind [OF twins_send_members [OF two]])
      fix n2 m2
      assume n2: "send_members e 6 (put_request_msg ts) True
          (n\<lparr>dstore := st, uncommitedTxid := tx, uncommitedKey := Key (clientRequest n)\<rparr>) = Inr n2"
        and tw2: "twin K (Suc b) n2 m2"
      have "currentMode n2 = coordinatingWrite" "uncommitedTxid n2 \<noteq> 0"
        using send_members_same [OF n2] p(4) assms(3) by auto
      then show "twins K (Suc b)
          (bind_res (set_member (dbid n2) u n2) (\<lambda>n3. Inr (n3\<lparr>numWaitingNodes := writeQuorumSize n3 - 1\<rparr>)))
          (bind_res (set_member (dbid m2) u m2) (\<lambda>n3. Inr (n3\<lparr>numWaitingNodes := writeQuorumSize n3 - 1\<rparr>)))"
        unfolding twin_fields [OF tw2]
        by (intro twins_bind [OF twins_set_member [OF tw2]]) (auto simp: twin_fields twin_frame)
    qed simp
  qed
  show ?thesis
    unfolding write_put_def twin_fields [OF assms(1)] twin_Get [OF assms(1) f(1) key]
    using put by (auto intro!: twins_same tw twin_frame assms(1) simp: Let_def)
qed

lemma twins_write_commit:
  assumes "twin K b n m" "sound e" "currentMode n = coordinatingWrite" "DemuxKey (member n (dbid n)) = NodeUnlockRequest"
  shows "twins K b (write_commit e n) (write_commit e m)"
proof -
  obtain s d where d: "dstore n = Mem s" "m = n\<lparr>dstore := Disk d\<rparr>" "alike K b s d" "pending s n" "marked n"
    using assms(1) by (rule twinE)
  then obtain p where p: "uncommitted s (uncommitedTxid n) = Some p" "pkey p = uncommitedKey n"
    using assms(3,4) by (auto simp: marked_def pending_def)
  obtain s' d' where c: "memstore_Commit s (uncommitedKey n) (uncommitedTxid n) = (s', True)"
    "persistent_Commit no_fault d (uncommitedKey n) (uncommitedTxid n) = (d', True)" "alike K b s' d'"
    by (rule alike_Commit [OF d(3) p])
  have io: "commitIO e = no_fault" using assms(2) by (simp add: sound_def)
  show ?thesis
    unfolding write_commit_def d(2) Let_def
    by (simp add: d(1) c io) (rule twins_finish [OF _ _ c(3)]; simp add: pending_def emit_def member_def memberList_def)
qed

lemma twins_continueWrite:
  assumes "twin K b n m" "fair K W e b n" "currentMode n = coordinatingWrite"
  shows "twins K (Suc b) (continueWrite e n) (continueWrite e m)"
proof -
  have s: "sound e" using assms(2) by (simp add: fair_def)
  show ?thesis
    unfolding continueWrite_def twin_fields [OF assms(1)]
    using twins_mono [OF twins_write_ask [OF assms(1)], of "Suc b" e] twins_write_put [OF assms]
      twins_mono [OF twins_write_commit [OF assms(1) s assms(3)], of "Suc b"] twin_mono [OF assms(1), of "Suc b"]
    by (cases "DemuxKey (member n (dbid n))") simp_all
qed

lemma twins_continue:
  assumes "twin K b n m" "fair K W e b n"
  shows "twins K (Suc b) (continueProcessing e n) (continueProcessing e m)"
proof (cases "currentMode n = assemblingQuorum")
  case False
  then show ?thesis
    unfolding continueProcessing_def twin_fields [OF assms(1)]
    using assms(2) twins_continueWrite [OF assms] twins_mono [OF twins_fast_read [OF assms], of "Suc b"]
      twin_mono [OF assms(1), of "Suc b"]
    by (cases "currentMode n") (auto simp: fair_def txn_def)
next
  case True
  have f: "base n" "env_ok e n" using assms(2) by (simp_all add: fair_def inorder_def)
  have q: "1 \<le> writeQuorumSize n" "writeQuorumSize n \<le> numPeers n + 1" using f(1) by (auto simp: base_def)
  show ?thesis
  proof (cases "quorumMembers n = None")
    case none: True
    have "twins K b (assembleQuorum e (writeQuorumSize n) NodeLockRequestNoTimeout n)
        (assembleQuorum e (writeQuorumSize n) NodeLockRequestNoTimeout m)"
      by (rule twins_assemble [OF assms(1) f q]) (use True in simp_all)
    with True none show ?thesis
      by (auto simp: continueProcessing_def twin_fields [OF assms(1)] intro: twins_mono)
  next
    case False
    let ?w = "\<lambda>n. n\<lparr>currentMode := coordinatingWrite\<rparr>"
    have "owner W n" "DemuxKey (clientRequest n) \<noteq> ClientReadRequest"
      using assms(2) True by (auto simp: fair_def txn_def coordinating_def)
    then have "txn W (?w n)" by (simp add: txn_def coordinating_def owner_def memberList_def)
    then have w: "fair K W e b (?w n)"
      using assms(2) by (simp add: fair_def inorder_def site_def env_ok_def perm_ok_def frame)
    have "twin K b (?w n) (?w m)"
      by (rule twin_map [OF assms(1)]) (use True in \<open>simp_all add: marked_def member_def memberList_def\<close>)
    from twins_continueWrite [OF this w] True False show ?thesis
      by (auto simp: continueProcessing_def twin_fields [OF assms(1)])
  qed
qed

end
