(* ===== verification/Dbnode_Twin_Loop.thy ===== *)
theory Dbnode_Twin_Loop
  imports Dbnode_Twin
begin

text \<open>
  Two nodes that differ in their store only, continued: the handlers of the messages and one
  iteration of the main loop.
\<close>

section \<open>Answers of quorum members\<close>

lemma fair_ack: "fair K W e b n \<Longrightarrow> fair K W e b (repeat_ack u n)"
  by (simp add: fair_def base_ack)

lemma base_member:
  "base n \<Longrightarrow> quorumMembers n = Some ms \<Longrightarrow> in_system n k \<Longrightarrow> base (n\<lparr>quorumMembers := Some (AList.update k u ms)\<rparr>)"
  by (simp add: base_def wired_def in_system_def memberList_def dom_update)

lemma twins_count:
  assumes "twin K b n m" "fair K W e b n" "is_node W (Src u)" "DemuxKey u \<noteq> NodeUnlockRequest"
    and "currentMode n = coordinatingFastRead \<Longrightarrow> written W (raw (Key (clientRequest n))) (Value u)"
  shows "twins K (Suc b) (count_answer e u n) (count_answer e u m)"
proof -
  have f: "sound e" "inorder W e n" "txn W n" "base n" using assms(2) by (simp_all add: fair_def)
  have go: "twins K (Suc b) (if numWaitingNodes n2 = 0 then continueProcessing e n2 else Inr n2)
      (if numWaitingNodes n2 = 0 then continueProcessing e m2 else Inr m2)"
    if s: "set_member (Src u) u n = Inr n1" "n2 = n1\<lparr>numWaitingNodes := w\<rparr>" "twin K b n2 m2" for n1 n2 m2 w
  proof -
    obtain ms where ms: "quorumMembers n = Some ms" "n1 = n\<lparr>quorumMembers := Some (AList.update (Src u) u ms)\<rparr>"
      using s(1) by (auto simp: set_member_def split: option.splits)
    have "in_system n (Src u)" using assms(3) f(2) by (auto simp: inorder_def site_def in_system_def is_node_def)
    then have "base n1" using base_member [OF f(4) ms(1)] by (simp add: ms(2))
    moreover have "txn W n1"
      using set_member_mail [OF s(1) f(3) _ assms(3)] f(2) assms(5) by (auto simp: inorder_def)
    ultimately have "fair K W e b n2"
      using assms(2) by (simp add: s(2) ms(2) fair_def frame inorder_def site_def env_ok_def perm_ok_def)
    from twins_continue [OF s(3) this] twin_mono [OF s(3), of "Suc b"] show ?thesis by simp
  qed
  let ?go = "\<lambda>n1. let n2 = n1\<lparr>numWaitingNodes := numWaitingNodes n1 - 1\<rparr>
      in if numWaitingNodes n2 = 0 then continueProcessing e n2 else Inr n2"
  have "twins K (Suc b) (bind_res (set_member (Src u) u n) ?go) (bind_res (set_member (Src u) u m) ?go)"
  proof (rule twins_bind [OF twins_set_member [OF assms(1)]])
    fix n1 m1 assume n1: "set_member (Src u) u n = Inr n1" "twin K b n1 m1"
    let ?n2 = "n1\<lparr>numWaitingNodes := numWaitingNodes n1 - 1\<rparr>" and ?m2 = "m1\<lparr>numWaitingNodes := numWaitingNodes n1 - 1\<rparr>"
    have "twin K b ?n2 ?m2" using n1(2) by (rule twin_upd)
    from go [OF n1(1) refl this] show "twins K (Suc b) (?go n1) (?go m1)"
      by (simp add: Let_def twin_fields [OF n1(2)])
  qed (use assms(4) in simp)
  with twins_mono [OF twins_abort [OF assms(1) f(1)], of "Suc b"] twin_mono [OF assms(1), of "Suc b"] show ?thesis
    unfolding count_answer_def twin_fields [OF assms(1)] by (intro twins_if) simp_all
qed

lemma twins_answers:
  assumes "twin K b n m" "fair K W e b n" "proper W u" "Dest u = dbid n"
  shows "DemuxKey u = NodeLockResponse \<Longrightarrow> twins K (Suc b) (handleLockRes e u n) (handleLockRes e u m)"
    "DemuxKey u = NodeGetResponse \<Longrightarrow> twins K (Suc b) (handleGetRes e u n) (handleGetRes e u m)"
    "DemuxKey u = NodePutResponse \<Longrightarrow> twins K (Suc b) (handlePutRes e u n) (handlePutRes e u m)"
proof -
  let ?n = "repeat_ack u n" and ?m = "repeat_ack u m"
  have a: "twin K b ?n ?m" "fair K W e b ?n" using assms(1,2) by (simp_all add: twin_ack fair_ack)
  have a': "twin K (Suc b) ?n ?m" by (rule twin_mono [OF a(1)]) simp
  note fs = twin_fields [OF a(1)]
  have same: "currentMode ?n = currentMode n" "currentTxid ?n = currentTxid n" "clientRequest ?n = clientRequest n"
    by (simp_all add: repeat_ack_def)
  have t: "world_ok W" "txn W n" using assms(2) by (simp_all add: fair_def inorder_def)
  show "twins K (Suc b) (handleLockRes e u n) (handleLockRes e u m)" if "DemuxKey u = NodeLockResponse"
  proof -
    have "is_node W (Src u)" using that assms(3) by (simp add: proper_def to_coordinator_def)
    then show ?thesis
      unfolding handleLockRes_def Let_def fs
      using that a' t(2) by (auto intro!: twins_if twins_count [OF a] twins_mono [OF twins_send [OF a(1)]] simp: txn_def)
  qed
  show "twins K (Suc b) (handleGetRes e u n) (handleGetRes e u m)" if "DemuxKey u = NodeGetResponse"
  proof -
    have p: "is_node W (Src u)" "concerns W u" "written W (raw (Key u)) (Value u)"
      using that assms(3) by (simp_all add: proper_def to_coordinator_def)
    show ?thesis
      unfolding handleGetRes_def Let_def fs
      using that a' answer_key [OF t(2,1) _ _ p(2,3)] p(1)
      by (auto intro!: twins_if twins_count [OF a] simp: same)
  qed
  show "twins K (Suc b) (handlePutRes e u n) (handlePutRes e u m)" if "DemuxKey u = NodePutResponse"
  proof -
    have "is_node W (Src u)" using that assms(3) by (simp add: proper_def to_coordinator_def)
    then show ?thesis
      unfolding handlePutRes_def Let_def fs
      using that a' by (auto intro!: twins_if twins_count [OF a] simp: same)
  qed
qed

section \<open>Requests\<close>

lemma twin_unlock:
  assumes "twin K b n m" "sound e"
  shows "twin K b (handleUnlockReq e u n) (handleUnlockReq e u m)"
  using assms(1)
proof (rule twinE)
  fix s d
  assume d: "dstore n = Mem s" "m = n\<lparr>dstore := Disk d\<rparr>" "alike K b s d" "pending s n" "marked n"
  have io: "commitIO e = no_fault" using assms(2) by (simp add: sound_def)
  show ?thesis
  proof (cases "currentTxid n = Id' u \<and> 0 <s uncommitedTxid n \<and> Ok u")
    case True
    then have "uncommitedTxid n \<noteq> 0" by auto
    then obtain p where p: "uncommitted s (uncommitedTxid n) = Some p" "pkey p = uncommitedKey n"
      using d(4) by (auto simp: pending_def)
    obtain s' d' where c: "memstore_Commit s (uncommitedKey n) (uncommitedTxid n) = (s', True)"
      "persistent_Commit no_fault d (uncommitedKey n) (uncommitedTxid n) = (d', True)" "alike K b s' d'"
      by (rule alike_Commit [OF d(3) p])
    show ?thesis
      by (rule twinI [OF c(3)]) (use True d c io in \<open>simp_all add: handleUnlockReq_def emit_def pending_def marked_def\<close>)
  next
    case False
    have idle: "twin K b (n\<lparr>currentMode := idle, currentTxid := -1\<rparr>) (m\<lparr>currentMode := idle, currentTxid := -1\<rparr>)"
      by (rule twin_map [OF assms(1)]) (simp_all add: marked_def)
    show ?thesis
    proof (cases "currentTxid n = Id' u")
      case True
      with False show ?thesis
        by (auto simp: handleUnlockReq_def Let_def twin_fields [OF assms(1)] intro!: twin_emit twin_upd(7) [OF idle])
    next
      case other: False
      then show ?thesis
        by (simp add: handleUnlockReq_def Let_def twin_fields [OF assms(1)] twin_emit twin_upd(7) [OF assms(1)])
    qed
  qed
qed

text \<open>What a handler answers depends on fields that both nodes share.\<close>

lemma twin_answers:
  assumes "twin K b n m"
  shows "get_answer u m v t k = get_answer u n v t k" "put_answer u m k = put_answer u n k"
    "background_answer u m v t k = background_answer u n v t k" "local_write_answer u m v t k = local_write_answer u n v t k"
    "lock_answer u m = lock_answer u n" "timeout_answer u m = timeout_answer u n"
  by (simp_all add: get_answer_def put_answer_def background_answer_def local_write_answer_def lock_answer_def
      timeout_answer_def twin_fields [OF assms])

lemma twins_get:
  assumes "twin K b n m" "sound e" "raw (Key u) \<in> K"
  shows "twins K b (handleGetReq e u n) (handleGetReq e u m)"
    "twins K b (handleTimestampReq e u n) (handleTimestampReq e u m)"
  unfolding handleGetReq_def handleTimestampReq_def twin_fields [OF assms(1)] twin_Get [OF assms] twin_answers [OF assms(1)]
  using assms(1) by (auto intro!: twins_same twin_frame)

lemma twins_put:
  assumes "twin K b n m" "sound e" "raw (Key u) \<in> K" "\<And>t. small (raw (encodeTimestampVal t (Value u)))" "Suc b < 2 ^ 63"
  shows "twins K (Suc b) (handlePutReq e u n) (handlePutReq e u m)"
proof (cases "currentMode n = processingWrite \<and> currentTxid n = Id' u")
  case False
  have "twin K (Suc b) n m" by (rule twin_mono [OF assms(1)]) simp
  with False show ?thesis
    unfolding handlePutReq_def twin_fields [OF assms(1)] twin_answers [OF assms(1)] by (auto intro: twin_frame)
next
  case True
  let ?v = "encodeTimestampVal (Timestamp u) (Value u)"
  obtain st tx st' st2 st2' where p: "Store_Put (putIO e) (dstore n) (Key u) ?v = Inr (st, tx)"
    "Store_Put (putIO e) (dstore m) (Key u) ?v = Inr (st', tx)" "0 <s tx" "tx \<noteq> 0"
    "marked (n\<lparr>uncommitedTxid := tx\<rparr>) \<longrightarrow> twin K (Suc b) (n\<lparr>dstore := st, uncommitedTxid := tx, uncommitedKey := Key u\<rparr>)
        (m\<lparr>dstore := st', uncommitedTxid := tx, uncommitedKey := Key u\<rparr>)"
    "Store_Commit (commitIO e) st (Key u) tx = (st2, True)" "Store_Commit (commitIO e) st' (Key u) tx = (st2', True)"
    "twin K (Suc b) (n\<lparr>dstore := st2\<rparr>) (m\<lparr>dstore := st2'\<rparr>)"
    by (rule twin_Put [OF assms(1-3) assms(4) [of "Timestamp u"] assms(5)])
  have "marked (n\<lparr>uncommitedTxid := tx\<rparr>)" using True by (simp add: marked_def)
  then have "twin K (Suc b) (n\<lparr>dstore := st, uncommitedTxid := tx, uncommitedKey := Key u\<rparr>)
      (m\<lparr>dstore := st', uncommitedTxid := tx, uncommitedKey := Key u\<rparr>)" using p(5) by simp
  then show ?thesis
    unfolding handlePutReq_def twin_fields [OF assms(1)] twin_answers [OF assms(1)]
    using True p(1-3) by (auto intro: twin_frame)
qed

section \<open>Writes that are committed at once\<close>

lemma twins_merge:
  assumes "twin K b n m" "sound e" "raw (Key u) \<in> K" "\<And>t. small (raw (encodeTimestampVal t (Value u)))" "Suc b < 2 ^ 63"
  shows "twins K (Suc b) (merge_write e u t v n) (merge_write e u t v m)"
proof -
  let ?v = "encodeTimestampVal (Timestamp u) (Value u)"
  obtain st tx st' st2 st2' where p: "Store_Put (putIO e) (dstore n) (Key u) ?v = Inr (st, tx)"
    "Store_Put (putIO e) (dstore m) (Key u) ?v = Inr (st', tx)" "0 <s tx" "tx \<noteq> 0"
    "marked (n\<lparr>uncommitedTxid := tx\<rparr>) \<longrightarrow> twin K (Suc b) (n\<lparr>dstore := st, uncommitedTxid := tx, uncommitedKey := Key u\<rparr>)
        (m\<lparr>dstore := st', uncommitedTxid := tx, uncommitedKey := Key u\<rparr>)"
    "Store_Commit (commitIO e) st (Key u) tx = (st2, True)" "Store_Commit (commitIO e) st' (Key u) tx = (st2', True)"
    "twin K (Suc b) (n\<lparr>dstore := st2\<rparr>) (m\<lparr>dstore := st2'\<rparr>)"
    by (rule twin_Put [OF assms(1-3) assms(4) [of "Timestamp u"] assms(5)])
  have "twin K (Suc b) n m" by (rule twin_mono [OF assms(1)]) simp
  then show ?thesis unfolding merge_write_def using p(1,2,6-8) by simp
qed

lemma twins_background:
  assumes "twin K b n m" "sound e" "raw (Key u) \<in> K" "\<And>t. small (raw (encodeTimestampVal t (Value u)))" "Suc b < 2 ^ 63"
  shows "twins K (Suc b) (handleBackgroundWriteReq e u n) (handleBackgroundWriteReq e u m)"
    "twins K (Suc b) (handleBackgroundWriteRes e u n) (handleBackgroundWriteRes e u m)"
proof -
  note tw = twin_fields [OF assms(1)] twin_Get [OF assms(1-3)] twin_answers [OF assms(1)]
  show "twins K (Suc b) (handleBackgroundWriteReq e u n) (handleBackgroundWriteReq e u m)"
    unfolding handleBackgroundWriteReq_def tw
    by (auto intro!: twins_same twins_bind [OF twins_merge [OF assms]] twin_frame)
  have res: "twins K (Suc b)
      (bind_res (Store_Get (getIO e) (dstore n) (Key u)) (\<lambda>(cur, _).
         bind_res (decodeTimestampVal cur) (\<lambda>(t, v). merge_write e u t v (n\<lparr>backgroundWriteDaemon := Some p\<rparr>))))
      (bind_res (Store_Get (getIO e) (dstore m) (Key u)) (\<lambda>(cur, _).
         bind_res (decodeTimestampVal cur) (\<lambda>(t, v). merge_write e u t v (m\<lparr>backgroundWriteDaemon := Some p\<rparr>))))" for p
  proof -
    have "twin K b (n\<lparr>backgroundWriteDaemon := Some p\<rparr>) (m\<lparr>backgroundWriteDaemon := Some p\<rparr>)"
      using assms(1) by (rule twin_upd)
    from twins_merge [OF this assms(2-5)] twin_Get [OF assms(1-3)] show ?thesis by (auto intro!: twins_same)
  qed
  have "twin K (Suc b) n m" by (rule twin_mono [OF assms(1)]) simp
  then show "twins K (Suc b) (handleBackgroundWriteRes e u n) (handleBackgroundWriteRes e u m)"
    unfolding handleBackgroundWriteRes_def tw Let_def
    by (auto intro!: twins_same res twin_frame)
qed

lemma twins_local_read:
  assumes "twin K b n m" "sound e" "raw (Key u) \<in> K"
  shows "twins K b (processLocalRead e u n) (processLocalRead e u m)"
  unfolding processLocalRead_def twin_fields [OF assms(1)] twin_Get [OF assms]
  using assms(1) by (auto intro!: twins_same twin_frame)

lemma twins_local_write:
  assumes "twin K b n m" "sound e" "raw (Key u) \<in> K" "\<And>t. small (raw (encodeTimestampVal t (Value u)))" "Suc b < 2 ^ 63"
  shows "twins K (Suc b) (processLocalWrite e u n) (processLocalWrite e u m)"
proof -
  have mono: "twin K (Suc b) n m" by (rule twin_mono [OF assms(1)]) simp
  note tw = twin_fields [OF assms(1)] twin_Get [OF assms(1-3)] twin_answers [OF assms(1)]
  have put: "twins K (Suc b)
      (bind_res (Store_Put (putIO e) (dstore n) (Key u) (encodeTimestampVal t (Value u))) (\<lambda>(st, tx).
         case Store_Commit (commitIO e) st (Key u) tx of (st', ok) \<Rightarrow> Inr (emit (w ok) (n\<lparr>dstore := st'\<rparr>))))
      (bind_res (Store_Put (putIO e) (dstore m) (Key u) (encodeTimestampVal t (Value u))) (\<lambda>(st, tx).
         case Store_Commit (commitIO e) st (Key u) tx of (st', ok) \<Rightarrow> Inr (emit (w ok) (m\<lparr>dstore := st'\<rparr>))))" for t w
  proof -
    obtain st tx st' st2 st2' where p:
      "Store_Put (putIO e) (dstore n) (Key u) (encodeTimestampVal t (Value u)) = Inr (st, tx)"
      "Store_Put (putIO e) (dstore m) (Key u) (encodeTimestampVal t (Value u)) = Inr (st', tx)" "0 <s tx" "tx \<noteq> 0"
      "marked (n\<lparr>uncommitedTxid := tx\<rparr>) \<longrightarrow> twin K (Suc b) (n\<lparr>dstore := st, uncommitedTxid := tx, uncommitedKey := Key u\<rparr>)
          (m\<lparr>dstore := st', uncommitedTxid := tx, uncommitedKey := Key u\<rparr>)"
      "Store_Commit (commitIO e) st (Key u) tx = (st2, True)" "Store_Commit (commitIO e) st' (Key u) tx = (st2', True)"
      "twin K (Suc b) (n\<lparr>dstore := st2\<rparr>) (m\<lparr>dstore := st2'\<rparr>)"
      by (rule twin_Put [OF assms(1-3) assms(4) [of t] assms(5)])
    then show ?thesis by (simp add: twin_emit)
  qed
  show ?thesis
    unfolding processLocalWrite_def tw using mono put by (auto intro!: twins_same twin_frame simp: Let_def)
qed

section \<open>The main loop\<close>

lemma twin_enqueue [twin_frame]: "twin K b n m \<Longrightarrow> twin K b (enqueue_request p n) (enqueue_request p m)"
  by (rule twin_map) (simp_all add: enqueue_request_def marked_def member_def memberList_def)

lemma twins_dispatch:
  assumes "twin K b n m" "fair K W e b n" "Dest u = dbid n" "proper W u \<or> DemuxKey u = InternalTimerSignal"
  shows "twins K (Suc b) (dispatch e p u n) (dispatch e p u m)"
proof -
  have f: "sound e" "in_use K W" "Suc b < 2 ^ 63" using assms(2) by (simp_all add: fair_def)
  have tw: "twin K (Suc b) n m" by (rule twin_mono [OF assms(1)]) simp
  note keys = in_use_keys [OF f(2)] and fits = in_use_fits [OF f(2)]
  show ?thesis
  proof (cases "proper W u")
    case False
    with assms(4) tw show ?thesis by (simp add: dispatch_def)
  next
    case True
    note answers = twins_answers [OF assms(1,2) True assms(3)]
    have unlock: "twin K (Suc b) (handleUnlockReq e u n) (handleUnlockReq e u m)"
      by (rule twin_mono [OF twin_unlock [OF assms(1) f(1)]]) simp
    have get: "twins K (Suc b) (handleGetReq e u n) (handleGetReq e u m)"
      "twins K (Suc b) (handleTimestampReq e u n) (handleTimestampReq e u m)" if "concerns W u"
      using twins_mono [OF twins_get(1) [OF assms(1) f(1)]] twins_mono [OF twins_get(2) [OF assms(1) f(1)]]
        keys(2) [OF that] by simp_all
    have put: "twins K (Suc b) (handlePutReq e u n) (handlePutReq e u m)"
      if "concerns W u" "written W (raw (Key u)) (Value u)"
      by (rule twins_put [OF assms(1) f(1) keys(2) [OF that(1)] fits [OF that(2)] f(3)])
    have bg: "twins K (Suc b) (handleBackgroundWriteReq e u n) (handleBackgroundWriteReq e u m)"
      "twins K (Suc b) (handleBackgroundWriteRes e u n) (handleBackgroundWriteRes e u m)" if "propagates W u"
    proof -
      have w: "known_key W (Key u)" "written W (raw (Key u)) (Value u)" using that by (simp_all add: propagates_def)
      show "twins K (Suc b) (handleBackgroundWriteReq e u n) (handleBackgroundWriteReq e u m)"
        "twins K (Suc b) (handleBackgroundWriteRes e u n) (handleBackgroundWriteRes e u m)"
        by (rule twins_background [OF assms(1) f(1) keys(3) [OF w(1)] fits [OF w(2)] f(3)])+
    qed
    have local: "twins K (Suc b) (processLocalWrite e u n) (processLocalWrite e u m)"
      if "asks W u" "DemuxKey u \<noteq> ClientReadRequest"
      by (rule twins_local_write [OF assms(1) f(1) keys(1) [OF that(1)] fits [OF asks_written [OF that]] f(3)])
    have read: "twins K (Suc b) (processLocalRead e u n) (processLocalRead e u m)" if "asks W u"
      by (rule twins_mono [OF twins_local_read [OF assms(1) f(1) keys(1) [OF that]]]) simp
    show ?thesis
      using True answers unlock get put bg local read tw
      by (cases "DemuxKey u")
        (simp_all add: dispatch_def proper_def twin_fields [OF assms(1)] handleUnlockAck_def twin_frame)
  qed
qed

text \<open>The next request of an idle node.\<close>

lemma twins_start:
  assumes "twin K b n m" "fair K W e b n" "currentMode n = idle" "quorumMembers n = None" "held W (dbid n) u"
  shows "twins K (Suc b) (start_transaction e u n) (start_transaction e u m)"
proof -
  let ?s = "\<lambda>x n. n\<lparr>currentTxid := Id' u, clientRequest := u, currentMode := x\<rparr>"
  have tw: "twin K b (?s x n) (?s x m)" for x
    by (rule twin_map [OF assms(1)]) (simp_all add: marked_def member_def memberList_def assms(4))
  have fair: "fair K W e b (?s x n)" if "txn W (?s x n)" for x
    using that assms(2) by (simp add: fair_def inorder_def site_def env_ok_def perm_ok_def frame)
  show ?thesis
  proof (cases "lock_request_type (DemuxKey u)")
    case True
    have "twin K (Suc b) (emit x (?s y n)) (emit x (?s y m))" for x y
      by (rule twin_mono [OF twin_emit [OF tw]]) simp
    with True show ?thesis
      by (auto simp: start_transaction_def lock_request_type_def Let_def lock_answer_def twin_fields [OF assms(1)])
  next
    case False
    then have a: "asks W u" "w_own W (Id' u) = Some (dbid n)" using assms(5) by (auto simp: held_def)
    then have "client_request_type (DemuxKey u)" by (simp add: asks_def)
    then show ?thesis
      using twins_continue [OF tw fair [OF start_txn(1) [OF a assms(4)]]]
        twins_continue [OF tw fair [OF start_txn(2) [OF a assms(4)]]]
      by (auto simp: start_transaction_def client_request_type_def Let_def fastReads_def)
  qed
qed

lemma fairI: "mail W n \<Longrightarrow> good n \<Longrightarrow> world_ok W \<Longrightarrow> env_ok e n \<Longrightarrow> in_use K W \<Longrightarrow> sound e \<Longrightarrow> Suc b < 2 ^ 63 \<Longrightarrow> fair K W e b n"
  by (simp add: fair_def mail_def good_def inorder_def)

lemma twins_serve:
  assumes "twin K b n m" "fair K W e b n" "mail W n" "p < length (cells n)"
  shows "twins K (Suc b) (serve e p n) (serve e p m)"
proof (cases "currentMode n = idle \<and> \<not> queue_empty (lockRequests n)")
  case False
  with twin_mono [OF assms(1), of "Suc b"] show ?thesis by (auto simp: serve_def twin_fields [OF assms(1)])
next
  case True
  then obtain q qs where qs: "qvalues (lockRequests n) = q # qs"
    by (auto simp: queue_empty_def neq_Nil_conv)
  have q: "q < length (cells n)" "held W (dbid n) (cells n ! q)" using assms(3) qs by (auto simp: mail_def kept_def)
  let ?s = "\<lambda>n. n\<lparr>lockRequests := (lockRequests n)\<lparr>qvalues := qs\<rparr>, cells := (cells n)[p := cells n ! q]\<rparr>"
  have tw: "twin K b (?s n) (?s m)"
    by (rule twin_map [OF assms(1)]) (simp_all add: marked_def member_def memberList_def)
  have "fair K W e b (?s n)"
    using assms(2) by (simp add: fair_def inorder_def site_def env_ok_def perm_ok_def frame)
  moreover have "quorumMembers n = None"
    using True assms(2) by (auto simp: fair_def txn_def coordinating_def)
  ultimately have "twins K (Suc b) (start_transaction e (cells n ! q) (?s n)) (start_transaction e (cells n ! q) (?s m))"
    using twins_start [OF tw] True q(2) by simp
  with True qs q(1) twin_mono [OF tw, of "Suc b"] show ?thesis
    by (simp add: serve_def dequeue_def deref_def Let_def twin_fields [OF assms(1)])
qed

lemma twins_dispatch_serve:
  assumes "twin K b n m" "good n" "mail W n" "world_ok W" "env_ok e n" "in_use K W" "sound e" "Suc (Suc b) < 2 ^ 63"
    and "Dest u = dbid n" "proper W u \<or> DemuxKey u = InternalTimerSignal" "p < length (cells n)" "cells n ! p = u"
    and "accepts e n u \<Longrightarrow> w_own W (Id' u) = Some (dbid n)"
  shows "twins K (Suc (Suc b)) (bind_res (dispatch e p u n) (serve e p)) (bind_res (dispatch e p u m) (serve e p))"
proof (rule twins_bind)
  have "fair K W e b n" by (rule fairI) (use assms in simp_all)
  from twins_dispatch [OF assms(1) this assms(9,10)]
  show "twins K (Suc b) (dispatch e p u n) (dispatch e p u m)" .
  fix n1 m1 assume n1: "dispatch e p u n = Inr n1" "twin K (Suc b) n1 m1"
  have "msg_ok n u" by (rule arrives_msg_ok [of W]) (use assms(3,9,10) in \<open>auto simp: arrives_def mail_def\<close>)
  moreover have "DemuxKey u \<notin> {ControlFail, ControlRecover}" using assms(10) by (auto simp: proper_def)
  ultimately have g: "good n1" "cells n1 = cells n"
    using dispatch_good [OF assms(2,5) _ _ assms(11,12)] n1(1) by (auto simp: survives_def)
  have d: "mail W n1" "dbid n1 = dbid n" "numPeers n1 = numPeers n"
    using dispatch_delivers [OF n1(1) assms(3-5,9-13)] by (simp_all add: delivers_def)
  then have "env_ok e n1" using assms(5) by (simp add: env_ok_def perm_ok_def)
  then have "fair K W e (Suc b) n1" using fairI [OF d(1) g(1) assms(4)] assms(6-8) by simp
  from twins_serve [OF n1(2) this d(1)] show "twins K (Suc (Suc b)) (serve e p n1) (serve e p m1)"
    using assms(11) g(2) by simp
qed

lemma twin_control:
  assumes "twin K b n m"
  shows "twin K b (recover_node n) (recover_node m)" "twin K b (fail_node n) (fail_node m)"
proof -
  show "twin K b (recover_node n) (recover_node m)"
    by (rule twin_map [OF assms]) (simp_all add: recover_node_def marked_def member_def memberList_def)
  show "twin K b (fail_node n) (fail_node m)"
  proof (rule twin_map [OF assms])
    show "fail_node (n\<lparr>dstore := st\<rparr>) = (fail_node n)\<lparr>dstore := st\<rparr>" for st
      by (simp add: fail_node_def Let_def)
    show "marked (fail_node n)" if "marked n"
      using that by (simp add: fail_node_def Let_def marked_def member_def memberList_def)
  qed (simp_all add: fail_node_def Let_def)
qed

lemma twins_timer:
  assumes "twin K b n m" "sound e"
  shows "twins K b (on_timer e u n) (on_timer e u m)"
proof -
  have "twin K b (x\<lparr>internalTimer := internalTimer x @ [timeoutCounter x]\<rparr>)
      (y\<lparr>internalTimer := internalTimer y @ [timeoutCounter y]\<rparr>)" if "twin K b x y" for x y
    using twin_upd(9) [OF that] by (simp add: twin_fields [OF that])
  with assms(1) twins_abort [OF assms] twin_upd(12) [OF assms(1)] show ?thesis
    unfolding on_timer_def twin_fields [OF assms(1)] by (auto intro!: twins_if twins_bind)
qed

text \<open>One message.\<close>

lemma twins_incoming:
  assumes "twin K b n m" "good n" "mail W n" "world_ok W" "env_ok e n" "arrives W n u" "in_use K W" "sound e"
    and "Suc (Suc b) < 2 ^ 63" "client_request_type (DemuxKey u) \<Longrightarrow> accepts e n u \<Longrightarrow> w_own W (Id' u) = Some (dbid n)"
  shows "twins K (Suc (Suc b)) (on_incoming e u n) (on_incoming e u m)"
proof -
  let ?c = "\<lambda>n. n\<lparr>cells := cells n @ [u]\<rparr>" and ?p = "length (cells n)"
  have tw: "twin K b (?c n) (?c m)" using twin_upd(13) [OF assms(1)] by (simp add: twin_fields [OF assms(1)])
  have tw2: "twin K (Suc (Suc b)) x y" if "twin K b x y" for x y by (rule twin_mono [OF that]) simp
  have n0: "good (?c n)" "mail W (?c n)" "env_ok e (?c n)"
    using good_cells [OF assms(2)] mail_cells [OF assms(3)] assms(5) by (simp_all add: frame)
  show ?thesis
  proof (cases "disabled n \<or> DemuxKey u \<in> {ControlRecover, ControlFail}")
    case True
    then show ?thesis
      using tw2 [OF tw] tw2 [OF twin_control(1) [OF tw]] tw2 [OF twin_control(2) [OF tw]]
      by (auto simp: on_incoming_def alloc_def Let_def twin_fields [OF assms(1)])
  next
    case False
    then have u: "Dest u = dbid n" "proper W u \<or> DemuxKey u = InternalTimerSignal" using assms(6) by (auto simp: arrives_def)
    let ?clean = "\<lambda>n1. if DemuxKey u = ElectionElect then cleanUnlockTxids n1 else n1"
    let ?body = "\<lambda>n1. bind_res (dispatch e ?p u (?clean n1)) (serve e ?p)"
    have "twins K (Suc (Suc b)) (bind_res (on_timer e u (?c n)) ?body) (bind_res (on_timer e u (?c m)) ?body)"
    proof (rule twins_bind [OF twins_timer [OF tw assms(8)]])
      fix n1 m1 assume n1: "on_timer e u (?c n) = Inr n1" "twin K b n1 m1"
      have g: "good n1" "wiring n1 = wiring n" "cells n1 = cells n @ [u]"
        using timer_good [OF n0(1,3), of u] n1(1) by (auto simp: wiring_def)
      have d: "mail W n1" "readQuorumSize n1 = readQuorumSize n" "writeQuorumSize n1 = writeQuorumSize n"
        using on_timer_delivers [OF n1(1) n0(2) assms(4) n0(3)] by (simp_all add: delivers_def)
      have c: "twin K b (?clean n1) (?clean m1)" "good (?clean n1)" "mail W (?clean n1)" "wiring (?clean n1) = wiring n"
        "cells (?clean n1) = cells n @ [u]" "readQuorumSize (?clean n1) = readQuorumSize n"
        "writeQuorumSize (?clean n1) = writeQuorumSize n"
        using n1(2) g d twin_upd(7) [OF n1(2)]
        by (simp_all add: cleanUnlockTxids_def Let_def twin_fields [OF n1(2)] good_def frame queue_ok_def wiring_def)
      have "env_ok e (?clean n1)" using assms(5) c(4) by (simp add: env_ok_def perm_ok_def wiring_def split del: if_split)
      then show "twins K (Suc (Suc b)) (?body n1) (?body m1)"
        by (rule twins_dispatch_serve [OF c(1-3) assms(4) _ assms(7,8,9)])
          (use u assms(10) c(4-7) in \<open>auto simp: wiring_def accepts_def client_request_type_def split del: if_split\<close>)
    qed
    with False u(1) show ?thesis
      by (simp add: on_incoming_def alloc_def Let_def twin_fields [OF assms(1)])
  qed
qed

lemma twins_lock_timeout:
  assumes "twin K b n m" "sound e"
  shows "twins K b (on_lock_timeout e p n) (on_lock_timeout e p m)"
proof -
  have "twin K b (emit x (n\<lparr>lockRequests := q\<rparr>)) (emit x (m\<lparr>lockRequests := q\<rparr>))" for x q
    by (rule twin_emit) (rule twin_upd(15) [OF assms(1)])
  then show ?thesis
    unfolding on_lock_timeout_def twin_fields [OF assms(1)] twin_answers [OF assms(1)]
    using assms(1) twins_abort [OF assms]
    by (cases "queue_remove (lockRequests n) p") (auto intro!: twins_same)
qed

end
