(* ===== verification/Cluster_Twin.thy ===== *)
theory Cluster_Twin
  imports Cluster_Safety Dbnode_Twin_Loop
begin

text \<open>
  Two clusters that differ in the stores of their nodes only, one in memory and one on disk: the
  same events are possible in both and have the same effect on everything but the stores.
\<close>

definition twin_cluster :: "byte list set \<Rightarrow> int \<Rightarrow> nat \<Rightarrow> cluster \<Rightarrow> cluster \<Rightarrow> bool" where
  "twin_cluster K N b c d \<longleftrightarrow> (\<exists>f. d = c\<lparr>nodes := f\<rparr>) \<and> (\<forall>i \<in> {0..<N}. twin K b (nodes c i) (nodes d i))"

definition twin_clusters :: "byte list set \<Rightarrow> int \<Rightarrow> nat \<Rightarrow> cluster res \<Rightarrow> cluster res \<Rightarrow> bool" where
  "twin_clusters K N b r r' \<longleftrightarrow> (\<exists>e. r = Inl e \<and> r' = Inl e) \<or> (\<exists>c d. r = Inr c \<and> r' = Inr d \<and> twin_cluster K N b c d)"

lemma twin_clusters_simps [simp]:
  "twin_clusters K N b (Inl e) (Inl e)" "twin_clusters K N b (Inr c) (Inr d) = twin_cluster K N b c d"
  by (simp_all add: twin_clusters_def)

lemma twin_clusterI:
  "d = c\<lparr>nodes := f\<rparr> \<Longrightarrow> (\<And>i. i \<in> {0..<N} \<Longrightarrow> twin K b (nodes c i) (f i)) \<Longrightarrow> twin_cluster K N b c d"
  by (auto simp: twin_cluster_def)

lemma twin_clusterE:
  assumes "twin_cluster K N b c d"
  obtains f where "d = c\<lparr>nodes := f\<rparr>" "\<And>i. i \<in> {0..<N} \<Longrightarrow> twin K b (nodes c i) (f i)"
  using assms by (auto simp: twin_cluster_def)

lemma twin_cluster_mono: "twin_cluster K N b c d \<Longrightarrow> b \<le> b' \<Longrightarrow> twin_cluster K N b' c d"
  using twin_mono by (fastforce simp: twin_cluster_def)

lemma twin_cluster_possible:
  assumes "twin_cluster K N b c d"
  shows "possible N ev d = possible N ev c"
  using assms
proof (rule twin_clusterE)
  fix f assume d: "d = c\<lparr>nodes := f\<rparr>" and tw: "\<And>i. i \<in> {0..<N} \<Longrightarrow> twin K b (nodes c i) (f i)"
  have fs: "internalTimer (f i) = internalTimer (nodes c i)" "lockTimers (f i) = lockTimers (nodes c i)"
    "requestRepeater (f i) = requestRepeater (nodes c i)" "backgroundWriteDaemon (f i) = backgroundWriteDaemon (nodes c i)"
    if "0 \<le> i" "i < N" for i
    using twin_fields [OF tw [of i]] that by simp_all
  show ?thesis unfolding d by (cases ev) (auto simp: fs)
qed

section \<open>Events that no main loop takes part in\<close>

definition local_event :: "cluster_event \<Rightarrow> bool" where
  "local_event ev \<longleftrightarrow> (case ev of Receive e k \<Rightarrow> False | Control i e k \<Rightarrow> False | Timer i e k \<Rightarrow> False | Lock_timer i e k \<Rightarrow> False
     | Query i e \<Rightarrow> False | Resend i k \<Rightarrow> False | Stream i ord \<Rightarrow> False | _ \<Rightarrow> True)"

lemma after_ring_nodes [simp]: "after_ring i r (c\<lparr>nodes := f\<rparr>) = (after_ring i r c)\<lparr>nodes := f\<rparr>"
  by (simp add: after_ring_def)

lemma local_event_step:
  assumes "local_event ev"
  shows "cluster_step N ev (c\<lparr>nodes := f\<rparr>) = bind_res (cluster_step N ev c) (\<lambda>c'. Inr (c'\<lparr>nodes := f\<rparr>))"
    "cluster_step N ev c = Inr c' \<Longrightarrow> nodes c' = nodes c"
  using assms
  by (cases ev; auto simp: local_event_def elector_step_def Let_def bind_res_def after_ring_def
      split: sum.splits route.splits elector_call.splits)+

lemma twin_local_event:
  assumes "twin_cluster K N b c d" "local_event ev"
  shows "twin_clusters K N b (cluster_step N ev c) (cluster_step N ev d)"
  using assms(1)
proof (rule twin_clusterE)
  fix f assume d: "d = c\<lparr>nodes := f\<rparr>" and tw: "\<And>i. i \<in> {0..<N} \<Longrightarrow> twin K b (nodes c i) (f i)"
  show ?thesis
  proof (cases "cluster_step N ev c")
    case (Inr c')
    then have "twin_cluster K N b c' (c'\<lparr>nodes := f\<rparr>)"
      using local_event_step(2) [OF assms(2) Inr] tw by (intro twin_clusterI [OF refl]) simp
    with Inr show ?thesis by (simp add: d local_event_step(1) [OF assms(2)])
  qed (simp add: d local_event_step(1) [OF assms(2)])
qed

section \<open>Events of a node\<close>

definition sound_event :: "cluster_event \<Rightarrow> bool" where
  "sound_event ev \<longleftrightarrow> (case env_of ev of None \<Rightarrow> True | Some e \<Rightarrow> sound e)"

lemma twin_after_node:
  assumes "twin_cluster K N b c d" "twin K b' n m" "b \<le> b'" "i \<in> {0..<N}"
  shows "twin_cluster K N b' (after_node i n c) (after_node i m d)"
  using assms(1)
proof (rule twin_clusterE)
  fix f assume d: "d = c\<lparr>nodes := f\<rparr>" and tw: "\<And>i. i \<in> {0..<N} \<Longrightarrow> twin K b (nodes c i) (f i)"
  have "after_node i m d = (after_node i n c)\<lparr>nodes := f(i := m)\<rparr>"
    using twin_fields [OF assms(2)] twin_fields [OF tw [OF assms(4)]] by (simp add: d after_node_def)
  then show ?thesis
    by (rule twin_clusterI) (use assms(2,3) tw in \<open>auto simp: after_node_def intro: twin_mono\<close>)
qed

lemma twin_at: "twin_cluster K N b c d \<Longrightarrow> i \<in> {0..<N} \<Longrightarrow> twin K b (nodes c i) (nodes d i)"
  by (simp add: twin_cluster_def)

lemma twin_node_step:
  assumes "twin_cluster K N b c d" "i \<in> {0..<N}" "b \<le> b'"
    and "twins K b' (handleRequests_step e ev (nodes c i)) (handleRequests_step e ev (nodes d i))"
  shows "twin_clusters K N b' (node_step e ev i c) (node_step e ev i d)"
  using assms(4) twin_after_node [OF assms(1) _ assms(3,2)]
  by (auto simp: twins_def node_step_def)

lemma twin_incoming_step:
  assumes "twin_cluster K (w_n W) b c d" "tidy W c" "i \<in> {0..<w_n W}" "chance (w_n W) e" "arrives W (nodes c i) u"
    and "in_use K W" "sound e" "Suc (Suc b) < 2 ^ 63"
    and "client_request_type (DemuxKey u) \<Longrightarrow> accepts e (nodes c i) u \<Longrightarrow> w_own W (Id' u) = Some i"
  shows "twin_clusters K (w_n W) (Suc (Suc b)) (node_step e (Incoming u) i c) (node_step e (Incoming u) i d)"
proof (rule twin_node_step [OF assms(1,3)])
  have g: "good (nodes c i)" "mail W (nodes c i)" "world_ok W" "dbid (nodes c i) = i"
    using assms(2,3) by (auto simp: tidy_def wiring_def)
  show "twins K (Suc (Suc b)) (handleRequests_step e (Incoming u) (nodes c i)) (handleRequests_step e (Incoming u) (nodes d i))"
    using twins_incoming [OF twin_at [OF assms(1,3)] g(1-3) tidy_env [OF assms(2-4)] assms(5-8)] assms(9) g(4) by simp
qed simp

lemma twin_cluster_net: "twin_cluster K N b c d \<Longrightarrow> twin_cluster K N b (c\<lparr>net := x\<rparr>) (d\<lparr>net := x\<rparr>)"
  by (auto simp: twin_cluster_def intro!: exI [of _ "nodes d"])

text \<open>A message arrives: a request that is accepted gets its owner first.\<close>

lemma twin_receive:
  assumes "twin_cluster K N b c d" "cluster_inv N sl own c" "enabled N (Receive e k) c"
    and "in_use K (world_of N sl own c)" "sound e" "Suc (Suc b) < 2 ^ 63"
  shows "twin_clusters K N (Suc (Suc b)) (cluster_step N (Receive e k) c) (cluster_step N (Receive e k) d)"
proof -
  define m where "m = net c ! k"
  let ?c = "c\<lparr>net := without k (net c)\<rparr>" and ?d = "d\<lparr>net := without k (net c)\<rparr>"
  let ?W = "\<lambda>own. world_of N sl own c"
  have en: "k < length (net c)" "Dest m \<in> {0..<N}" "chance N e" using assms(3) by (simp_all add: m_def)
  have t: "tidy (?W own) c" using assms(2) by (simp add: cluster_inv_def)
  have tw: "twin_cluster K N b ?c ?d" by (rule twin_cluster_net [OF assms(1)])
  have "\<exists>own'. tidy (?W own') ?c \<and> proper (?W own') m \<and>
      (client_request_type (DemuxKey m) \<longrightarrow> accepts e (nodes c (Dest m)) m \<longrightarrow> own' (Id' m) = Some (Dest m))"
  proof (cases "client_request_type (DemuxKey m) \<and> accepts e (nodes c (Dest m)) m")
    case True
    with give_owner(3,4) [OF assms(2) m_def en(1), of "Dest m"] show ?thesis
      by (intro exI [of _ "own(Id' m \<mapsto> Dest m)"]) simp
  next
    case False
    moreover have "proper (?W own) m" using t en(1) by (simp add: tidy_def m_def)
    ultimately show ?thesis using tidy_net [OF t, of k] by (intro exI [of _ own]) blast
  qed
  then obtain own' where o: "tidy (?W own') ?c" "proper (?W own') m"
    "client_request_type (DemuxKey m) \<longrightarrow> accepts e (nodes c (Dest m)) m \<longrightarrow> own' (Id' m) = Some (Dest m)" by blast
  have "dbid (nodes ?c (Dest m)) = Dest m" using o(1) en(2) by (auto simp: tidy_def wiring_def)
  then have "arrives (?W own') (nodes ?c (Dest m)) m" using o(2) by (simp add: arrives_def)
  moreover have "in_use K (?W own')" using assms(4) by (simp add: in_use_def)
  ultimately have "twin_clusters K N (Suc (Suc b)) (node_step e (Incoming m) (Dest m) ?c) (node_step e (Incoming m) (Dest m) ?d)"
    using twin_incoming_step [of K "?W own'" b ?c ?d "Dest m" e m] tw o(1,3) en(2,3) assms(5,6) by simp
  moreover have "net d = net c" using assms(1) by (auto simp: twin_cluster_def)
  ultimately show ?thesis by (simp add: m_def)
qed

lemma twin_control_event:
  assumes "twin_cluster K N b c d" "cluster_inv N sl own c" "in_use K (world_of N sl own c)" "Suc (Suc b) < 2 ^ 63"
  shows "enabled N (Control i e k) c \<Longrightarrow> sound e \<Longrightarrow>
      twin_clusters K N (Suc (Suc b)) (cluster_step N (Control i e k) c) (cluster_step N (Control i e k) d)"
    "enabled N (Timer i e p) c \<Longrightarrow> sound e \<Longrightarrow>
      twin_clusters K N (Suc (Suc b)) (cluster_step N (Timer i e p) c) (cluster_step N (Timer i e p) d)"
proof -
  let ?W = "world_of N sl own c"
  have t: "tidy ?W c" using assms(2) by (simp add: cluster_inv_def)
  have step: "twin_clusters K N (Suc (Suc b)) (node_step e (Incoming u) i c) (node_step e (Incoming u) i d)"
    if "i \<in> {0..<N}" "chance N e" "arrives ?W (nodes c i) u" "\<not> client_request_type (DemuxKey u)" "sound e" for u
    using twin_incoming_step [of K ?W b c d i e u] assms(1,3,4) t that by simp
  show "twin_clusters K N (Suc (Suc b)) (cluster_step N (Control i e k) c) (cluster_step N (Control i e k) d)"
    if "enabled N (Control i e k) c" "sound e"
    using step [of "zeroMessage\<lparr>DemuxKey := k\<rparr>"] that by (auto simp: arrives_def client_request_type_def)
  show "twin_clusters K N (Suc (Suc b)) (cluster_step N (Timer i e p) c) (cluster_step N (Timer i e p) d)"
    if "enabled N (Timer i e p) c" "sound e"
  proof -
    have i: "i \<in> {0..<N}" "chance N e" using that(1) by auto
    have "timer_signal (nodes d i) (internalTimer (nodes d i) ! p) = timer_signal (nodes c i) (internalTimer (nodes c i) ! p)"
      using twin_fields [OF twin_at [OF assms(1) i(1)]] by (simp add: timer_signal_def)
    with step [OF i, of "timer_signal (nodes c i) (internalTimer (nodes c i) ! p)"] that(2) show ?thesis
      by (auto simp: arrives_def timer_signal_def client_request_type_def)
  qed
qed

lemma twin_resend:
  assumes "twin K b n m"
  shows "twin K b (resend k n) (resend k m)" "twin K b (stream_round ord n) (stream_round ord m)"
proof -
  show "twin K b (resend k n) (resend k m)"
    by (rule twin_map [OF assms])
      (auto simp: resend_def Let_def marked_def member_def memberList_def split: prod.splits)
  show "twin K b (stream_round ord n) (stream_round ord m)"
    by (rule twin_map [OF assms])
      (auto simp: stream_round_def Let_def marked_def member_def memberList_def split: prod.splits option.splits)
qed

lemma twin_other_event:
  assumes "twin_cluster K N b c d"
  shows "enabled N (Lock_timer i e k) c \<Longrightarrow> sound e \<Longrightarrow>
      twin_clusters K N b (cluster_step N (Lock_timer i e k) c) (cluster_step N (Lock_timer i e k) d)"
    "enabled N (Query i e) c \<Longrightarrow> twin_clusters K N b (cluster_step N (Query i e) c) (cluster_step N (Query i e) d)"
    "enabled N (Resend i k) c \<Longrightarrow> twin_clusters K N b (cluster_step N (Resend i k) c) (cluster_step N (Resend i k) d)"
    "enabled N (Stream i ord) c \<Longrightarrow> twin_clusters K N b (cluster_step N (Stream i ord) c) (cluster_step N (Stream i ord) d)"
proof -
  note step = twin_node_step [OF assms _ order_refl] and after = twin_after_node [OF assms _ order_refl]
  note at = twin_at [OF assms]
  have fs: "lockTimers (nodes d i) = lockTimers (nodes c i)" "stateQueryRes (nodes d i) = stateQueryRes (nodes c i)"
      "currentTxid (nodes d i) = currentTxid (nodes c i)" if "i \<in> {0..<N}" for i
    using twin_fields [OF at [OF that]] by simp_all
  show "twin_clusters K N b (cluster_step N (Lock_timer i e k) c) (cluster_step N (Lock_timer i e k) d)"
    if "enabled N (Lock_timer i e k) c" "sound e"
    using step [of i e] twins_lock_timeout [OF at that(2)] that fs by simp
  show "twin_clusters K N b (cluster_step N (Query i e) c) (cluster_step N (Query i e) d)"
    if "enabled N (Query i e) c"
    using step [of i e StateQueryReq] twin_upd(11) [OF at] that fs by simp
  show "twin_clusters K N b (cluster_step N (Resend i k) c) (cluster_step N (Resend i k) d)"
    if "enabled N (Resend i k) c"
    using after twin_resend(1) [OF at] that by simp
  show "twin_clusters K N b (cluster_step N (Stream i ord) c) (cluster_step N (Stream i ord) d)"
    if "enabled N (Stream i ord) c"
    using after twin_resend(2) [OF at] that by simp
qed

section \<open>Every event, and every schedule\<close>

lemma twin_step:
  assumes "twin_cluster K N b c d" "cluster_inv N sl own c" "enabled N ev c" "in_use K (world_of N sl own c)"
    and "sound_event ev" "Suc (Suc b) < 2 ^ 63"
  shows "twin_clusters K N (Suc (Suc b)) (cluster_step N ev c) (cluster_step N ev d)"
proof -
  have mono: "twin_clusters K N (Suc (Suc b)) r r'" if "twin_clusters K N b r r'" for r r'
    using that twin_cluster_mono [of K N b _ _ "Suc (Suc b)"] by (auto simp: twin_clusters_def)
  note control = twin_control_event [OF assms(1,2,4,6)] and other = twin_other_event [OF assms(1), THEN mono]
  show ?thesis
  proof (cases "local_event ev")
    case True
    from mono [OF twin_local_event [OF assms(1) this]] show ?thesis .
  next
    case False
    have s: "env_of ev = Some e \<Longrightarrow> sound e" for e using assms(5) by (simp add: sound_event_def)
    show ?thesis
    proof (cases ev)
      case (Receive e k)
      with twin_receive [OF assms(1,2) _ assms(4)] assms(3,6) s show ?thesis by simp
    next
      case (Control i e k)
      with control(1) assms(3) s show ?thesis by simp
    next
      case (Timer i e k)
      with control(2) assms(3) s show ?thesis by simp
    next
      case (Lock_timer i e k)
      with other(1) assms(3) s show ?thesis by simp
    next
      case (Query i e)
      with other(2) assms(3) show ?thesis by simp
    next
      case (Resend i k)
      with other(3) assms(3) show ?thesis by simp
    next
      case (Stream i ord)
      with other(4) assms(3) show ?thesis by simp
    qed (use False in \<open>simp_all add: local_event_def\<close>)
  qed
qed

lemma step_asked:
  assumes "cluster_step N ev c = Inr c'"
  shows "set (asked c') = set (asked c) \<union> {m. ev = Ask m}"
  using assms
  by (cases ev) (auto simp: node_step_def elector_step_def Let_def bind_res_def after_node_def after_ring_def
      split: sum.splits route.splits elector_call.splits)

definition event_fits :: "byte list set \<Rightarrow> cluster_event \<Rightarrow> bool" where
  "event_fits K ev \<longleftrightarrow> (case ev of Ask m \<Rightarrow> raw (Key m) \<in> K \<and> length (raw (Value m)) + 12 < 2 ^ 32 | _ \<Rightarrow> True)"

text \<open>The relation with what it needs to be kept.\<close>

definition beside :: "byte list set \<Rightarrow> int \<Rightarrow> bool \<Rightarrow> nat \<Rightarrow> cluster \<Rightarrow> cluster \<Rightarrow> bool" where
  "beside K N sl b c d \<longleftrightarrow> twin_cluster K N b c d \<and>
     (\<exists>own. cluster_inv N sl own c \<and> in_use K (world_of N sl own c))"

definition usable :: "byte list set \<Rightarrow> int \<Rightarrow> cluster_event \<Rightarrow> bool" where
  "usable K N ev \<longleftrightarrow> random_ok N ev \<and> sound_event ev \<and> event_fits K ev"

lemma beside_step:
  assumes "beside K N sl b c d" "possible N ev c" "usable K N ev" "1 \<le> N" "Suc (Suc b) < 2 ^ 63"
  shows "(\<exists>c' d'. cluster_step N ev c = Inr c' \<and> cluster_step N ev d = Inr d' \<and> beside K N sl (Suc (Suc b)) c' d') \<or>
    checks ev c \<and> cluster_step N ev c = Inl Fatal \<and> cluster_step N ev d = Inl Fatal"
proof -
  obtain own where o: "cluster_inv N sl own c" "in_use K (world_of N sl own c)"
    using assms(1) by (auto simp: beside_def)
  have en: "enabled N ev c" "sound_event ev" "event_fits K ev" using assms(2,3) by (simp_all add: usable_def)
  have tw: "twin_clusters K N (Suc (Suc b)) (cluster_step N ev c) (cluster_step N ev d)"
    using twin_step [OF _ o(1) en(1) o(2) en(2) assms(5)] assms(1) by (simp add: beside_def)
  from cluster_step_inv [OF o(1) en(1) assms(4)] show ?thesis
  proof (elim disjE exE conjE)
    fix c' own' assume c': "cluster_step N ev c = Inr c'" "cluster_inv N sl own' c'"
    then obtain d' where d': "cluster_step N ev d = Inr d'" "twin_cluster K N (Suc (Suc b)) c' d'"
      using tw by (auto simp: twin_clusters_def)
    have "in_use K (world_of N sl own' c')"
      using o(2) en(3) step_asked [OF c'(1)] by (auto simp: in_use_def event_fits_def)
    with c' d' show ?thesis by (auto simp: beside_def)
  qed (use tw in \<open>auto simp: twin_clusters_def\<close>)
qed

lemma beside_run:
  assumes "beside K N sl b c d" "1 \<le> N" "\<forall>ev \<in> set evs. usable K N ev" "b + 2 * length evs < 2 ^ 63"
  shows "rel_option (beside K N sl (b + 2 * length evs)) (cluster_run N evs c) (cluster_run N evs d)"
  using assms
proof (induction evs arbitrary: b c d)
  case (Cons ev evs)
  have "twin_cluster K N b c d" using Cons.prems(1) by (simp add: beside_def)
  then have same: "possible N ev d = possible N ev c" by (rule twin_cluster_possible)
  show ?case
  proof (cases "possible N ev c")
    case True
    have "usable K N ev" "Suc (Suc b) < 2 ^ 63" using Cons.prems(3,4) by simp_all
    from beside_step [OF Cons.prems(1) True this(1) Cons.prems(2) this(2)] show ?thesis
    proof (elim disjE exE conjE)
      fix c' d'
      assume s: "cluster_step N ev c = Inr c'" "cluster_step N ev d = Inr d'" "beside K N sl (Suc (Suc b)) c' d'"
      from Cons.IH [OF s(3) Cons.prems(2)] Cons.prems(3,4) show ?thesis by (simp add: True same s(1,2))
    qed (simp add: True same)
  qed (simp add: same)
qed simp

end
