(* ===== verification/Props_Twin.thy ===== *)
theory Props_Twin
  imports Cluster_Twin Props_Stale
begin

text \<open>
  Properties of clusters with on-disk stores, from those of clusters with stores in memory. No
  system call fails here, and MD5 separates the keys that are used.
\<close>

section \<open>A simulation with and without \<open>-persistent\<close>\<close>

definition same_but_stores :: "byte list set \<Rightarrow> int \<Rightarrow> cluster \<Rightarrow> cluster \<Rightarrow> bool" where
  "same_but_stores K N c d \<longleftrightarrow> (\<exists>f. d = c\<lparr>nodes := f\<rparr>) \<and>
     (\<forall>i \<in> {0..<N}. \<exists>s p. dstore (nodes c i) = Mem s \<and> nodes d i = (nodes c i)\<lparr>dstore := Disk p\<rparr> \<and>
        (\<forall>k. raw k \<in> K \<longrightarrow> Store_Get no_fault (Disk p) k = Store_Get no_fault (Mem s) k))"

lemma twin_cluster_same:
  assumes "twin_cluster K N b c d"
  shows "same_but_stores K N c d"
proof -
  have "\<exists>s p. dstore n = Mem s \<and> m = n\<lparr>dstore := Disk p\<rparr> \<and>
      (\<forall>k. raw k \<in> K \<longrightarrow> Store_Get no_fault (Disk p) k = Store_Get no_fault (Mem s) k)" if "twin K b n m" for n m
    using that
  proof (rule twinE)
    fix s p assume "dstore n = Mem s" "m = n\<lparr>dstore := Disk p\<rparr>" "alike K b s p"
    then show ?thesis using alike_Get [of K b s p] by (intro exI [of _ s] exI [of _ p]) simp
  qed
  with assms show ?thesis by (simp add: twin_cluster_def same_but_stores_def)
qed

lemma twin_New:
  assumes "hashes h K"
  shows "twin K 0 (New h n i False rqs wqs sl) (New h n i True rqs wqs sl)"
  by (rule twinI [OF alike_new [OF assms]])
    (simp_all add: New_def new_Store_def pending_def marked_def)

text \<open>The options but for the flag \<open>-persistent\<close>.\<close>

lemma options_store [simp]:
  "sloppyQuorum (o'\<lparr>PersistentStore := x\<rparr>) = sloppyQuorum o'"
  "check_options (o'\<lparr>PersistentStore := x\<rparr>) = check_options o'"
  by (simp_all add: check_options_def sloppyQuorum_def Let_def)

lemma options_store_same: "PersistentStore o' \<Longrightarrow> o'\<lparr>PersistentStore := True\<rparr> = o'"
  by (cases o') simp

lemma start_twins:
  assumes "hashes h K"
  shows "twin_cluster K N 0 (start_cluster h (o'\<lparr>PersistentStore := False\<rparr>)) (start_cluster h (o'\<lparr>PersistentStore := True\<rparr>))"
  by (rule twin_clusterI) (use twin_New [OF assms] in \<open>simp_all add: start_cluster_def sloppyQuorum_def Let_def\<close>)

lemma start_beside:
  assumes "Simulate h o' = Inr s" "NumNodes o' \<le> 1000" "sloppyQuorum o' \<longrightarrow> ReadQuorumSize o' \<noteq> 0"
    and "N = uint (NumNodes o')" "hashes h K"
  shows "1 \<le> N" "beside K N (sloppyQuorum o') 0 (start_cluster h (o'\<lparr>PersistentStore := False\<rparr>))
    (start_cluster h (o'\<lparr>PersistentStore := True\<rparr>))"
proof -
  let ?o = "o'\<lparr>PersistentStore := False\<rparr>" and ?sl = "sloppyQuorum o'"
  have o: "check_options ?o = Inr ()" "NumNodes ?o \<le> 1000" "sloppyQuorum ?o \<longrightarrow> ReadQuorumSize ?o \<noteq> 0"
    "N = uint (NumNodes ?o)" using assms(2-4) Simulate_Inr(1) [OF assms(1)] by simp_all
  note start = accepted_start [OF o]
  show "1 \<le> N" by (rule start(1))
  have "cluster_inv N ?sl (\<lambda>_. None) (start_cluster h ?o)" using cluster_inv_init [OF start(1-6)] start(8) by simp
  moreover have "in_use K (world_of N ?sl (\<lambda>_. None) (start_cluster h ?o))"
    by (simp add: in_use_def start_cluster_def cluster_init_def Let_def)
  ultimately show "beside K N ?sl 0 (start_cluster h ?o) (start_cluster h (o'\<lparr>PersistentStore := True\<rparr>))"
    using start_twins [OF assms(5)] unfolding beside_def by blast
qed

text \<open>C8: a simulation does not depend on where its data is. From the same accepted options with and
  without \<open>-persistent\<close>, any sequence of events is possible in both clusters or in neither and
  crashes both or neither; afterwards they agree in everything, messages, electors and the state
  of every node, but the stores, and those read alike for every key that was used. No system call
  fails, the keys have different MD5 sums, and keys and values fit a page.\<close>

theorem disk_simulation_as_memory:
  assumes "Simulate h (o'\<lparr>PersistentStore := False\<rparr>) = Inr s" "Simulate h (o'\<lparr>PersistentStore := True\<rparr>) = Inr s'"
    and "NumNodes o' \<le> 1000" "sloppyQuorum o' \<longrightarrow> ReadQuorumSize o' \<noteq> 0" "N = uint (NumNodes o')"
    and "hashes h K" "\<forall>ev \<in> set evs. usable K N ev" "2 * length evs < 2 ^ 63"
  shows "rel_option (same_but_stores K N) (cluster_run N evs (sim_cluster s)) (cluster_run N evs (sim_cluster s'))"
proof -
  have "rel_option (beside K N (sloppyQuorum o') (0 + 2 * length evs)) (cluster_run N evs (sim_cluster s)) (cluster_run N evs (sim_cluster s'))"
    unfolding Simulate_Inr(2) [OF assms(1)] Simulate_Inr(2) [OF assms(2)]
    using start_beside [OF assms(1), of N K] assms(3-8) by (intro beside_run) simp_all
  then show ?thesis by (rule option.rel_mono_strong) (auto simp: beside_def intro: twin_cluster_same)
qed


section \<open>The default options with and without \<open>-persistent\<close>\<close>

text \<open>The run of \<open>stale_run\<close>, in which a write is acknowledged and then the key is read.\<close>

lemma stale_usable: "\<forall>ev \<in> set (stale_write @ stale_read). usable {[7]} 5 ev"
proof -
  have snd: "sound (clash_env l)" "sound ((clash_env l)\<lparr>leaderAnswer := -1\<rparr>)" for l
    by (simp_all add: sound_def clash_env_def plain_env_def)
  have "\<forall>ev \<in> set (stale_write @ stale_read). sound_event ev \<and> event_fits {[7]} ev"
    by (simp add: stale_write_def stale_read_def stale_hop_def becomes_leader_def round_trip_def hop_def
        clash_request_def stale_request_def sound_event_def event_fits_def snd)
  with stale_random show ?thesis by (simp add: usable_def)
qed

lemma stale_length: "2 * length (stale_write @ stale_read) + 2 < 2 ^ 63"
  by (simp add: stale_write_def stale_read_def stale_hop_def becomes_leader_def round_trip_def hop_def)

lemma one_key: "hashes (\<lambda>_. []) {[7]}"
  by (simp add: hashes_def small_def)

lemma persistent_options: "main_options [Flag_persistent x] = (main_options [])\<lparr>PersistentStore := x\<rparr>"
  by (simp add: main_options_def)

lemma default_options:
  "NumNodes (main_options []) = 5" "\<not> sloppyQuorum (main_options [])" "\<not> PersistentStore (main_options [])"
  by (simp_all add: main_options_def main_defaults_def sloppyQuorum_def)

lemma cluster_run_append: "cluster_run N (xs @ ys) c = Option.bind (cluster_run N xs c) (cluster_run N ys)"
  by (induction N xs c rule: cluster_run.induct) (auto split: sum.split)

lemma stale_run_both:
  "\<exists>c. cluster_run 5 (stale_write @ stale_read) (cluster_init (\<lambda>_. []) 5 3 3 False) = Some c \<and>
    (\<exists>m \<in> set (net c). DemuxKey m = ClientReadResponse \<and> Ok m)"
proof -
  obtain c1 c where c: "cluster_run 5 stale_write (cluster_init (\<lambda>_. []) 5 3 3 False) = Some c1"
    "cluster_run 5 stale_read c1 = Some c"
    "map (\<lambda>m. (DemuxKey m, Id' m, Ok m, Key m, Timestamp m)) (tl (net c)) = [(ClientReadResponse, 2, True, Some [7], 0)]"
    using stale_run by auto
  from c(3) obtain m where m: "tl (net c) = [m]" "DemuxKey m = ClientReadResponse" "Ok m" by auto
  then have "m \<in> set (net c)" by (cases "net c") simp_all
  with c m(2,3) show ?thesis by (auto simp: cluster_run_append)
qed

text \<open>The cluster with pages on disk goes through the whole run.\<close>

lemma stale_on_disk:
  assumes "Simulate (\<lambda>_. []) (main_options [Flag_persistent True]) = Inr s"
  shows "\<exists>d. cluster_run 5 (stale_write @ stale_read) (sim_cluster s) = Some d \<and>
    (\<exists>m \<in> set (net d). DemuxKey m = ClientReadResponse \<and> Ok m)"
proof -
  let ?o = "main_options []"
  obtain s0 where s0: "Simulate (\<lambda>_. []) ?o = Inr s0" "sim_cluster s0 = cluster_init (\<lambda>_. []) 5 3 3 False"
    using default_Simulate by blast
  have "?o\<lparr>PersistentStore := False\<rparr> = ?o" using default_options(3) by (cases ?o) simp
  then have start: "start_cluster (\<lambda>_. []) (?o\<lparr>PersistentStore := False\<rparr>) = cluster_init (\<lambda>_. []) 5 3 3 False"
    using Simulate_Inr(2) [OF s0(1)] s0(2) by (simp only:)
  have disk: "sim_cluster s = start_cluster (\<lambda>_. []) (?o\<lparr>PersistentStore := True\<rparr>)"
    using Simulate_Inr(2) [OF assms] by (simp only: persistent_options)
  have "beside {[7]} 5 (sloppyQuorum ?o) 0 (start_cluster (\<lambda>_. []) (?o\<lparr>PersistentStore := False\<rparr>)) (sim_cluster s)"
    unfolding disk by (rule start_beside(2) [OF s0(1) _ _ _ one_key]) (simp_all add: default_options)
  then have b: "beside {[7]} 5 False 0 (cluster_init (\<lambda>_. []) 5 3 3 False) (sim_cluster s)"
    unfolding start by (simp only: default_options)
  obtain c where c: "cluster_run 5 (stale_write @ stale_read) (cluster_init (\<lambda>_. []) 5 3 3 False) = Some c"
    "\<exists>m \<in> set (net c). DemuxKey m = ClientReadResponse \<and> Ok m" using stale_run_both by blast
  from beside_run [OF b _ stale_usable] stale_length c(1) obtain d where
    "cluster_run 5 (stale_write @ stale_read) (sim_cluster s) = Some d"
    "beside {[7]} 5 False (2 * length (stale_write @ stale_read)) c d" by (auto simp: option_rel_Some1)
  with c(2) show ?thesis by (auto simp: beside_def twin_cluster_def)
qed

lemma persistent_Simulate: "\<exists>s. Simulate (\<lambda>_. []) (main_options [Flag_persistent x]) = Inr s"
proof -
  have "check_options (main_options []) = Inr ()" by code_simp
  then show ?thesis by (simp add: Simulate_def persistent_options Let_def)
qed

theorem disk_simulation_as_memory_ex:
  "\<exists>s d. Simulate (\<lambda>_. []) (main_options [Flag_persistent True]) = Inr s \<and>
     cluster_run 5 (stale_write @ stale_read) (sim_cluster s) = Some d \<and>
     (\<forall>i \<in> {0..<5}. \<exists>p. dstore (nodes d i) = Disk p) \<and>
     (\<exists>m \<in> set (net d). DemuxKey m = ClientReadResponse \<and> Ok m)"
proof -
  obtain s where s: "Simulate (\<lambda>_. []) (main_options [Flag_persistent False]) = Inr s"
    using persistent_Simulate by blast
  obtain s' where s': "Simulate (\<lambda>_. []) (main_options [Flag_persistent True]) = Inr s'"
    using persistent_Simulate by blast
  have "rel_option (same_but_stores {[7]} 5) (cluster_run 5 (stale_write @ stale_read) (sim_cluster s))
      (cluster_run 5 (stale_write @ stale_read) (sim_cluster s'))"
    by (rule disk_simulation_as_memory [OF s [unfolded persistent_options] s' [unfolded persistent_options]])
      (use default_options one_key stale_usable stale_length in simp_all)
  with stale_on_disk [OF s'] s' show ?thesis by (force simp: option_rel_Some2 same_but_stores_def)
qed


end
