(* ===== verification/Monitor.thy ===== *)
theory Monitor
  imports Packet
begin

text \<open>
  \<open>src/net/monitor.go\<close>: the frequency tables of the monitor. Its two goroutines are functions
  of the events they wait for; the answers of \<open>QueryState\<close> are arguments. The tickers, the
  starting of the goroutines and the JSON output of \<open>stop\<close> are not modelled.
\<close>

text \<open>A Go map from keys to counts: reading a missing key gives 0.\<close>

type_synonym 'k freq = "'k \<Rightarrow> int option"

definition freq_of :: "'k freq option \<Rightarrow> 'k \<Rightarrow> int" where
  "freq_of m k = (case m of None \<Rightarrow> 0 | Some f \<Rightarrow> (case f k of None \<Rightarrow> 0 | Some n \<Rightarrow> n))"

record monitor =
  msgTypes :: "int \<Rightarrow> Messagetype freq option"
  nodeStates :: "int \<Rightarrow> int freq option"

definition newMonitor :: monitor where
  "newMonitor = \<lparr>msgTypes = (\<lambda>_. None), nodeStates = (\<lambda>_. None)\<rparr>"

text \<open>\<open>count := m[t][k]; m[t][k] = count + 1\<close>, which panics when \<open>m[t]\<close> is nil.\<close>

definition count_at :: "int \<Rightarrow> 'k \<Rightarrow> (int \<Rightarrow> 'k freq option) \<Rightarrow> (int \<Rightarrow> 'k freq option) res" where
  "count_at t k m =
     (case m t of None \<Rightarrow> Inl Panic | Some f \<Rightarrow> Inr (m(t \<mapsto> f(k \<mapsto> freq_of (m t) k + 1))))"

section \<open>Message types\<close>

text \<open>\<open>logMsg\<close> sends the type of a message on \<open>msgStream\<close>; the other case is the ticker's.\<close>

datatype stream_event = Second | Logged Messagetype

definition logMsg :: "Message \<Rightarrow> stream_event" where
  "logMsg msg = Logged (DemuxKey msg)"

fun monitorMsgTypes_step :: "stream_event \<Rightarrow> int \<times> monitor \<Rightarrow> (int \<times> monitor) res" where
  "monitorMsgTypes_step Second (counter, m) =
     Inr (counter + 1, m\<lparr>msgTypes := (msgTypes m)(counter + 1 \<mapsto> (\<lambda>_. None))\<rparr>)"
| "monitorMsgTypes_step (Logged t) (counter, m) =
     bind_res (count_at counter t (msgTypes m)) (\<lambda>ts. Inr (counter, m\<lparr>msgTypes := ts\<rparr>))"

definition monitorMsgTypes :: "stream_event list \<Rightarrow> monitor \<Rightarrow> (int \<times> monitor) res" where
  "monitorMsgTypes evs m = fold_res monitorMsgTypes_step evs (0, m\<lparr>msgTypes := (msgTypes m)(0 \<mapsto> (\<lambda>_. None))\<rparr>)"

section \<open>Node states\<close>

text \<open>One second: the transaction of every node but the last, the client's address.\<close>

definition monitorNodeStates_round :: "int list \<Rightarrow> int \<times> monitor \<Rightarrow> (int \<times> monitor) res" where
  "monitorNodeStates_round answers = (\<lambda>(counter, m).
     bind_res (fold_res (count_at counter) answers ((nodeStates m)(counter \<mapsto> (\<lambda>_. None)))) (\<lambda>ns.
       Inr (counter + 1, m\<lparr>nodeStates := ns\<rparr>)))"

section \<open>The tables count\<close>

lemma count_at_ok:
  assumes "t \<in> dom m"
  shows "\<exists>m'. count_at t k m = Inr m' \<and> t \<in> dom m' \<and> (\<forall>s. s \<noteq> t \<longrightarrow> m' s = m s) \<and>
    freq_of (m' t) k' = freq_of (m t) k' + (if k' = k then 1 else 0)"
  using assms by (auto simp: count_at_def freq_of_def split: option.splits)

lemma node_states_counted:
  assumes "t \<in> dom m"
  shows "\<exists>m'. fold_res (count_at t) xs m = Inr m' \<and> (\<forall>s. s \<noteq> t \<longrightarrow> m' s = m s) \<and>
    freq_of (m' t) k = freq_of (m t) k + int (count_list xs k)"
  using assms
proof (induction xs arbitrary: m)
  case (Cons x xs)
  obtain m1 where 1: "count_at t x m = Inr m1" "t \<in> dom m1" "\<forall>s. s \<noteq> t \<longrightarrow> m1 s = m s"
    "freq_of (m1 t) k = freq_of (m t) k + (if k = x then 1 else 0)"
    using count_at_ok [OF Cons.prems, of x k] by blast
  from Cons.IH [OF 1(2)] 1 show ?case by auto
qed simp

text \<open>A second's table holds how many nodes were in each transaction; earlier ones stay.\<close>

lemma node_states_round:
  "\<exists>m'. monitorNodeStates_round answers (c, m) = Inr (c + 1, m') \<and>
    (\<forall>t. freq_of (nodeStates m' c) t = int (count_list answers t)) \<and>
    (\<forall>s. s \<noteq> c \<longrightarrow> nodeStates m' s = nodeStates m s)"
proof -
  let ?m = "(nodeStates m)(c \<mapsto> (\<lambda>_. None))"
  obtain ns where ns: "fold_res (count_at c) answers ?m = Inr ns"
    using node_states_counted [of c ?m answers] by auto
  then have "\<forall>t. freq_of (ns c) t = int (count_list answers t)" "\<forall>s. s \<noteq> c \<longrightarrow> ns s = nodeStates m s"
    using node_states_counted [of c ?m answers] by (auto simp: freq_of_def)
  with ns show ?thesis by (simp add: monitorNodeStates_round_def)
qed

text \<open>The messages logged since the last tick.\<close>

fun since_tick :: "stream_event list \<Rightarrow> Messagetype list \<Rightarrow> Messagetype list" where
  "since_tick [] acc = acc"
| "since_tick (Second # evs) acc = since_tick evs []"
| "since_tick (Logged t # evs) acc = since_tick evs (t # acc)"

lemma stream_counted:
  assumes "c \<in> dom (msgTypes m)" "\<forall>t. freq_of (msgTypes m c) t = int (count_list acc t)"
  shows "\<exists>c' m'. fold_res monitorMsgTypes_step evs (c, m) = Inr (c', m') \<and>
    (\<forall>t. freq_of (msgTypes m' c') t = int (count_list (since_tick evs acc) t))"
  using assms
proof (induction evs arbitrary: c m acc)
  case (Cons ev evs)
  show ?case
  proof (cases ev)
    case Second
    let ?m = "m\<lparr>msgTypes := (msgTypes m)(c + 1 \<mapsto> (\<lambda>_. None))\<rparr>"
    have "c + 1 \<in> dom (msgTypes ?m)" "\<forall>t. freq_of (msgTypes ?m (c + 1)) t = int (count_list [] t)"
      by (simp_all add: freq_of_def)
    from Cons.IH [OF this] Second show ?thesis by simp
  next
    case (Logged k)
    obtain ts where ts: "count_at c k (msgTypes m) = Inr ts" "c \<in> dom ts"
      using count_at_ok [OF Cons.prems(1)] by blast
    have "freq_of (ts c) t = int (count_list (k # acc) t)" for t
      using count_at_ok [OF Cons.prems(1), of k t] ts(1) Cons.prems(2) by auto
    with Cons.IH [of c "m\<lparr>msgTypes := ts\<rparr>" "k # acc"] ts Logged show ?thesis by simp
  qed
qed auto

lemma message_types_counted:
  "\<exists>c m'. monitorMsgTypes evs newMonitor = Inr (c, m') \<and>
    (\<forall>t. freq_of (msgTypes m' c) t = int (count_list (since_tick evs []) t))"
  unfolding monitorMsgTypes_def by (rule stream_counted) (simp_all add: newMonitor_def freq_of_def)

end
